(* ===== verification/Prelude.thy ===== *)
theory Prelude
  imports Main "HOL-Library.Word" "HOL-Library.Monad_Syntax"
begin

text \<open>
  What every component theory shares: the types of the machine (bytes, C text), little-endian
  encodings, the overwrite of a region of an array (\<open>std::copy_n\<close>, \<open>memcpy\<close>), C strings in
  memory, the conversions between the C integer types, and the collections of facts
  (\<open>buf_simps\<close>, \<open>wire_simps\<close>, \<open>stream_simps\<close>) the component proofs are carried by.

  Conventions: text is a \<open>string\<close> (a list of 8-bit characters), raw memory of a message is a
  list of bytes, and a result of type \<open>'a option\<close> is \<open>None\<close> exactly where the C++ source has
  no defined behaviour (a read past an array, a conversion without an argument).
\<close>

named_theorems buf_simps \<open>size and content of the growable buffer\<close>
named_theorems wire_simps \<open>layout of the binary messages\<close>
named_theorems stream_simps \<open>effect of the text back end's operations\<close>

type_synonym byte = "8 word"
type_synonym mem = "char list"

abbreviation NUL :: char where "NUL \<equiv> CHR 0x00"
abbreviation LF :: char where "LF \<equiv> CHR 0x0A"
abbreviation ESC :: char where "ESC \<equiv> CHR 0x1B"

section \<open>Overwriting a region of an array\<close>

definition blit :: "'a list \<Rightarrow> nat \<Rightarrow> 'a list \<Rightarrow> 'a list" where
  "blit xs i ys = take i xs @ ys @ drop (i + length ys) xs"

lemma length_blit [simp]: "i + length ys \<le> length xs \<Longrightarrow> length (blit xs i ys) = length xs"
  by (simp add: blit_def)

lemma take_blit_before [simp]: "n \<le> i \<Longrightarrow> i \<le> length xs \<Longrightarrow> take n (blit xs i ys) = take n xs"
  by (simp add: blit_def min_absorb1)

lemma take_blit_whole: "i \<le> length xs \<Longrightarrow> take (i + length ys) (blit xs i ys) = take i xs @ ys"
  by (simp add: blit_def)

lemma nth_blit: "i \<le> length xs \<Longrightarrow> k < length ys \<Longrightarrow> blit xs i ys ! (i + k) = ys ! k"
  by (simp add: blit_def nth_append)

text \<open>A single assignment \<open>m[i] = c\<close>: \<open>None\<close> when it is out of bounds.\<close>

definition put_at :: "nat \<Rightarrow> 'a \<Rightarrow> 'a list \<Rightarrow> 'a list option" where
  "put_at i c m = (if i < length m then Some (m[i := c]) else None)"

lemma blit_empty [simp]: "blit m i [] = m"
  by (simp add: blit_def)

lemma blit_update: "i < length m \<Longrightarrow> blit (m[i := c]) (Suc i) cs = blit m i (c # cs)"
  by (simp add: blit_def take_Suc_conv_app_nth take_update_cancel)

lemma blit_append: "i + length xs \<le> length m \<Longrightarrow>
    blit (blit m i xs) (i + length xs) ys = blit m i (xs @ ys)"
  by (simp add: blit_def ac_simps)

lemma list_update_blit: "i < length m \<Longrightarrow> m[i := c] = blit m i [c]"
  by (simp add: blit_def upd_conv_take_nth_drop)

lemma list_update3_blit:
  assumes "i + 2 < length m"
  shows "m[i := a, i + 1 := b, i + 2 := c] = blit m i [a, b, c]"
proof -
  have "m[i := a, i + 1 := b, i + 2 := c] = blit (m[i := a, i + 1 := b]) (i + 2) [c]"
    using assms by (simp add: list_update_blit)
  also have "\<dots> = blit (m[i := a]) (i + 1) [b, c]"
    using assms blit_update[of "i + 1" "m[i := a]" b "[c]"] by simp
  also have "\<dots> = blit m i [a, b, c]"
    using assms blit_update[of i m a "[b, c]"] by simp
  finally show ?thesis .
qed

section \<open>C strings\<close>

text \<open>
  \<open>cstr\<close> is the text that starts a memory region, up to its first NUL; \<open>c_string\<close> is the
  guarded version, \<open>None\<close> when the region holds no NUL (the C code would read past it).
\<close>

definition cstr :: "mem \<Rightarrow> string" where
  "cstr m = takeWhile (\<lambda>c. c \<noteq> NUL) m"

definition c_string :: "mem \<Rightarrow> string option" where
  "c_string m = (if NUL \<in> set m then Some (cstr m) else None)"

definition nul_free :: "string \<Rightarrow> bool" where
  "nul_free s \<longleftrightarrow> NUL \<notin> set s"

lemma cstr_nul_free [simp]: "nul_free (cstr m)"
  by (auto simp: cstr_def nul_free_def dest: set_takeWhileD)

lemma cstr_id [simp]: "nul_free s \<Longrightarrow> cstr s = s"
  by (auto simp: cstr_def nul_free_def takeWhile_eq_all_conv)

lemma cstr_append_NUL [simp]: "nul_free s \<Longrightarrow> cstr (s @ NUL # m) = s"
  unfolding cstr_def nul_free_def by (subst takeWhile_append2) auto

lemma c_string_append_NUL [simp]: "nul_free s \<Longrightarrow> c_string (s @ NUL # m) = Some s"
  by (simp add: c_string_def)

lemma nul_free_simps [simp]:
  "nul_free []" "nul_free (c # s) \<longleftrightarrow> c \<noteq> NUL \<and> nul_free s"
  "nul_free (s @ t) \<longleftrightarrow> nul_free s \<and> nul_free t"
  "nul_free (replicate n c) \<longleftrightarrow> n = 0 \<or> c \<noteq> NUL"
  by (auto simp: nul_free_def)

lemma nul_free_take [intro]: "nul_free s \<Longrightarrow> nul_free (take n s)"
  by (auto simp: nul_free_def dest: in_set_takeD)

lemma nul_free_concat: "(\<And>t. t \<in> set ts \<Longrightarrow> nul_free t) \<Longrightarrow> nul_free (concat ts)"
  by (auto simp: nul_free_def)

lemma c_string_prefix:
  assumes "nul_free s" and "take (Suc (length s)) m = s @ [NUL]"
  shows "c_string m = Some s"
proof -
  have "m = (s @ [NUL]) @ drop (Suc (length s)) m"
    using append_take_drop_id[of "Suc (length s)" m] assms(2) by simp
  then have "m = s @ NUL # drop (Suc (length s)) m" by simp
  then show ?thesis using c_string_append_NUL[OF assms(1)] by metis
qed

section \<open>Little-endian encodings\<close>

fun le_nat :: "nat \<Rightarrow> nat \<Rightarrow> byte list" where
  "le_nat 0 x = []"
| "le_nat (Suc n) x = word_of_nat (x mod 256) # le_nat n (x div 256)"

fun nat_of_le :: "byte list \<Rightarrow> nat" where
  "nat_of_le [] = 0"
| "nat_of_le (b # bs) = unat b + 256 * nat_of_le bs"

definition be_nat :: "nat \<Rightarrow> nat \<Rightarrow> byte list" where
  "be_nat n x = rev (le_nat n x)"

lemma length_le_nat [simp, wire_simps]: "length (le_nat n x) = n"
  by (induction n arbitrary: x) auto

lemma le_nat_eq_Nil [simp]: "le_nat n x = [] \<longleftrightarrow> n = 0"
  by (cases n) auto

lemma length_be_nat [simp, wire_simps]: "length (be_nat n x) = n"
  by (simp add: be_nat_def)

lemma nat_of_le_le_nat: "nat_of_le (le_nat n x) = x mod 256 ^ n"
proof (induction n arbitrary: x)
  case 0
  show ?case by simp
next
  case (Suc n)
  have "unat (word_of_nat (x mod 256) :: byte) = x mod 256"
    by (simp add: unat_of_nat)
  moreover have "x mod (256 * 256 ^ n) = 256 * (x div 256 mod 256 ^ n) + x mod 256"
    by (rule mod_mult2_eq)
  ultimately show ?case by (simp add: Suc)
qed

lemma nat_of_le_id: "x < 256 ^ n \<Longrightarrow> nat_of_le (le_nat n x) = x"
  by (simp add: nat_of_le_le_nat)

lemma nat_of_le_less: "nat_of_le bs < 256 ^ length bs"
proof (induction bs)
  case (Cons b bs)
  have "unat b < 256"
    by (rule order.strict_trans2[OF unsigned_less]) simp
  with Cons show ?case by simp
qed simp

lemma nat_of_le_append: "nat_of_le (xs @ ys) = nat_of_le xs + 256 ^ length xs * nat_of_le ys"
  by (induction xs) (simp_all add: algebra_simps)

text \<open>Two's complement of a signed value of \<open>n\<close> bytes, and the bytes of a text.\<close>

definition le_int :: "nat \<Rightarrow> int \<Rightarrow> byte list" where
  "le_int n x = le_nat n (nat (x mod 2 ^ (8 * n)))"

lemma length_le_int [simp, wire_simps]: "length (le_int n x) = n"
  by (simp add: le_int_def)

definition text_bytes :: "string \<Rightarrow> byte list" where
  "text_bytes s = map (\<lambda>c. word_of_nat (of_char c)) s"

definition bytes_text :: "byte list \<Rightarrow> string" where
  "bytes_text bs = map (\<lambda>b. char_of (unat b)) bs"

lemma length_text_bytes [simp, wire_simps]: "length (text_bytes s) = length s"
  by (simp add: text_bytes_def)

lemma text_bytes_append: "text_bytes (s @ t) = text_bytes s @ text_bytes t"
  by (simp add: text_bytes_def)

lemma bytes_text_text_bytes [simp]: "bytes_text (text_bytes s) = s"
proof -
  have "char_of (unat (word_of_nat (of_char c) :: byte)) = c" for c
  proof -
    have "(of_char c :: nat) < 256"
      by (rule nat_of_char_less_256)
    then show ?thesis by (simp add: unat_of_nat)
  qed
  then show ?thesis by (simp add: bytes_text_def text_bytes_def comp_def map_idI)
qed

section \<open>C integer conversions\<close>

text \<open>
  \<open>to_signed w x\<close> is the value a \<open>w\<close>-bit two's complement integer has after \<open>x\<close> is converted
  to it, \<open>to_unsigned w x\<close> the same for an unsigned one.
\<close>

definition to_unsigned :: "nat \<Rightarrow> int \<Rightarrow> int" where
  "to_unsigned w x = x mod 2 ^ w"

definition to_signed :: "nat \<Rightarrow> int \<Rightarrow> int" where
  "to_signed w x = (let u = x mod 2 ^ w in if u < 2 ^ (w - 1) then u else u - 2 ^ w)"

lemma to_unsigned_id: "0 \<le> x \<Longrightarrow> x < 2 ^ w \<Longrightarrow> to_unsigned w x = x"
  by (simp add: to_unsigned_def)

lemma two_pow_pred: "0 < w \<Longrightarrow> (2::int) ^ w = 2 * 2 ^ (w - 1)"
  by (cases w) auto

lemma to_signed_id:
  assumes "0 < w" and "- (2 ^ (w - 1)) \<le> x" and "x < 2 ^ (w - 1)"
  shows "to_signed w x = x"
proof (cases "0 \<le> x")
  case True
  then have "x mod 2 ^ w = x"
    using assms two_pow_pred[OF assms(1)] by (intro mod_pos_pos_trivial) linarith+
  then show ?thesis using assms by (simp only: to_signed_def Let_def if_True)
next
  case False
  then have "(x + 2 ^ w) mod 2 ^ w = x + 2 ^ w"
    using assms two_pow_pred[OF assms(1)] by (intro mod_pos_pos_trivial) linarith+
  then have m: "x mod 2 ^ w = x + 2 ^ w" by simp
  have "\<not> x + 2 ^ w < 2 ^ (w - 1)"
    using assms two_pow_pred[OF assms(1)] by linarith
  then show ?thesis by (simp only: to_signed_def Let_def m if_False)
qed

lemma to_signed_mod: "v \<le> w \<Longrightarrow> to_signed v (x mod 2 ^ w) = to_signed v x"
  by (simp add: to_signed_def mod_mod_cancel le_imp_power_dvd)

lemma to_signed_range:
  assumes "0 < w"
  shows "- (2 ^ (w - 1)) \<le> to_signed w x \<and> to_signed w x < 2 ^ (w - 1)"
proof -
  have pos: "0 \<le> x mod 2 ^ w" and less: "x mod 2 ^ w < 2 ^ w" by simp_all
  have "(0::int) \<le> 2 ^ (w - 1)" by simp
  with pos less two_pow_pred[OF assms] show ?thesis
    unfolding to_signed_def Let_def
    by (intro conjI) (simp only: split: if_split; linarith)+
qed

end
