(* ===== verification/Byte_Array.thy ===== *)
theory Byte_Array
  imports Prelude
begin

text \<open>
  \<open>ByteArray\<close> of \<open>include/ivi-logging-utils.h\<close>: a growable array that lives in a 512 byte buffer
  inside the object and moves to a heap vector the first time it outgrows it. The memory behind
  \<open>getData()\<close> is modelled whole, including what lies beyond \<open>size()\<close>: the text back end reads a C
  string from it whose NUL is just past the end. The interface its clients rely on is the locale
  \<open>char_buffer\<close>, interpreted at the end on the model of the class.
\<close>

section \<open>The interface\<close>

locale char_buffer =
  fixes bsize :: "'b \<Rightarrow> nat"
    and bmem :: "'b \<Rightarrow> mem"
    and bresize :: "nat \<Rightarrow> 'b \<Rightarrow> 'b"
    and bput :: "nat \<Rightarrow> mem \<Rightarrow> 'b \<Rightarrow> 'b"
    and binv :: "'b \<Rightarrow> bool"
  assumes inv_resize: "binv b \<Longrightarrow> binv (bresize n b)"
    and size_resize: "binv b \<Longrightarrow> bsize (bresize n b) = n"
    and keep_resize: "binv b \<Longrightarrow> k \<le> bsize b \<Longrightarrow> k \<le> n \<Longrightarrow>
          take k (bmem (bresize n b)) = take k (bmem b)"
    and mem_shrink: "binv b \<Longrightarrow> n \<le> bsize b \<Longrightarrow> bmem (bresize n b) = bmem b"
    and size_mem: "binv b \<Longrightarrow> bsize b \<le> length (bmem b)"
    and inv_put: "binv b \<Longrightarrow> i + length ys \<le> bsize b \<Longrightarrow> binv (bput i ys b)"
    and size_put: "binv b \<Longrightarrow> i + length ys \<le> bsize b \<Longrightarrow> bsize (bput i ys b) = bsize b"
    and mem_put: "binv b \<Longrightarrow> i + length ys \<le> bsize b \<Longrightarrow>
          bmem (bput i ys b) = blit (bmem b) i ys"
begin

lemma extend_inv:
  assumes "binv b"
  shows "binv (bput (bsize b) ys (bresize (bsize b + length ys) b))"
  using assms by (intro inv_put inv_resize) (simp_all add: size_resize)

lemma extend_size:
  assumes "binv b"
  shows "bsize (bput (bsize b) ys (bresize (bsize b + length ys) b)) = bsize b + length ys"
  using assms by (simp add: size_put inv_resize size_resize)

lemma extend_mem:
  assumes "binv b"
  shows "take (bsize b + length ys) (bmem (bput (bsize b) ys (bresize (bsize b + length ys) b)))
       = take (bsize b) (bmem b) @ ys"
proof -
  let ?r = "bresize (bsize b + length ys) b"
  have inv: "binv ?r" and sz: "bsize ?r = bsize b + length ys"
    using assms by (simp_all add: inv_resize size_resize)
  then have mem: "bmem (bput (bsize b) ys ?r) = blit (bmem ?r) (bsize b) ys"
    by (simp add: mem_put)
  have "bsize b \<le> length (bmem ?r)" using size_mem[OF inv] sz by simp
  then show ?thesis
    using keep_resize[OF assms, of "bsize b" "bsize b + length ys"]
    by (simp add: mem take_blit_whole)
qed

text \<open>
  Extending by a text and its NUL and then dropping the NUL again appends the text and leaves
  the NUL right behind the new end.
\<close>

lemma extend_terminated:
  fixes t :: mem
  assumes "binv b"
  defines "e \<equiv> bput (bsize b) (t @ [NUL]) (bresize (bsize b + (length t + 1)) b)"
  defines "r \<equiv> bresize (bsize e - 1) e"
  shows "binv r" and "bsize r = bsize b + length t"
    and "take (bsize r) (bmem r) = take (bsize b) (bmem b) @ t"
    and "take (Suc (bsize r)) (bmem r) = take (bsize b) (bmem b) @ t @ [NUL]"
proof -
  have e: "binv e" "bsize e = bsize b + length t + 1"
    "take (bsize b + length t + 1) (bmem e) = take (bsize b) (bmem b) @ t @ [NUL]"
    using extend_inv[OF assms(1), of "t @ [NUL]"] extend_size[OF assms(1), of "t @ [NUL]"]
      extend_mem[OF assms(1), of "t @ [NUL]"] by (simp_all add: e_def)
  show inv: "binv r" using e by (simp add: r_def inv_resize)
  show sz: "bsize r = bsize b + length t" using e by (simp add: r_def size_resize)
  have mem: "bmem r = bmem e" using e by (simp add: r_def mem_shrink)
  then show all: "take (Suc (bsize r)) (bmem r) = take (bsize b) (bmem b) @ t @ [NUL]"
    using e sz by simp
  have "take (bsize r) (bmem r) = take (bsize r) (take (Suc (bsize r)) (bmem r))"
    by (simp add: min_def)
  also have "\<dots> = take (bsize r) ((take (bsize b) (bmem b) @ t) @ [NUL])"
    using all by simp
  also have "\<dots> = take (bsize b) (bmem b) @ t"
    using sz size_mem[OF assms(1)] by (subst take_append) simp
  finally show "take (bsize r) (bmem r) = take (bsize b) (bmem b) @ t" .
qed

end

section \<open>The class\<close>

text \<open>
  \<open>v_mem\<close> is the storage of the vector and \<open>v_size\<close> its number of elements: shrinking keeps the
  storage, growing fills the new elements with zeros.
\<close>

record vec =
  v_mem :: mem
  v_size :: nat

record byte_array =
  m_dynamicData :: "vec option"
  m_staticData :: mem
  m_length :: nat

definition STATIC_SIZE :: nat where "STATIC_SIZE = 512"

definition SIZE_MAX :: nat where "SIZE_MAX = 2 ^ 64 - 1"

definition ba_new :: "mem \<Rightarrow> byte_array" where
  "ba_new junk = \<lparr>m_dynamicData = None, m_staticData = junk, m_length = 0\<rparr>"

definition usesStaticBuffer :: "byte_array \<Rightarrow> bool" where
  "usesStaticBuffer b = (m_dynamicData b = None)"

definition ba_size :: "byte_array \<Rightarrow> nat" where
  "ba_size b = (case m_dynamicData b of None \<Rightarrow> m_length b | Some v \<Rightarrow> v_size v)"

definition getData :: "byte_array \<Rightarrow> mem" where
  "getData b = (case m_dynamicData b of None \<Rightarrow> m_staticData b | Some v \<Rightarrow> v_mem v)"

definition ba_put :: "nat \<Rightarrow> mem \<Rightarrow> byte_array \<Rightarrow> byte_array" where
  "ba_put i ys b = (case m_dynamicData b of
     None \<Rightarrow> b\<lparr>m_staticData := blit (m_staticData b) i ys\<rparr>
   | Some v \<Rightarrow> b\<lparr>m_dynamicData := Some (v\<lparr>v_mem := blit (v_mem v) i ys\<rparr>)\<rparr>)"

definition vec_resize :: "nat \<Rightarrow> vec \<Rightarrow> vec" where
  "vec_resize n v = (if n \<le> v_size v then v\<lparr>v_size := n\<rparr>
     else \<lparr>v_mem = take (v_size v) (v_mem v) @ replicate (n - v_size v) NUL @ drop n (v_mem v),
           v_size = n\<rparr>)"

definition ba_resize :: "nat \<Rightarrow> byte_array \<Rightarrow> byte_array" where
  "ba_resize n b = (case m_dynamicData b of
     Some v \<Rightarrow> b\<lparr>m_dynamicData := Some (vec_resize n v)\<rparr>
   | None \<Rightarrow>
       if n \<le> STATIC_SIZE then b\<lparr>m_length := n\<rparr>
       else let v = vec_resize n \<lparr>v_mem = [], v_size = 0\<rparr>;
                v' = v\<lparr>v_mem := blit (v_mem v) 0 (take (m_length b) (m_staticData b))\<rparr>
            in b\<lparr>m_dynamicData := Some v', m_length := SIZE_MAX\<rparr>)"

definition ba_append :: "mem \<Rightarrow> byte_array \<Rightarrow> byte_array" where
  "ba_append raw b = (let i = ba_size b in ba_put i raw (ba_resize (ba_size b + length raw) b))"

definition ba_append_char :: "char \<Rightarrow> byte_array \<Rightarrow> byte_array" where
  "ba_append_char c b = (let i = ba_size b in ba_put i [c] (ba_resize (i + 1) b))"

definition ba_content :: "byte_array \<Rightarrow> mem" where
  "ba_content b = take (ba_size b) (getData b)"

definition ba_copy :: "mem \<Rightarrow> byte_array \<Rightarrow> byte_array" where
  "ba_copy junk b = ba_append (take (ba_size b) (getData b)) (ba_new junk)"

definition ba_assign :: "byte_array \<Rightarrow> byte_array \<Rightarrow> byte_array" where
  "ba_assign b right =
     ba_put 0 (take (ba_size right) (getData right)) (ba_resize (ba_size right) b)"

text \<open>\<open>operator[]\<close> used as an assignment target and \<open>writeAt\<close>: \<open>None\<close> when the assertion fails.\<close>

definition ba_index_set :: "nat \<Rightarrow> char \<Rightarrow> byte_array \<Rightarrow> byte_array option" where
  "ba_index_set i c b = (if i < m_length b then Some (ba_put i [c] b) else None)"

definition ba_writeAt :: "nat \<Rightarrow> mem \<Rightarrow> byte_array \<Rightarrow> byte_array option" where
  "ba_writeAt p raw b = (if m_length b \<ge> p + length raw then Some (ba_put p raw b) else None)"

definition ba_capacity :: "byte_array \<Rightarrow> nat" where
  "ba_capacity b = (case m_dynamicData b of None \<Rightarrow> STATIC_SIZE | Some v \<Rightarrow> v_size v)"

section \<open>Invariant\<close>

definition ba_inv :: "byte_array \<Rightarrow> bool" where
  "ba_inv b \<longleftrightarrow> length (m_staticData b) = STATIC_SIZE \<and>
     (case m_dynamicData b of None \<Rightarrow> m_length b \<le> STATIC_SIZE
      | Some v \<Rightarrow> v_size v \<le> length (v_mem v) \<and> m_length b = SIZE_MAX)"

lemmas ba_defs = ba_size_def getData_def ba_put_def ba_resize_def vec_resize_def ba_inv_def

lemma ba_new_inv [buf_simps]: "length junk = STATIC_SIZE \<Longrightarrow> ba_inv (ba_new junk)"
  by (simp add: ba_inv_def ba_new_def)

lemma ba_new_size [buf_simps]: "ba_size (ba_new junk) = 0"
  by (simp add: ba_size_def ba_new_def)

lemma ba_new_content [buf_simps]: "ba_content (ba_new junk) = []"
  by (simp add: ba_content_def ba_new_size)

lemma ba_resize_inv: "ba_inv b \<Longrightarrow> ba_inv (ba_resize n b)"
  by (auto simp: ba_defs Let_def split: option.splits)

lemma ba_resize_size: "ba_inv b \<Longrightarrow> ba_size (ba_resize n b) = n"
  by (auto simp: ba_defs Let_def split: option.splits)

lemma ba_resize_keep:
  assumes "ba_inv b" and "k \<le> ba_size b" and "k \<le> n"
  shows "take k (getData (ba_resize n b)) = take k (getData b)"
proof (cases "m_dynamicData b")
  case None
  with assms show ?thesis by (auto simp: ba_defs Let_def blit_def min_def)
next
  case (Some v)
  with assms show ?thesis by (auto simp: ba_defs min_def)
qed

lemma ba_resize_shrink: "ba_inv b \<Longrightarrow> n \<le> ba_size b \<Longrightarrow> getData (ba_resize n b) = getData b"
  by (auto simp: ba_defs split: option.splits)

lemma ba_size_mem: "ba_inv b \<Longrightarrow> ba_size b \<le> length (getData b)"
  by (auto simp: ba_defs split: option.splits)

lemma ba_put_laws:
  assumes "ba_inv b" and "i + length ys \<le> ba_size b"
  shows "ba_inv (ba_put i ys b)" and "ba_size (ba_put i ys b) = ba_size b"
    and "getData (ba_put i ys b) = blit (getData b) i ys"
  using assms by (auto simp: ba_defs split: option.splits)

interpretation ba: char_buffer ba_size getData ba_resize ba_put ba_inv
  by unfold_locales
    (simp_all add: ba_resize_inv ba_resize_size ba_resize_keep ba_resize_shrink ba_size_mem
      ba_put_laws)

section \<open>Functional behaviour of the operations\<close>

lemma ba_append_inv [buf_simps]: "ba_inv b \<Longrightarrow> ba_inv (ba_append raw b)"
  unfolding ba_append_def Let_def by (rule ba.extend_inv)

lemma ba_append_size [buf_simps]: "ba_inv b \<Longrightarrow> ba_size (ba_append raw b) = ba_size b + length raw"
  unfolding ba_append_def Let_def by (rule ba.extend_size)

lemma ba_append_content [buf_simps]:
  "ba_inv b \<Longrightarrow> ba_content (ba_append raw b) = ba_content b @ raw"
  using ba.extend_mem[of b raw] ba.extend_size[of b raw]
  by (simp add: ba_content_def ba_append_def Let_def)

lemma ba_append_char_eq [buf_simps]: "ba_append_char c b = ba_append [c] b"
  by (simp add: ba_append_char_def ba_append_def Let_def)

lemma length_ba_content [buf_simps]: "ba_inv b \<Longrightarrow> length (ba_content b) = ba_size b"
  using ba_size_mem by (simp add: ba_content_def)

lemma ba_assign_laws:
  assumes "ba_inv b" and "ba_inv right"
  shows "ba_inv (ba_assign b right)" and "ba_content (ba_assign b right) = ba_content right"
proof -
  let ?r = "ba_resize (ba_size right) b"
  have len: "length (ba_content right) = ba_size right"
    using assms(2) by (simp add: buf_simps)
  have r: "ba_inv ?r" "ba_size ?r = ba_size right"
    using assms(1) by (simp_all add: ba_resize_inv ba_resize_size)
  then have put: "ba_inv (ba_put 0 (ba_content right) ?r)"
    "ba_size (ba_put 0 (ba_content right) ?r) = ba_size right"
    "getData (ba_put 0 (ba_content right) ?r) = blit (getData ?r) 0 (ba_content right)"
    using len by (simp_all add: ba_put_laws)
  then show "ba_inv (ba_assign b right)"
    by (simp add: ba_assign_def ba_content_def)
  from put show "ba_content (ba_assign b right) = ba_content right"
    using len by (simp add: ba_assign_def blit_def ba_content_def[of right, symmetric])
      (simp add: ba_content_def[of "ba_put _ _ _"])
qed

section \<open>Properties\<close>

fun ba_appends :: "mem list \<Rightarrow> byte_array \<Rightarrow> byte_array" where
  "ba_appends [] b = b"
| "ba_appends (r # rs) b = ba_appends rs (ba_append r b)"

lemma ba_appends_laws:
  "ba_inv b \<Longrightarrow> ba_inv (ba_appends rs b) \<and> ba_content (ba_appends rs b) = ba_content b @ concat rs"
  by (induction rs arbitrary: b) (simp_all add: buf_simps)

lemma static_iff: "ba_inv b \<Longrightarrow> usesStaticBuffer b \<Longrightarrow> ba_size b \<le> STATIC_SIZE"
  by (simp add: ba_inv_def usesStaticBuffer_def ba_size_def split: option.splits)

text \<open>
  A \<open>ByteArray\<close> is a byte list: whatever is appended, in whatever pieces, its content is what
  was appended, also across the move from the 512 byte buffer inside the object to the heap; a
  copy and an assignment have the content of their source, whichever of the two storages the
  target used before.
\<close>

lemma byte_array_is_a_list:
  assumes "length junk = STATIC_SIZE" and "length junk' = STATIC_SIZE" and "ba_inv b"
  shows "ba_content (ba_appends rs (ba_new junk)) = concat rs \<and>
    ba_content (ba_copy junk' (ba_appends rs (ba_new junk))) = concat rs \<and>
    ba_content (ba_assign b (ba_appends rs (ba_new junk))) = concat rs \<and>
    (usesStaticBuffer (ba_appends rs (ba_new junk)) \<longrightarrow> length (concat rs) \<le> 512)"
proof -
  let ?a = "ba_appends rs (ba_new junk)"
  have a: "ba_inv ?a" "ba_content ?a = concat rs"
    using ba_appends_laws[OF ba_new_inv[OF assms(1)], of rs] by (simp_all add: buf_simps)
  have "ba_content (ba_copy junk' ?a) = concat rs"
    using a assms(2) by (simp add: ba_copy_def buf_simps flip: ba_content_def)
  moreover have "usesStaticBuffer ?a \<longrightarrow> length (concat rs) \<le> 512"
    using static_iff[OF a(1)] length_ba_content[OF a(1)] a(2) by (simp add: STATIC_SIZE_def)
  ultimately show ?thesis using a ba_assign_laws(2)[OF assms(3) a(1)] by simp
qed

lemma byte_array_is_a_list_witness:
  "ba_content (ba_assign (ba_new (replicate 512 NUL))
      (ba_appends [replicate 500 CHR ''a'', replicate 100 CHR ''b''] (ba_new (replicate 512 NUL)))) =
    replicate 500 CHR ''a'' @ replicate 100 CHR ''b''"
proof -
  have "length (replicate 512 NUL) = STATIC_SIZE" by (simp only: length_replicate STATIC_SIZE_def)
  from byte_array_is_a_list[OF this this ba_new_inv[OF this],
      of "[replicate 500 CHR ''a'', replicate 100 CHR ''b'']"]
  show ?thesis by simp
qed

end
