(* ===== verification/Printf.thy ===== *)
theory Printf
  imports Prelude
begin

text \<open>
  The part of the C library's formatted output the program uses: \<open>snprintf\<close>/\<open>fprintf\<close> with the
  conversions \<open>%d %i %u %X %s %f %%\<close>, the flag \<open>0\<close>, a field width, a precision (also \<open>.*\<close>) and
  the length modifiers \<open>l\<close>, \<open>ll\<close> and \<open>z\<close>. A format outside this subset, or one that asks for an
  argument that is missing or of the wrong kind, has the result \<open>None\<close>. This is library
  behaviour: the theories of the components map to the calls in the source.
\<close>

section \<open>Digits\<close>

definition hexcode :: string where
  "hexcode = ''0123456789ABCDEF''"

definition digit_char :: "nat \<Rightarrow> char" where
  "digit_char n = hexcode ! (n mod 16)"

function radix :: "nat \<Rightarrow> nat \<Rightarrow> string" where
  "radix b n = (if b < 2 \<or> n < b then [digit_char n]
     else radix b (n div b) @ [digit_char (n mod b)])"
  by pat_completeness auto
termination
  by (relation "measure snd") (auto intro: div_less_dividend)

declare radix.simps [simp del]

lemma radix_small: "n < b \<Longrightarrow> radix b n = [digit_char n]"
  by (simp add: radix.simps[of b n])

lemma radix_step: "2 \<le> b \<Longrightarrow> b \<le> n \<Longrightarrow> radix b n = radix b (n div b) @ [digit_char (n mod b)]"
  by (simp add: radix.simps[of b n])

definition char_digit :: "char \<Rightarrow> nat" where
  "char_digit c = (let k = of_char c in if k < 58 then k - 48 else k - 55)"

fun radix_value :: "nat \<Rightarrow> nat \<Rightarrow> string \<Rightarrow> nat" where
  "radix_value b acc [] = acc"
| "radix_value b acc (c # cs) = radix_value b (acc * b + char_digit c) cs"

lemma digit_char_cases: "P (digit_char n)" if "\<And>k. k < 16 \<Longrightarrow> P (hexcode ! k)"
  using that[of "n mod 16"] by (simp add: digit_char_def)

lemma digit_char_not_NUL [simp]: "digit_char n \<noteq> NUL"
proof -
  have "digit_char n \<in> set hexcode"
    unfolding digit_char_def by (rule nth_mem) (simp add: hexcode_def)
  then show ?thesis by (auto simp: hexcode_def)
qed

lemma char_digit_digit_char: "n < 16 \<Longrightarrow> char_digit (digit_char n) = n"
proof -
  assume "n < 16"
  then have "n \<in> {0, 1, 2, 3, 4, 5, 6, 7, 8, 9, 10, 11, 12, 13, 14, 15}" by (simp, presburger)
  then show ?thesis
    by (elim insertE emptyE) (simp_all add: digit_char_def hexcode_def char_digit_def)
qed

lemma radix_value_append:
  "radix_value b acc (xs @ ys) = radix_value b (radix_value b acc xs) ys"
  by (induction b acc xs rule: radix_value.induct) auto

lemma radix_roundtrip: "2 \<le> b \<Longrightarrow> b \<le> 16 \<Longrightarrow> radix_value b 0 (radix b n) = n"
proof (induction b n rule: radix.induct)
  case (1 b n)
  show ?case
  proof (cases "n < b")
    case True
    with 1 show ?thesis by (simp add: radix_small char_digit_digit_char)
  next
    case False
    with 1 have "radix_value b 0 (radix b (n div b)) = n div b" by simp
    moreover have "n mod b < 16" using 1 by (intro order.strict_trans2[OF mod_less_divisor]) auto
    ultimately show ?thesis
      using 1 False by (simp add: radix_step radix_value_append char_digit_digit_char)
  qed
qed

lemma nul_free_radix [simp]: "nul_free (radix b n)"
  by (induction b n rule: radix.induct) (subst radix.simps, simp)

lemma radix_nonempty [simp]: "radix b n \<noteq> []"
  by (subst radix.simps) simp

lemma radix_inject: "2 \<le> b \<Longrightarrow> b \<le> 16 \<Longrightarrow> radix b m = radix b n \<longleftrightarrow> m = n"
  using radix_roundtrip by metis

lemma length_radix_le: "2 \<le> b \<Longrightarrow> length (radix b n) \<le> Suc k \<longleftrightarrow> n < b ^ Suc k"
proof (induction k arbitrary: n)
  case 0
  then show ?case
    by (cases "n < b") (simp_all add: radix_small radix_step)
next
  case (Suc k)
  show ?case
  proof (cases "n < b")
    case True
    moreover have "b \<le> b ^ Suc (Suc k)" using Suc.prems by (intro self_le_power) auto
    ultimately have "n < b ^ Suc (Suc k)" by linarith
    with True show ?thesis by (simp add: radix_small del: power_Suc)
  next
    case False
    with Suc.prems have "length (radix b n) = Suc (length (radix b (n div b)))"
      by (simp add: radix_step)
    then have "length (radix b n) \<le> Suc (Suc k) \<longleftrightarrow> n div b < b ^ Suc k"
      using Suc by simp
    also have "\<dots> \<longleftrightarrow> n < b ^ Suc (Suc k)"
      using Suc.prems by (subst div_less_iff_less_mult) (auto simp: mult.commute)
    finally show ?thesis .
  qed
qed

section \<open>Floating point values\<close>

text \<open>
  \<open>FFin s m e\<close> is \<open>(-1)^s * m * 2^e\<close>. The two decoders read the IEEE 754 single and double
  format; a \<open>float\<close> passed to \<open>printf\<close> is promoted to \<open>double\<close>, which keeps its value.
\<close>

datatype fp = FFin bool nat int | FInf bool | FNan bool

definition fp_decode :: "nat \<Rightarrow> nat \<Rightarrow> nat \<Rightarrow> fp" where
  "fp_decode ebits mbits w =
     (let m = w mod 2 ^ mbits; e = w div 2 ^ mbits mod 2 ^ ebits;
          s = (w div 2 ^ (mbits + ebits) mod 2 = 1);
          bias = int (2 ^ (ebits - 1)) - 1 + int mbits
      in if e = 2 ^ ebits - 1 then (if m = 0 then FInf s else FNan s)
         else if e = 0 then FFin s m (1 - bias)
         else FFin s (2 ^ mbits + m) (int e - bias))"

definition fp_of_f32 :: "32 word \<Rightarrow> fp" where
  "fp_of_f32 w = fp_decode 8 23 (unat w)"

definition fp_of_f64 :: "64 word \<Rightarrow> fp" where
  "fp_of_f64 w = fp_decode 11 52 (unat w)"

definition round_div :: "nat \<Rightarrow> nat \<Rightarrow> nat" where
  "round_div a b = (let q = a div b; r = a mod b in
     if 2 * r < b \<or> (2 * r = b \<and> even q) then q else q + 1)"

definition pad_left :: "nat \<Rightarrow> char \<Rightarrow> string \<Rightarrow> string" where
  "pad_left w c s = replicate (w - length s) c @ s"

definition fixed_text :: "nat \<Rightarrow> nat \<Rightarrow> int \<Rightarrow> string" where
  "fixed_text p m e =
     (let n = (if 0 \<le> e then m * 2 ^ nat e * 10 ^ p
               else round_div (m * 10 ^ p) (2 ^ nat (- e)))
      in radix 10 (n div 10 ^ p) @
         (if p = 0 then [] else CHR ''.'' # pad_left p (CHR ''0'') (radix 10 (n mod 10 ^ p))))"

fun fp_text :: "nat \<Rightarrow> fp \<Rightarrow> string" where
  "fp_text p (FFin s m e) = (if s then ''-'' else []) @ fixed_text p m e"
| "fp_text p (FInf s) = (if s then ''-'' else []) @ ''inf''"
| "fp_text p (FNan s) = (if s then ''-'' else []) @ ''nan''"

section \<open>Conversion specifications\<close>

text \<open>
  An argument is an integer (its value, which the conversion reinterprets at its own width and
  signedness), the memory a \<open>char const*\<close> points to, or a double.
\<close>

datatype c_arg = AInt int | AStr mem | ADbl fp

record fspec =
  fs_zero :: bool
  fs_width :: nat
  fs_prec :: "nat option"
  fs_bits :: nat

definition is_digit :: "char \<Rightarrow> bool" where
  "is_digit c \<longleftrightarrow> (48::nat) \<le> of_char c \<and> of_char c \<le> (57::nat)"

fun scan_num :: "string \<Rightarrow> nat \<Rightarrow> nat \<times> string" where
  "scan_num [] n = (n, [])"
| "scan_num (c # cs) n = (if is_digit c then scan_num cs (10 * n + char_digit c) else (n, c # cs))"

fun scan_prec :: "string \<Rightarrow> c_arg list \<Rightarrow> (nat option \<times> string \<times> c_arg list) option" where
  "scan_prec [] args = Some (None, [], args)"
| "scan_prec (c # cs) args =
     (if c \<noteq> CHR ''.'' then Some (None, c # cs, args)
      else if cs \<noteq> [] \<and> hd cs = CHR ''*'' then
        (case args of
           AInt p # rest \<Rightarrow> Some (if p < 0 then None else Some (nat p), tl cs, rest)
         | _ \<Rightarrow> None)
      else let (n, r) = scan_num cs 0 in Some (Some n, r, args))"

fun scan_length :: "string \<Rightarrow> nat \<times> string" where
  "scan_length [] = (32, [])"
| "scan_length (c # cs) =
     (if c = CHR ''z'' then (64, cs)
      else if c \<noteq> CHR ''l'' then (32, c # cs)
      else if cs \<noteq> [] \<and> hd cs = CHR ''l'' then (64, tl cs)
      else (64, cs))"

fun scan_zero :: "string \<Rightarrow> bool \<times> string" where
  "scan_zero [] = (False, [])"
| "scan_zero (c # cs) = (if c = CHR ''0'' then (True, cs) else (False, c # cs))"

definition parse_spec ::
    "string \<Rightarrow> c_arg list \<Rightarrow> (fspec \<times> char \<times> string \<times> c_arg list) option" where
  "parse_spec cs args =
     (let (z, cs1) = scan_zero cs; (w, cs2) = scan_num cs1 0
      in case scan_prec cs2 args of None \<Rightarrow> None
         | Some (p, cs3, args') \<Rightarrow>
             (let (b, cs4) = scan_length cs3
              in case cs4 of [] \<Rightarrow> None
                 | c # cs5 \<Rightarrow>
                     Some (\<lparr>fs_zero = z, fs_width = w, fs_prec = p, fs_bits = b\<rparr>, c, cs5, args')))"

definition int_text :: "fspec \<Rightarrow> bool \<Rightarrow> string \<Rightarrow> string" where
  "int_text sp neg ds =
     (let sign = (if neg then ''-'' else []);
          body = (case fs_prec sp of None \<Rightarrow> ds
                  | Some p \<Rightarrow> if p = 0 \<and> ds = ''0'' then [] else pad_left p (CHR ''0'') ds)
      in if fs_zero sp \<and> fs_prec sp = None
         then sign @ pad_left (fs_width sp - length sign) (CHR ''0'') body
         else pad_left (fs_width sp) (CHR '' '') (sign @ body))"

definition conv_text :: "fspec \<Rightarrow> char \<Rightarrow> c_arg \<Rightarrow> string option" where
  "conv_text sp c a = (case a of
     AInt v \<Rightarrow>
       (if c = CHR ''d'' \<or> c = CHR ''i'' then
          (let x = to_signed (fs_bits sp) v in Some (int_text sp (x < 0) (radix 10 (nat \<bar>x\<bar>))))
        else if c = CHR ''u'' then
          Some (int_text sp False (radix 10 (nat (to_unsigned (fs_bits sp) v))))
        else if c = CHR ''X'' then
          Some (int_text sp False (radix 16 (nat (to_unsigned (fs_bits sp) v))))
        else None)
   | AStr m \<Rightarrow>
       (if c = CHR ''s'' then
          Some (pad_left (fs_width sp) (CHR '' '')
            (case fs_prec sp of None \<Rightarrow> cstr m | Some p \<Rightarrow> take p (cstr m)))
        else None)
   | ADbl x \<Rightarrow>
       (if c = CHR ''f'' then
          Some (pad_left (fs_width sp) (CHR '' '')
            (fp_text (case fs_prec sp of None \<Rightarrow> 6 | Some p \<Rightarrow> p) x))
        else None))"

lemma scan_num_length: "length (snd (scan_num cs n)) \<le> length cs"
  by (induction cs n rule: scan_num.induct) auto

lemma scan_zero_length: "length (snd (scan_zero cs)) \<le> length cs"
  by (cases cs) auto

lemma scan_length_length: "length (snd (scan_length cs)) \<le> length cs"
  by (cases cs) auto

lemma scan_prec_length:
  assumes "scan_prec cs args = Some (p, cs', args')"
  shows "length cs' \<le> length cs"
proof (cases cs)
  case (Cons c r)
  with assms scan_num_length[of r 0] show ?thesis
    by (auto split: if_splits list.splits c_arg.splits prod.splits)
qed (use assms in auto)

lemma parse_spec_length:
  assumes "parse_spec cs args = Some (sp, c, cs', args')"
  shows "length cs' < length cs"
proof -
  obtain z cs1 where 1: "scan_zero cs = (z, cs1)" by force
  obtain w cs2 where 2: "scan_num cs1 0 = (w, cs2)" by force
  from assms 1 2 obtain p cs3 ar where 3: "scan_prec cs2 args = Some (p, cs3, ar)"
    by (auto simp: parse_spec_def split: option.splits)
  obtain b cs4 where 4: "scan_length cs3 = (b, cs4)" by force
  from assms 1 2 3 4 have "length cs4 = Suc (length cs')"
    by (auto simp: parse_spec_def split: list.splits)
  with scan_zero_length[of cs] scan_num_length[of cs1 0] scan_prec_length[OF 3]
    scan_length_length[of cs3] 1 2 4 show ?thesis by simp
qed

section \<open>The formatter\<close>

function c_format :: "string \<Rightarrow> c_arg list \<Rightarrow> string option" where
  "c_format [] args = Some []"
| "c_format (c # cs) args =
     (if c \<noteq> CHR ''%'' then map_option ((#) c) (c_format cs args)
      else case parse_spec cs args of None \<Rightarrow> None
        | Some (sp, k, cs', args') \<Rightarrow>
            (if k = CHR ''%'' then map_option ((#) (CHR ''%'')) (c_format cs' args')
             else case args' of [] \<Rightarrow> None
               | a # args'' \<Rightarrow>
                   (case conv_text sp k a of None \<Rightarrow> None
                    | Some t \<Rightarrow> map_option ((@) t) (c_format cs' args''))))"
  by pat_completeness auto
termination
  by (relation "measure (\<lambda>(cs, args). length cs)") (auto dest: parse_spec_length)

declare c_format.simps(2) [simp del]

lemma scan_num_set: "set (snd (scan_num cs n)) \<subseteq> set cs"
  by (induction cs n rule: scan_num.induct) auto

lemma scan_zero_set: "set (snd (scan_zero cs)) \<subseteq> set cs"
  by (cases cs) auto

lemma scan_length_set: "set (snd (scan_length cs)) \<subseteq> set cs"
proof (cases cs)
  case (Cons c r)
  then show ?thesis by (cases r) auto
qed simp

lemma scan_prec_set:
  assumes "scan_prec cs args = Some (p, cs', args')"
  shows "set cs' \<subseteq> set cs"
proof (cases cs)
  case (Cons c r)
  have "set (tl r) \<subseteq> set r" by (cases r) auto
  with Cons assms scan_num_set[of r 0] show ?thesis
    by (auto split: if_splits list.splits c_arg.splits prod.splits)
qed (use assms in auto)

lemma parse_spec_set:
  assumes "parse_spec cs args = Some (sp, c, cs', args')"
  shows "set cs' \<subseteq> set cs"
proof -
  obtain z cs1 where 1: "scan_zero cs = (z, cs1)" by force
  obtain w cs2 where 2: "scan_num cs1 0 = (w, cs2)" by force
  from assms 1 2 obtain p cs3 ar where 3: "scan_prec cs2 args = Some (p, cs3, ar)"
    by (auto simp: parse_spec_def split: option.splits)
  obtain b cs4 where 4: "scan_length cs3 = (b, cs4)" by force
  from assms 1 2 3 4 have "set cs' \<subseteq> set cs4"
    by (auto simp: parse_spec_def split: list.splits)
  with scan_zero_set[of cs] scan_num_set[of cs1 0] scan_prec_set[OF 3]
    scan_length_set[of cs3] 1 2 4 show ?thesis by auto
qed

lemma nul_free_pad_left [simp]: "c \<noteq> NUL \<Longrightarrow> nul_free (pad_left w c s) = nul_free s"
  by (simp add: pad_left_def)

lemma nul_free_fp_text [simp]: "nul_free (fp_text p x)"
  by (cases x) (auto simp: fixed_text_def Let_def)

lemma conv_text_nul_free: "conv_text sp c a = Some t \<Longrightarrow> nul_free t"
  by (auto simp: conv_text_def int_text_def Let_def nul_free_take split: c_arg.splits if_splits option.splits)

text \<open>Formatted text is a C string whenever the format is one.\<close>

lemma c_format_nul_free: "c_format f args = Some t \<Longrightarrow> nul_free f \<Longrightarrow> nul_free t"
proof (induction f args arbitrary: t rule: c_format.induct)
  case (2 c cs args)
  show ?case
  proof (cases "c = CHR ''%''")
    case False
    with 2 show ?thesis by (auto simp: c_format.simps)
  next
    case True
    with "2.prems" obtain sp k cs' args' where ps: "parse_spec cs args = Some (sp, k, cs', args')"
      by (auto simp: c_format.simps split: option.splits)
    with "2.prems" have free: "nul_free cs'"
      using parse_spec_set[OF ps] by (auto simp: nul_free_def)
    show ?thesis
      using "2.IH"(2,3)[OF _ ps] True ps "2.prems"(1) free
      by (auto simp: c_format.simps dest: conv_text_nul_free split: if_splits list.splits option.splits)
  qed
qed simp

text \<open>
  What \<open>snprintf(p, size, ...)\<close> stores: the text cut to \<open>size - 1\<close> characters and a NUL. It
  returns the length of the whole text, whatever \<open>size\<close> is.
\<close>

definition snprintf_mem :: "nat \<Rightarrow> string \<Rightarrow> mem" where
  "snprintf_mem sz t = (if sz = 0 then [] else take (sz - 1) t @ [NUL])"

lemma length_snprintf_mem: "length (snprintf_mem sz t) = min sz (length t + 1)"
  by (cases sz) (auto simp: snprintf_mem_def)

lemma snprintf_mem_fits: "length t < sz \<Longrightarrow> snprintf_mem sz t = t @ [NUL]"
  by (simp add: snprintf_mem_def)

lemma replicate_numeral_unfold: "replicate (numeral k) c = c # replicate (pred_numeral k) c"
  by (simp add: numeral_eq_Suc)

lemmas printf_eval = c_format.simps parse_spec_def conv_text_def is_digit_def char_digit_def
  int_text_def radix_small radix_step digit_char_def hexcode_def pad_left_def to_signed_def to_unsigned_def
  cstr_def replicate_numeral_unfold

lemma c_string_snprintf [simp]:
  "0 < sz \<Longrightarrow> nul_free t \<Longrightarrow> c_string (snprintf_mem sz t) = Some (take (sz - 1) t)"
  by (simp add: snprintf_mem_def nul_free_take)

section \<open>The single conversions\<close>

definition dec_text :: "int \<Rightarrow> string" where
  "dec_text x = (if x < 0 then ''-'' else []) @ radix 10 (nat \<bar>x\<bar>)"

definition hex_text :: "int \<Rightarrow> string" where
  "hex_text x = radix 16 (nat x)"

lemma nul_free_dec_text [simp]: "nul_free (dec_text x)" and nul_free_hex_text [simp]: "nul_free (hex_text x)"
  by (simp_all add: dec_text_def hex_text_def)

lemma c_format_ints [simp]:
  "c_format ''%d'' [AInt v] = Some (dec_text (to_signed 32 v))"
  "c_format ''%i'' [AInt v] = Some (dec_text (to_signed 32 v))"
  "c_format ''%u'' [AInt v] = Some (dec_text (to_unsigned 32 v))"
  "c_format ''%X'' [AInt v] = Some (hex_text (to_unsigned 32 v))"
  "c_format ''%ld'' [AInt v] = Some (dec_text (to_signed 64 v))"
  "c_format ''%lu'' [AInt v] = Some (dec_text (to_unsigned 64 v))"
  "c_format ''%lX'' [AInt v] = Some (hex_text (to_unsigned 64 v))"
  "c_format ''%lld'' [AInt v] = Some (dec_text (to_signed 64 v))"
  "c_format ''%llu'' [AInt v] = Some (dec_text (to_unsigned 64 v))"
  "c_format ''%llX'' [AInt v] = Some (hex_text (to_unsigned 64 v))"
  "c_format ''0x%zX'' [AInt v] = Some (''0x'' @ hex_text (to_unsigned 64 v))"
  by (simp_all add: c_format.simps parse_spec_def conv_text_def is_digit_def int_text_def
      pad_left_def dec_text_def hex_text_def Let_def to_unsigned_def)

lemma c_format_strs [simp]:
  "c_format ''%s'' [AStr m] = Some (cstr m)"
  "0 \<le> n \<Longrightarrow> c_format ''%.*s'' [AInt n, AStr m] = Some (take (nat n) (cstr m))"
  "c_format ''%f'' [ADbl x] = Some (fp_text 6 x)"
  by (simp_all add: c_format.simps parse_spec_def conv_text_def is_digit_def pad_left_def)

text \<open>Text in front of a conversion is copied.\<close>

lemma c_format_prefix:
  "CHR ''%'' \<notin> set f \<Longrightarrow> c_format (f @ g) args = map_option ((@) f) (c_format g args)"
  by (cases "c_format g args"; induction f) (auto simp: c_format.simps)

text \<open>A format without a \<open>%\<close> is copied; the empty one needs no argument.\<close>

lemma c_format_plain: "CHR ''%'' \<notin> set f \<Longrightarrow> c_format f args = Some f"
  by (induction f) (auto simp: c_format.simps)

end
