(* ===== verification/Common.thy ===== *)
theory Common
  imports Printf
begin

text \<open>
  The parts every back end shares, from \<open>include/ivi-logging-common.h\<close> and
  \<open>src/ivi-logging.cpp\<close>: the log levels and their order, the application and context
  identifiers, the flags read once from the environment, the per-thread identifiers, the data of
  a log statement (\<open>LogInfo\<close>), the process name and the time stamp. Process-wide variables are
  the record \<open>process\<close>, passed and returned; what the operating system supplies (environment,
  process id, command line) is the record \<open>platform\<close>.
\<close>

section \<open>Log levels\<close>

text \<open>\<open>enum class LogLevel : uint8_t\<close>, compared by its underlying value.\<close>

datatype LogLevel = LvNone | LvFatal | LvError | LvWarning | LvInfo | LvDebug | LvVerbose
  | LvAll | LvInvalid

fun level_value :: "LogLevel \<Rightarrow> nat" where
  "level_value LvNone = 0"
| "level_value LvFatal = 1"
| "level_value LvError = 2"
| "level_value LvWarning = 3"
| "level_value LvInfo = 4"
| "level_value LvDebug = 5"
| "level_value LvVerbose = 6"
| "level_value LvAll = 7"
| "level_value LvInvalid = 8"

lemma level_value_inject [simp]: "level_value a = level_value b \<longleftrightarrow> a = b"
  by (cases a; cases b) simp_all

instantiation LogLevel :: linorder
begin

definition less_eq_LogLevel :: "LogLevel \<Rightarrow> LogLevel \<Rightarrow> bool" where
  "less_eq_LogLevel a b \<longleftrightarrow> level_value a \<le> level_value b"

definition less_LogLevel :: "LogLevel \<Rightarrow> LogLevel \<Rightarrow> bool" where
  "less_LogLevel a b \<longleftrightarrow> level_value a < level_value b"

instance
  by standard (auto simp: less_eq_LogLevel_def less_LogLevel_def)

end

lemma LvNone_least [simp]: "LvNone \<le> l"
  by (simp add: less_eq_LogLevel_def)

section \<open>Platform and process state\<close>

record platform =
  getenv :: "string \<Rightarrow> string option"
  getpid :: int
  proc_dir :: bool
  proc_cmdline :: "string option"

record AppLogContext =
  app_id :: string
  app_description :: string

record process =
  s_pAppLogContext :: "AppLogContext option"
  m_enableSourceCodeLocationInfo :: bool
  m_enableThreadInfo :: bool
  s_initialized :: bool
  err_out :: string

definition process_init :: process where
  "process_init = \<lparr>s_pAppLogContext = None, m_enableSourceCodeLocationInfo = False,
     m_enableThreadInfo = False, s_initialized = False, err_out = []\<rparr>"

definition readEnvVarAsBool :: "platform \<Rightarrow> string \<Rightarrow> bool \<Rightarrow> bool" where
  "readEnvVarAsBool os varName defaultValue =
     (case getenv os varName of None \<Rightarrow> defaultValue | Some value \<Rightarrow> value = ''1'')"

definition registerContextBase :: "platform \<Rightarrow> process \<Rightarrow> process" where
  "registerContextBase os p = (if \<not> s_initialized p then
     p\<lparr>m_enableSourceCodeLocationInfo :=
          readEnvVarAsBool os ''LOGGING_ENABLE_SOURCE_CODE_INFORMATION'' False,
        m_enableThreadInfo := readEnvVarAsBool os ''LOGGING_ENABLE_THREAD_INFORMATION'' False,
        s_initialized := True\<rparr>
     else p)"

section \<open>Application and context identifiers\<close>

definition warning_app_redefined :: string where
  "warning_app_redefined = ''Logging: An ID has already been defined for your application. Please ensure LOG_DEFINE_APP_IDS macro is called before any log is produced.'' @ [LF]"

definition AppLogContext_ctor :: "string \<Rightarrow> string \<Rightarrow> process \<Rightarrow> process" where
  "AppLogContext_ctor ident description p =
     (let p = (if s_pAppLogContext p \<noteq> None
               then p\<lparr>err_out := err_out p @ warning_app_redefined\<rparr> else p)
      in p\<lparr>s_pAppLogContext := Some \<lparr>app_id = ident, app_description = description\<rparr>\<rparr>)"

definition processNameBuffer :: "platform \<Rightarrow> mem" where
  "processNameBuffer os =
     (let processName = replicate 1024 NUL
      in if proc_dir os then
           (case proc_cmdline os of None \<Rightarrow> processName
            | Some f \<Rightarrow>
                let n = min 1023 (length f); b = blit processName 0 (take n f)
                in if n > 0 then b[n - 1 := NUL] else b)
         else processName)"

definition getProcessName :: "platform \<Rightarrow> string option" where
  "getProcessName os = do {
     s \<leftarrow> c_string (processNameBuffer os);
     if length s = 0 then do {
       t \<leftarrow> c_format ''Unknown process with PID %i'' [AInt (getpid os)];
       c_string (snprintf_mem 1024 t) }
     else Some s }"

definition setDefaultAPPIDSIfNeeded :: "platform \<Rightarrow> process \<Rightarrow> process option" where
  "setDefaultAPPIDSIfNeeded os p =
     (if s_pAppLogContext p = None then do {
        t \<leftarrow> c_format ''%X'' [AInt (getpid os)];
        pidAsHex \<leftarrow> c_string (snprintf_mem 5 t);
        name \<leftarrow> getProcessName os;
        Some (AppLogContext_ctor pidAsHex name p) }
      else Some p)"

record LogContextCommon =
  ctx_id :: string
  ctx_description :: string

definition warning_long_id :: "string \<Rightarrow> string" where
  "warning_long_id ident = ''Logging: Log IDs should not be longer than 4 characters to be compatible with the DLT : '' @ ident @ [LF]"

definition LogContextCommon_ctor :: "string \<Rightarrow> string \<Rightarrow> process \<Rightarrow> LogContextCommon \<times> process" where
  "LogContextCommon_ctor ident description p =
     (\<lparr>ctx_id = ident, ctx_description = description\<rparr>,
      if length ident > 4 then p\<lparr>err_out := err_out p @ warning_long_id (cstr ident)\<rparr> else p)"

section \<open>The data of one log statement\<close>

text \<open>\<open>m_fileName\<close> is the cached position of the short name inside the long one.\<close>

record LogInfo =
  m_level :: LogLevel
  m_longFileName :: string
  m_fileName :: "nat option"
  m_prettyFunction :: string
  m_lineNumber :: int
  m_hexEnabled :: bool

definition LogInfo_ctor :: "LogLevel \<Rightarrow> string \<Rightarrow> int \<Rightarrow> string \<Rightarrow> LogInfo" where
  "LogInfo_ctor level fileName lineNumber prettyFunction =
     \<lparr>m_level = level, m_longFileName = fileName, m_fileName = None,
      m_prettyFunction = prettyFunction, m_lineNumber = lineNumber, m_hexEnabled = False\<rparr>"

fun shortNamePosition :: "string \<Rightarrow> nat \<Rightarrow> nat" where
  "shortNamePosition s 0 = 0"
| "shortNamePosition s (Suc n) = (if s ! n \<noteq> CHR ''/'' then shortNamePosition s n else Suc n)"

definition getFileName :: "LogInfo \<Rightarrow> string \<times> LogInfo" where
  "getFileName li = (case m_fileName li of
     Some p \<Rightarrow> (drop p (m_longFileName li), li)
   | None \<Rightarrow>
       let p = shortNamePosition (m_longFileName li) (length (m_longFileName li))
       in (drop p (m_longFileName li), li\<lparr>m_fileName := Some p\<rparr>))"

text \<open>The destructor: a fatal log ends the process, after a line on standard error.\<close>

definition LogInfo_dtor :: "LogInfo \<Rightarrow> string option" where
  "LogInfo_dtor li =
     (if m_level li = LvFatal then Some (''Exiting process due to fatal log'' @ [LF]) else None)"

section \<open>Thread identifiers\<close>

record thread_ids =
  sNextID :: "32 word"
  m_id :: "nat \<rightharpoonup> 32 word"

definition thread_ids_init :: thread_ids where
  "thread_ids_init = \<lparr>sNextID = 0, m_id = Map.empty\<rparr>"

text \<open>The first access by a thread constructs its \<open>ThreadInformation\<close>.\<close>

definition getThreadInformation :: "nat \<Rightarrow> thread_ids \<Rightarrow> 32 word \<times> thread_ids" where
  "getThreadInformation tid s = (case m_id s tid of
     Some i \<Rightarrow> (i, s)
   | None \<Rightarrow> (sNextID s, s\<lparr>sNextID := sNextID s + 1, m_id := (m_id s)(tid \<mapsto> sNextID s)\<rparr>))"

definition getID :: "32 word \<Rightarrow> int" where
  "getID i = sint i"

definition isMultithreadedApp :: "thread_ids \<Rightarrow> bool" where
  "isMultithreadedApp s \<longleftrightarrow> sNextID s \<noteq> 1"

text \<open>\<open>ret\<close> and \<open>buffer\<close> are what \<open>pthread_getname_np\<close> returned and left in the 64 byte buffer.\<close>

definition getName :: "int \<Rightarrow> mem \<Rightarrow> string option" where
  "getName ret buffer = c_string (if ret \<noteq> 0 then buffer[0 := NUL] else buffer)"

fun thread_accesses :: "nat list \<Rightarrow> thread_ids \<Rightarrow> thread_ids" where
  "thread_accesses [] s = s"
| "thread_accesses (t # ts) s = thread_accesses ts (snd (getThreadInformation t s))"

section \<open>Time stamp\<close>

text \<open>
  \<open>elapsed\<close> is the difference of the two \<open>system_clock\<close> readings in nanoseconds; a
  \<open>duration_cast\<close> truncates towards zero and the count is converted to \<open>unsigned int\<close>.
\<close>

definition trunc_div :: "int \<Rightarrow> int \<Rightarrow> int" where
  "trunc_div a b = sgn a * (\<bar>a\<bar> div b)"

definition getCurrentTime :: "int \<Rightarrow> int \<times> int" where
  "getCurrentTime elapsed =
     (let seconds = to_unsigned 32 (trunc_div elapsed 1000000000);
          milliseconds = to_unsigned 32 (trunc_div (elapsed - seconds * 1000000000) 1000000)
      in (seconds, milliseconds))"

section \<open>Lemmas\<close>

lemma shortNamePosition_le: "shortNamePosition s n \<le> n"
  by (induction n) auto

lemma shortName_rev:
  "n \<le> length s \<Longrightarrow>
     drop (shortNamePosition s n) (take n s) = rev (takeWhile (\<lambda>c. c \<noteq> CHR ''/'') (rev (take n s)))"
proof (induction n)
  case (Suc n)
  have snoc: "take (Suc n) s = take n s @ [s ! n]"
    using Suc.prems by (simp add: take_Suc_conv_app_nth)
  show ?case
  proof (cases "s ! n = CHR ''/''")
    case True
    with snoc show ?thesis by simp
  next
    case False
    have "shortNamePosition s n \<le> length (take n s)"
      using Suc.prems shortNamePosition_le[of s n] by simp
    with False Suc snoc show ?thesis by simp
  qed
qed simp

lemma processName_has_NUL: "NUL \<in> set (processNameBuffer os)"
proof (cases "proc_dir os \<and> proc_cmdline os \<noteq> None")
  case True
  then obtain f where f: "proc_dir os" "proc_cmdline os = Some f" by auto
  let ?n = "min 1023 (length f)"
  let ?b = "blit (replicate 1024 NUL) 0 (take ?n f)"
  have "length ?b = 1024" by (simp add: blit_def)
  then have "?n - 1 < length ?b" by simp
  then have "NUL \<in> set (?b[?n - 1 := NUL])" by (rule set_update_memI)
  moreover have "NUL \<in> set ?b" by (simp add: blit_def)
  ultimately show ?thesis using f by (simp add: processNameBuffer_def Let_def)
next
  case False
  then show ?thesis by (auto simp: processNameBuffer_def Let_def)
qed

lemma c_format_unknown_process:
  "c_format ''Unknown process with PID %i'' [AInt v]
     = Some (''Unknown process with PID '' @ dec_text (to_signed 32 v))"
  using c_format_prefix[of "''Unknown process with PID ''" "''%i''" "[AInt v]"]
  by (simp del: c_format.simps(1))

lemma getProcessName_total: "\<exists>s. getProcessName os = Some s \<and> s \<noteq> []"
  using processName_has_NUL[of os]
  by (cases "cstr (processNameBuffer os) = []")
     (auto simp: getProcessName_def c_string_def[of "processNameBuffer os"] c_format_unknown_process)

lemma setDefaultAPPIDS_some:
  assumes "s_pAppLogContext p = None"
  shows "\<exists>name. getProcessName os = Some name \<and> name \<noteq> [] \<and>
    setDefaultAPPIDSIfNeeded os p = Some (p\<lparr>s_pAppLogContext :=
      Some \<lparr>app_id = take 4 (hex_text (to_unsigned 32 (getpid os))), app_description = name\<rparr>\<rparr>)"
  using getProcessName_total[of os] assms
  by (auto simp: setDefaultAPPIDSIfNeeded_def AppLogContext_ctor_def)

section \<open>Thread identifiers stay distinct\<close>

text \<open>
  After \<open>k\<close> threads have logged, the counter is \<open>k\<close> (modulo the width of \<open>int\<close>) and each
  thread holds one of the values below it, no two the same one as long as the counter has not
  wrapped.
\<close>

definition thread_inv :: "thread_ids \<Rightarrow> bool" where
  "thread_inv s \<longleftrightarrow> (\<exists>k f. sNextID s = word_of_nat k \<and> finite (dom (m_id s)) \<and>
     k = card (dom (m_id s)) \<and> bij_betw f (dom (m_id s)) {..<k} \<and>
     (\<forall>t \<in> dom (m_id s). m_id s t = Some (word_of_nat (f t))))"

lemma thread_inv_init: "thread_inv thread_ids_init"
  by (auto simp: thread_inv_def thread_ids_init_def bij_betw_def)

lemma getThreadInformation_inv:
  assumes "thread_inv s"
  shows "thread_inv (snd (getThreadInformation t s))"
proof (cases "m_id s t")
  case (Some i)
  with assms show ?thesis by (simp add: getThreadInformation_def)
next
  case None
  from assms obtain k f where inv: "sNextID s = word_of_nat k" "finite (dom (m_id s))"
    "k = card (dom (m_id s))" "bij_betw f (dom (m_id s)) {..<k}"
    "\<forall>u \<in> dom (m_id s). m_id s u = Some (word_of_nat (f u))"
    by (auto simp: thread_inv_def)
  let ?s = "snd (getThreadInformation t s)" and ?f = "f(t := k)"
  have s: "?s = s\<lparr>sNextID := sNextID s + 1, m_id := (m_id s)(t \<mapsto> sNextID s)\<rparr>"
    using None by (simp add: getThreadInformation_def)
  have t: "t \<notin> dom (m_id s)" using None by auto
  have dom: "dom (m_id ?s) = insert t (dom (m_id s))" by (simp add: s)
  have "bij_betw ?f (dom (m_id s)) {..<k}"
    using inv(4) t by (subst bij_betw_cong[of _ _ f]) auto
  then have "bij_betw ?f (dom (m_id s) \<union> {t}) ({..<k} \<union> {k})"
    by (rule bij_betw_combine) (auto simp: bij_betw_def)
  then have "bij_betw ?f (dom (m_id ?s)) {..<Suc k}"
    by (simp add: dom lessThan_Suc)
  moreover have "sNextID ?s = word_of_nat (Suc k)" using inv(1) by (simp add: s add.commute)
  moreover have "finite (dom (m_id ?s))" "Suc k = card (dom (m_id ?s))"
    using inv t by (simp_all add: dom)
  moreover have "\<forall>u \<in> dom (m_id ?s). m_id ?s u = Some (word_of_nat (?f u))"
    using inv t by (auto simp: s)
  ultimately show ?thesis unfolding thread_inv_def by blast
qed

lemma thread_accesses_inv: "thread_inv s \<Longrightarrow> thread_inv (thread_accesses ts s)"
  by (induction ts arbitrary: s) (simp_all add: getThreadInformation_inv)

lemma getThreadInformation_dom: "dom (m_id (snd (getThreadInformation t s))) = insert t (dom (m_id s))"
  by (cases "m_id s t") (auto simp: getThreadInformation_def)

lemma thread_accesses_dom: "dom (m_id (thread_accesses ts s)) = dom (m_id s) \<union> set ts"
  by (induction ts arbitrary: s) (auto simp: getThreadInformation_dom)

lemma thread_inv_distinct:
  assumes "thread_inv s" and "card (dom (m_id s)) \<le> 2 ^ 32"
    and "m_id s t = Some i" and "m_id s u = Some i"
  shows "t = u"
proof -
  from assms(1) obtain k f where inv: "k = card (dom (m_id s))" "bij_betw f (dom (m_id s)) {..<k}"
    "\<forall>v \<in> dom (m_id s). m_id s v = Some (word_of_nat (f v))"
    by (auto simp: thread_inv_def)
  have dom: "t \<in> dom (m_id s)" "u \<in> dom (m_id s)" using assms by auto
  then have "f t < k" "f u < k"
    using inv(2) bij_betwE by blast+
  with inv(1) assms(2) have small: "f t < 2 ^ 32" "f u < 2 ^ 32" by linarith+
  have "(word_of_nat (f t) :: 32 word) = word_of_nat (f u)"
    using assms(3,4) inv(3) dom by auto
  then have "unat (word_of_nat (f t) :: 32 word) = unat (word_of_nat (f u) :: 32 word)"
    by simp
  with small have "f t = f u" by (simp add: unat_of_nat)
  with inv(2) dom show ?thesis by (auto simp: bij_betw_def dest: inj_onD)
qed

lemma getThreadInformation_keeps:
  "m_id s u = Some i \<Longrightarrow> m_id (snd (getThreadInformation t s)) u = Some i"
  by (cases "m_id s t") (auto simp: getThreadInformation_def)

lemma thread_accesses_keeps: "m_id s u = Some i \<Longrightarrow> m_id (thread_accesses ts s) u = Some i"
  by (induction ts arbitrary: s) (simp_all add: getThreadInformation_keeps)

lemma thread_accesses_init_dom: "dom (m_id (thread_accesses ts thread_ids_init)) = set ts"
  by (simp add: thread_accesses_dom thread_ids_init_def)

lemma multithreaded_count:
  "isMultithreadedApp (thread_accesses ts thread_ids_init) \<longleftrightarrow> card (set ts) mod 2 ^ 32 \<noteq> 1"
proof -
  let ?s = "thread_accesses ts thread_ids_init"
  have "sNextID ?s = word_of_nat (card (set ts))"
    using thread_accesses_inv[OF thread_inv_init, of ts] by (auto simp: thread_inv_def thread_accesses_init_dom)
  then have "(sNextID ?s = 1) = (unat (word_of_nat (card (set ts)) :: 32 word) = 1)"
    by (metis unsigned_1 unsigned_word_eqI)
  then show ?thesis by (simp add: isMultithreadedApp_def unat_of_nat)
qed

lemma hex_text_div:
  assumes "65536 \<le> x"
  shows "take 4 (hex_text x) = take 4 (hex_text (x div 16))"
proof -
  have n: "16 \<le> nat x" "nat (x div 16) = nat x div 16" using assms by (simp_all add: nat_div_distrib)
  have "hex_text x = hex_text (x div 16) @ [digit_char (nat x mod 16)]"
    unfolding hex_text_def n(2) using n(1) by (subst radix_step) simp_all
  moreover have "\<not> length (hex_text (x div 16)) \<le> Suc 2"
    unfolding hex_text_def n(2) using assms by (subst length_radix_le) auto
  ultimately show ?thesis by simp
qed

section \<open>Properties\<close>

text \<open>
  Without \<open>LOG_DEFINE_APP_IDS\<close>, a process whose id is below 65536 gets the hexadecimal form of
  its process id as application id, which no other such process has, and a description that is
  never empty.
\<close>

lemma default_app_id_identifies_process:
  assumes "s_pAppLogContext p = None" and "0 \<le> getpid os" and "getpid os < 65536"
  shows "\<exists>name. name \<noteq> [] \<and> setDefaultAPPIDSIfNeeded os p = Some (p\<lparr>s_pAppLogContext :=
      Some \<lparr>app_id = hex_text (getpid os), app_description = name\<rparr>\<rparr>) \<and>
    (\<forall>q. 0 \<le> q \<and> hex_text q = hex_text (getpid os) \<longrightarrow> q = getpid os)"
proof -
  have "length (hex_text (getpid os)) \<le> Suc 3"
    unfolding hex_text_def using assms by (subst length_radix_le) auto
  then have "take 4 (hex_text (to_unsigned 32 (getpid os))) = hex_text (getpid os)"
    using assms by (simp add: to_unsigned_id)
  moreover have "q = getpid os" if "0 \<le> q" "hex_text q = hex_text (getpid os)" for q
    using that assms(2) radix_inject[of 16 "nat q" "nat (getpid os)"] by (simp add: hex_text_def)
  ultimately show ?thesis using setDefaultAPPIDS_some[OF assms(1), of os] by auto
qed

definition sample_platform :: platform where
  "sample_platform = \<lparr>getenv = \<lambda>_. None, getpid = 4660, proc_dir = True,
     proc_cmdline = Some (''demo'' @ [NUL])\<rparr>"

lemma default_app_id_identifies_process_witness:
  "\<exists>p a. setDefaultAPPIDSIfNeeded sample_platform process_init = Some p \<and>
     s_pAppLogContext p = Some a \<and> app_id a = hex_text 4660"
  using default_app_id_identifies_process[of process_init sample_platform]
  by (auto simp: process_init_def sample_platform_def simp del: setDefaultAPPIDS_some)

text \<open>
  From process id 65536 on (the kernel's default maximum is 4194304) the default application id
  keeps only the first four hexadecimal digits: processes that differ in the last digit get the
  same one.
\<close>

lemma default_app_id_collides:
  assumes "s_pAppLogContext p = None" and "65536 \<le> getpid os" and "getpid os < 2 ^ 31"
    and "65536 \<le> getpid os'" and "getpid os' < 2 ^ 31" and "getpid os div 16 = getpid os' div 16"
  shows "\<exists>p1 p2 a1 a2. setDefaultAPPIDSIfNeeded os p = Some p1 \<and> setDefaultAPPIDSIfNeeded os' p = Some p2 \<and>
    s_pAppLogContext p1 = Some a1 \<and> s_pAppLogContext p2 = Some a2 \<and> app_id a1 = app_id a2"
proof -
  have "to_unsigned 32 (getpid os) = getpid os" "to_unsigned 32 (getpid os') = getpid os'"
    using assms by (simp_all add: to_unsigned_id)
  then have "take 4 (hex_text (to_unsigned 32 (getpid os))) = take 4 (hex_text (to_unsigned 32 (getpid os')))"
    using hex_text_div[OF assms(2)] hex_text_div[OF assms(4)] assms(6) by simp
  with setDefaultAPPIDS_some[OF assms(1), of os] setDefaultAPPIDS_some[OF assms(1), of os']
  show ?thesis by auto
qed

lemma default_app_id_collides_witness:
  "\<exists>p1 p2 a1 a2. setDefaultAPPIDSIfNeeded (sample_platform\<lparr>getpid := 65536\<rparr>) process_init = Some p1 \<and>
     setDefaultAPPIDSIfNeeded (sample_platform\<lparr>getpid := 65537\<rparr>) process_init = Some p2 \<and>
     s_pAppLogContext p1 = Some a1 \<and> s_pAppLogContext p2 = Some a2 \<and> app_id a1 = app_id a2"
  by (rule default_app_id_collides) (simp_all add: process_init_def sample_platform_def)

text \<open>
  The file name shown is the part of \<open>__FILE__\<close> after its last slash (all of it when there is
  none), and the position cached by the first call gives every later call the same answer.
\<close>

lemma getFileName_basename:
  "fst (getFileName (LogInfo_ctor level longName line function)) =
     rev (takeWhile (\<lambda>c. c \<noteq> CHR ''/'') (rev longName)) \<and>
   getFileName (snd (getFileName (LogInfo_ctor level longName line function))) =
     getFileName (LogInfo_ctor level longName line function)"
  using shortName_rev[of "length longName" longName]
  by (simp add: getFileName_def LogInfo_ctor_def Let_def)

text \<open>
  Thread identifiers: after any sequence of log calls by the threads of a process, two threads
  have different identifiers (as long as at most 2^32 threads have logged), a thread keeps its
  identifier for ever, and the process counts as multi-threaded exactly when the number of
  threads that have logged is not one, modulo the width of the counter.
\<close>

lemma thread_ids_identify:
  assumes "card (set ts) \<le> 2 ^ 32" and "t \<in> set ts" and "u \<in> set ts" and "t \<noteq> u"
  shows "\<exists>i j. m_id (thread_accesses ts thread_ids_init) t = Some i \<and>
    m_id (thread_accesses ts thread_ids_init) u = Some j \<and> getID i \<noteq> getID j \<and>
    fst (getThreadInformation t (thread_accesses (ts @ later) thread_ids_init)) = i \<and>
    isMultithreadedApp (thread_accesses ts thread_ids_init) = (card (set ts) mod 2 ^ 32 \<noteq> 1)"
proof -
  let ?s = "thread_accesses ts thread_ids_init"
  have inv: "thread_inv ?s" by (rule thread_accesses_inv[OF thread_inv_init])
  obtain i j where ij: "m_id ?s t = Some i" "m_id ?s u = Some j"
    using assms(2,3) thread_accesses_init_dom[of ts] by blast
  have "i \<noteq> j"
    using thread_inv_distinct[OF inv _ ij(1), of u] ij(2) assms(1,4)
    by (auto simp: thread_accesses_init_dom)
  then have "getID i \<noteq> getID j" by (auto simp: getID_def dest: signed_word_eqI)
  moreover have "m_id (thread_accesses (ts @ later) thread_ids_init) t = Some i"
  proof -
    have "thread_accesses (ts @ later) s = thread_accesses later (thread_accesses ts s)" for s
      by (induction ts arbitrary: s) simp_all
    with thread_accesses_keeps[OF ij(1)] show ?thesis by simp
  qed
  moreover have "isMultithreadedApp ?s = (card (set ts) mod 2 ^ 32 \<noteq> 1)"
    by (rule multithreaded_count)
  ultimately show ?thesis using ij by (simp add: getThreadInformation_def)
qed

lemma thread_ids_identify_witness:
  "\<exists>i j. m_id (thread_accesses [7, 9, 7] thread_ids_init) 7 = Some i \<and>
     m_id (thread_accesses [7, 9, 7] thread_ids_init) 9 = Some j \<and> getID i \<noteq> getID j"
  using thread_ids_identify[of "[7, 9, 7]" 7 9 "[]"] by (auto simp: card_insert_if)

end
