(* ===== verification/Stream_Log.thy ===== *)
theory Stream_Log
  imports Byte_Array Common
begin

text \<open>
  The text back ends' common part, from \<open>include/ivi-logging-console.h\<close>:
  \<open>StreamLogContextAbstract\<close> (identifier and level of a context) and \<open>StreamLogData\<close> (the line
  under construction: prefix, formatted values, suffix, flush). The virtual functions are
  arguments: \<open>en\<close> is the value of \<open>m_context->isEnabled(level)\<close> when an operation runs, and
  \<open>sd_init\<close> and \<open>sd_flushLog\<close> take the \<open>writePrefix\<close> and \<open>writeSuffix\<close> of the concrete class.
  The \<open>LogInfo\<close> a line points to belongs to the log entry and is passed along. \<open>junk\<close> is the
  uninitialised memory of a fresh \<open>ByteArray\<close>.
\<close>

section \<open>Values that can be written\<close>

text \<open>
  One constructor per C++ type that reaches an overload of \<open>write\<close>; integers at their width.
  The overload chosen for a \<open>signed char\<close> is the one of \<open>int\<close>. A \<open>char const*\<close> is the
  memory it points to, \<open>None\<close> for a null pointer.
\<close>

datatype log_value =
    VBool bool
  | VChar "8 word"
  | VSChar "8 word"
  | VUChar "8 word"
  | VShort "16 word"
  | VUShort "16 word"
  | VInt "32 word"
  | VUInt "32 word"
  | VLong "64 word"
  | VULong "64 word"
  | VLLong "64 word"
  | VULLong "64 word"
  | VFloat "32 word"
  | VDouble "64 word"
  | VPtr "64 word"
  | VCStr "mem option"
  | VView string
  | VString string

section \<open>Contexts\<close>

record stream_ctx =
  sc_context :: LogContextCommon
  sc_level :: LogLevel

definition stream_ctx_new :: "LogContextCommon \<Rightarrow> stream_ctx" where
  "stream_ctx_new c = \<lparr>sc_context = c, sc_level = LvDebug\<rparr>"

definition getShortID :: "'z stream_ctx_scheme \<Rightarrow> string" where
  "getShortID c = ctx_id (sc_context c)"

definition setLogLevel :: "LogLevel \<Rightarrow> 'z stream_ctx_scheme \<Rightarrow> 'z stream_ctx_scheme" where
  "setLogLevel level c = c\<lparr>sc_level := level\<rparr>"

definition getLogLevel :: "'z stream_ctx_scheme \<Rightarrow> LogLevel" where
  "getLogLevel c = sc_level c"

definition stream_isEnabled :: "'z stream_ctx_scheme \<Rightarrow> LogLevel \<Rightarrow> bool" where
  "stream_isEnabled c level \<longleftrightarrow> level \<le> getLogLevel c"

section \<open>The line under construction\<close>

definition DEFAULT_PREFIX :: string where
  "DEFAULT_PREFIX = ''%05d.%03d | %4.4s [%s] ''"

definition DEFAULT_SUFFIX :: string where
  "DEFAULT_SUFFIX = '' | %s%.0s:%d ''"

definition DEFAULT_THREAD_NAME_SUFFIX :: string where
  "DEFAULT_THREAD_NAME_SUFFIX = ''| %.2i / %s ''"

record stream_data =
  m_content :: byte_array
  m_prefixFormat :: string
  m_suffixFormat :: string
  m_suffixThreadNameFormat :: string

definition setPrefixFormat :: "string \<Rightarrow> 'z stream_data_scheme \<Rightarrow> 'z stream_data_scheme" where
  "setPrefixFormat f d = d\<lparr>m_prefixFormat := f\<rparr>"

definition setSuffixFormat :: "string \<Rightarrow> 'z stream_data_scheme \<Rightarrow> 'z stream_data_scheme" where
  "setSuffixFormat f d = d\<lparr>m_suffixFormat := f\<rparr>"

definition ba_writeFormatted :: "string \<Rightarrow> c_arg list \<Rightarrow> byte_array \<Rightarrow> byte_array option" where
  "ba_writeFormatted format args b = do {
     t \<leftarrow> c_format format args;
     let sz = length t + 1;
     let startOfStringIndex = ba_size b;
     let b = ba_resize (ba_size b + sz) b;
     let b = ba_put startOfStringIndex (snprintf_mem sz t) b;
     Some (ba_resize (ba_size b - 1) b) }"

definition sd_writeFormatted ::
    "bool \<Rightarrow> string \<Rightarrow> c_arg list \<Rightarrow> 'z stream_data_scheme \<Rightarrow> 'z stream_data_scheme option" where
  "sd_writeFormatted en format args d =
     (if en then do {
        b \<leftarrow> ba_writeFormatted format args (m_content d);
        Some (d\<lparr>m_content := b\<rparr>) }
      else Some d)"

definition pointerToString :: "64 word \<Rightarrow> string option" where
  "pointerToString p = do {
     t \<leftarrow> c_format ''0x%zX'' [AInt (uint p)];
     c_string (snprintf_mem 64 t) }"

definition writeInt_signed ::
    "bool \<Rightarrow> bool \<Rightarrow> int \<Rightarrow> 'z stream_data_scheme \<Rightarrow> 'z stream_data_scheme option" where
  "writeInt_signed en hex v d =
     sd_writeFormatted en (if hex then ''%X'' else ''%d'') [AInt v] d"

definition writeInt_unsigned ::
    "bool \<Rightarrow> bool \<Rightarrow> int \<Rightarrow> 'z stream_data_scheme \<Rightarrow> 'z stream_data_scheme option" where
  "writeInt_unsigned en hex v d =
     sd_writeFormatted en (if hex then ''%X'' else ''%u'') [AInt v] d"

fun sd_write ::
    "bool \<Rightarrow> bool \<Rightarrow> log_value \<Rightarrow> 'z stream_data_scheme \<Rightarrow> 'z stream_data_scheme option" where
  "sd_write en hex (VView v) d =
     sd_writeFormatted en ''%.*s'' [AInt (to_signed 32 (int (length v))), AStr v] d"
| "sd_write en hex (VBool v) d =
     sd_writeFormatted en ''%s'' [AStr (if v then ''true'' else ''false'')] d"
| "sd_write en hex (VChar v) d = writeInt_signed en hex (sint v) d"
| "sd_write en hex (VSChar v) d = writeInt_signed en hex (sint v) d"
| "sd_write en hex (VUChar v) d = writeInt_signed en hex (uint v) d"
| "sd_write en hex (VShort v) d = writeInt_signed en hex (sint v) d"
| "sd_write en hex (VUShort v) d = writeInt_signed en hex (uint v) d"
| "sd_write en hex (VInt v) d = writeInt_signed en hex (sint v) d"
| "sd_write en hex (VUInt v) d = writeInt_unsigned en hex (uint v) d"
| "sd_write en hex (VLLong v) d =
     sd_writeFormatted en (if hex then ''%llX'' else ''%lld'') [AInt (sint v)] d"
| "sd_write en hex (VULLong v) d =
     sd_writeFormatted en (if hex then ''%llX'' else ''%llu'') [AInt (uint v)] d"
| "sd_write en hex (VLong v) d =
     sd_writeFormatted en (if hex then ''%lX'' else ''%ld'') [AInt (sint v)] d"
| "sd_write en hex (VULong v) d =
     sd_writeFormatted en (if hex then ''%lX'' else ''%lu'') [AInt (uint v)] d"
| "sd_write en hex (VPtr v) d = do {
     s \<leftarrow> pointerToString v;
     sd_writeFormatted en ''%s'' [AStr s] d }"
| "sd_write en hex (VCStr v) d =
     sd_writeFormatted en ''%s'' [AStr (case v of Some m \<Rightarrow> m | None \<Rightarrow> ''null'')] d"
| "sd_write en hex (VFloat v) d = sd_writeFormatted en ''%f'' [ADbl (fp_of_f32 v)] d"
| "sd_write en hex (VString v) d = sd_writeFormatted en ''%s'' [AStr v] d"
| "sd_write en hex (VDouble v) d = sd_writeFormatted en ''%f'' [ADbl (fp_of_f64 v)] d"

fun getLogLevelString :: "LogLevel \<Rightarrow> string" where
  "getLogLevelString LvDebug = '' Debug ''"
| "getLogLevelString LvInfo = '' Info  ''"
| "getLogLevelString LvWarning = ''Warning''"
| "getLogLevelString LvError = '' Error ''"
| "getLogLevelString LvFatal = '' Fatal ''"
| "getLogLevelString LvVerbose = ''Verbose''"
| "getLogLevelString _ = ''Invalid''"

text \<open>\<open>elapsed\<close> is the time since the start in nanoseconds.\<close>

definition sd_writePrefix :: "bool \<Rightarrow> int \<Rightarrow> string \<Rightarrow> LogLevel \<Rightarrow>
    'z stream_data_scheme \<Rightarrow> 'z stream_data_scheme option" where
  "sd_writePrefix en elapsed shortID level d =
     (let (seconds, milliseconds) = getCurrentTime elapsed
      in sd_writeFormatted en (m_prefixFormat d)
           [AInt seconds, AInt milliseconds, AStr shortID, AStr (getLogLevelString level)] d)"

text \<open>
  \<open>thread\<close> is \<open>None\<close> when thread information is disabled, otherwise the identifier and name of
  the calling thread.
\<close>

definition getSuffix :: "mem \<Rightarrow> (int \<times> string) option \<Rightarrow> LogInfo \<Rightarrow>
    'z stream_data_scheme \<Rightarrow> (byte_array \<times> LogInfo) option" where
  "getSuffix junk thread li d = (
     let (fileName, li) = getFileName li
     in do {
       a \<leftarrow> ba_writeFormatted (m_suffixFormat d)
              [AStr fileName, AStr (m_prettyFunction li), AInt (m_lineNumber li)] (ba_new junk);
       a \<leftarrow> (case thread of None \<Rightarrow> Some a
              | Some (ident, name) \<Rightarrow>
                  ba_writeFormatted (m_suffixThreadNameFormat d) [AInt ident, AStr name] a);
       Some (a, li) })"

text \<open>\<open>StreamLogData::writeSuffix\<close>: the suffix itself is used as a format.\<close>

definition sd_writeSuffix :: "bool \<Rightarrow> mem \<Rightarrow> (int \<times> string) option \<Rightarrow> LogInfo \<Rightarrow>
    'z stream_data_scheme \<Rightarrow> ('z stream_data_scheme \<times> LogInfo) option" where
  "sd_writeSuffix en junk thread li d = do {
     (a, li) \<leftarrow> getSuffix junk thread li d;
     format \<leftarrow> c_string (getData a);
     d \<leftarrow> sd_writeFormatted en format [] d;
     Some (d, li) }"

definition sd_init :: "bool \<Rightarrow> ('z stream_data_scheme \<Rightarrow> 'z stream_data_scheme option) \<Rightarrow>
    'z stream_data_scheme \<Rightarrow> 'z stream_data_scheme option" where
  "sd_init en writePrefix d = (if en then writePrefix d else Some d)"

text \<open>
  \<open>flushLog\<close>: the text handed to the context's \<open>write\<close>, which sends it to the file up to its
  first NUL; \<open>None\<close> inside the pair when the line is disabled and nothing is written.
\<close>

definition sd_flushLog :: "bool \<Rightarrow>
    ('z stream_data_scheme \<Rightarrow> LogInfo \<Rightarrow> ('z stream_data_scheme \<times> LogInfo) option) \<Rightarrow>
    LogInfo \<Rightarrow> 'z stream_data_scheme \<Rightarrow> (string option \<times> LogInfo) option" where
  "sd_flushLog en writeSuffix li d =
     (if en then do {
        (d, li) \<leftarrow> writeSuffix d li;
        let b = ba_resize (ba_size (m_content d) + 1) (m_content d);
        b \<leftarrow> ba_index_set (ba_size b - 1) NUL b;
        s \<leftarrow> c_string (getData b);
        Some (Some s, li) }
      else Some (None, li))"

section \<open>Reference text of a value\<close>

definition int_value_text :: "nat \<Rightarrow> bool \<Rightarrow> int \<Rightarrow> string" where
  "int_value_text w hex v = (if hex then hex_text (to_unsigned w v) else dec_text v)"

fun value_text :: "bool \<Rightarrow> log_value \<Rightarrow> string" where
  "value_text hex (VBool v) = (if v then ''true'' else ''false'')"
| "value_text hex (VChar v) = int_value_text 32 hex (sint v)"
| "value_text hex (VSChar v) = int_value_text 32 hex (sint v)"
| "value_text hex (VUChar v) = int_value_text 32 hex (uint v)"
| "value_text hex (VShort v) = int_value_text 32 hex (sint v)"
| "value_text hex (VUShort v) = int_value_text 32 hex (uint v)"
| "value_text hex (VInt v) = int_value_text 32 hex (sint v)"
| "value_text hex (VUInt v) = int_value_text 32 hex (uint v)"
| "value_text hex (VLong v) = int_value_text 64 hex (sint v)"
| "value_text hex (VULong v) = int_value_text 64 hex (uint v)"
| "value_text hex (VLLong v) = int_value_text 64 hex (sint v)"
| "value_text hex (VULLong v) = int_value_text 64 hex (uint v)"
| "value_text hex (VFloat v) = fp_text 6 (fp_of_f32 v)"
| "value_text hex (VDouble v) = fp_text 6 (fp_of_f64 v)"
| "value_text hex (VPtr v) = ''0x'' @ hex_text (uint v)"
| "value_text hex (VCStr v) = (case v of Some m \<Rightarrow> cstr m | None \<Rightarrow> ''null'')"
| "value_text hex (VView v) = cstr v"
| "value_text hex (VString v) = cstr v"

text \<open>A \<open>string_view\<close> longer than an \<open>int\<close> would change its precision argument.\<close>

fun value_ok :: "log_value \<Rightarrow> bool" where
  "value_ok (VView v) = (int (length v) < 2 ^ 31)"
| "value_ok _ = True"

lemma nul_free_value_text [simp]: "nul_free (value_text hex v)"
  by (cases v) (auto simp: int_value_text_def split: option.splits)

section \<open>Every operation extends the line\<close>

definition sd_text :: "'z stream_data_scheme \<Rightarrow> string" where
  "sd_text d = ba_content (m_content d)"

definition sd_inv :: "'z stream_data_scheme \<Rightarrow> bool" where
  "sd_inv d \<longleftrightarrow> ba_inv (m_content d) \<and> nul_free (sd_text d)"

definition line_ext :: "'z stream_data_scheme \<Rightarrow> string \<Rightarrow> 'z stream_data_scheme \<Rightarrow> bool" where
  "line_ext d t d' \<longleftrightarrow> sd_inv d' \<and> sd_text d' = sd_text d @ t \<and> d' = d\<lparr>m_content := m_content d'\<rparr>"

lemma line_ext_refl [intro]: "sd_inv d \<Longrightarrow> line_ext d [] d"
  by (simp add: line_ext_def)

lemma line_ext_trans: "line_ext d t d' \<Longrightarrow> line_ext d' u d'' \<Longrightarrow> line_ext d (t @ u) d''"
  unfolding line_ext_def by (metis append_assoc stream_data.surjective stream_data.update_convs(1))

lemma line_ext_sel:
  assumes "line_ext d t d'"
  shows "m_prefixFormat d' = m_prefixFormat d" "m_suffixFormat d' = m_suffixFormat d"
    "m_suffixThreadNameFormat d' = m_suffixThreadNameFormat d" "sd_inv d'"
    "sd_text d' = sd_text d @ t" "stream_data.more d' = stream_data.more d"
  using assms unfolding line_ext_def
  by (metis stream_data.select_convs stream_data.surjective stream_data.update_convs(1))+

lemma ba_writeFormatted_ok:
  assumes "ba_inv b" and "c_format f args = Some t"
  obtains b' where "ba_writeFormatted f args b = Some b'" "ba_inv b'"
    "ba_content b' = ba_content b @ t" "ba_size b' = ba_size b + length t"
    "take (Suc (ba_size b')) (getData b') = ba_content b' @ [NUL]"
proof -
  let ?e = "ba_put (ba_size b) (t @ [NUL]) (ba_resize (ba_size b + (length t + 1)) b)"
  let ?r = "ba_resize (ba_size ?e - 1) ?e"
  have "ba_writeFormatted f args b = Some ?r"
    using assms(2) by (simp add: ba_writeFormatted_def Let_def snprintf_mem_fits)
  then show thesis
    using ba.extend_terminated[OF assms(1), of t] by (intro that) (auto simp: ba_content_def)
qed

lemma ba_written_c_string:
  assumes "ba_inv b" and "nul_free (ba_content b)"
    and "take (Suc (ba_size b)) (getData b) = ba_content b @ [NUL]"
  shows "c_string (getData b) = Some (ba_content b)"
  using assms by (intro c_string_prefix) (simp_all add: buf_simps)

lemma sd_writeFormatted_disabled [simp]: "sd_writeFormatted False f args d = Some d"
  by (simp add: sd_writeFormatted_def)

lemma sd_writeFormatted_ext:
  assumes "sd_inv d" and "c_format f args = Some t" and "nul_free t"
  obtains d' where "sd_writeFormatted True f args d = Some d'" "line_ext d t d'"
proof -
  from assms obtain b' where b': "ba_writeFormatted f args (m_content d) = Some b'" "ba_inv b'"
    "ba_content b' = ba_content (m_content d) @ t"
    by (auto simp: sd_inv_def elim: ba_writeFormatted_ok)
  with assms show thesis
    by (intro that[of "d\<lparr>m_content := b'\<rparr>"])
       (auto simp: sd_writeFormatted_def line_ext_def sd_inv_def sd_text_def)
qed

lemma pointerToString_eq [simp]: "pointerToString p = Some (''0x'' @ hex_text (uint p))"
proof -
  have p: "0 \<le> uint p" "uint p < 2 ^ 64" using uint_lt2p[of p] by simp_all
  then have u: "to_unsigned 64 (uint p) = uint p" by (rule to_unsigned_id)
  have "nat (uint p) < nat (2 ^ 64)" using p(2) by (subst nat_mono_iff) simp_all
  then have "nat (uint p) < 16 ^ Suc 15" by simp
  then have "length (hex_text (uint p)) \<le> Suc 15"
    unfolding hex_text_def by (subst length_radix_le) auto
  then show ?thesis by (simp add: pointerToString_def u)
qed

text \<open>The text of each overload, whatever the state of the hexadecimal switch.\<close>

lemma sint_signed_id:
  "LENGTH('a::len) \<le> w \<Longrightarrow> to_signed w (sint (x :: 'a word)) = sint x"
proof -
  assume w: "LENGTH('a) \<le> w"
  have "(2::int) ^ (LENGTH('a) - 1) \<le> 2 ^ (w - 1)" using w by (intro power_increasing) auto
  moreover have "- (2 ^ (LENGTH('a) - 1)) \<le> sint x" "sint x < 2 ^ (LENGTH('a) - 1)"
    using sint_ge[of x] sint_lt[of x] by auto
  ultimately show ?thesis using w len_gt_0[where 'a='a] by (intro to_signed_id) linarith+
qed

lemma uint_signed_id:
  "LENGTH('a::len) < w \<Longrightarrow> to_signed w (uint (x :: 'a word)) = uint x"
proof -
  assume w: "LENGTH('a) < w"
  have "(2::int) ^ LENGTH('a) \<le> 2 ^ (w - 1)" using w by (intro power_increasing) auto
  moreover have "uint x < 2 ^ LENGTH('a)" by (rule uint_lt2p)
  moreover have "(0::int) \<le> 2 ^ (w - 1)" by simp
  ultimately show ?thesis using w uint_ge_0[of x] by (intro to_signed_id) linarith+
qed

lemma uint_unsigned_id:
  "LENGTH('a::len) \<le> w \<Longrightarrow> to_unsigned w (uint (x :: 'a word)) = uint x"
proof -
  assume w: "LENGTH('a) \<le> w"
  have "(2::int) ^ LENGTH('a) \<le> 2 ^ w" using w by (intro power_increasing) auto
  moreover have "uint x < 2 ^ LENGTH('a)" by (rule uint_lt2p)
  ultimately have "uint x < 2 ^ w" by linarith
  then show ?thesis by (intro to_unsigned_id) auto
qed

lemmas int_conv_ids = sint_signed_id uint_signed_id uint_unsigned_id

lemma sd_write_ext:
  assumes "sd_inv d" and "value_ok v"
  shows "\<exists>d'. sd_write True hex v d = Some d' \<and> line_ext d (value_text hex v) d'"
proof -
  have ext: "\<exists>d'. sd_writeFormatted True f args d = Some d' \<and> line_ext d t d'"
    if "c_format f args = Some t" "nul_free t" for f args t
    using sd_writeFormatted_ext[OF assms(1) that] by metis
  show ?thesis
  proof (cases v)
    case (VView s)
    with assms(2) have "to_signed 32 (int (length s)) = int (length s)"
      by (intro to_signed_id) auto
    moreover have "take (length s) (cstr s) = cstr s"
      by (simp add: cstr_def length_takeWhile_le)
    ultimately show ?thesis using VView by (auto intro!: ext)
  qed (cases hex; auto intro!: ext simp: writeInt_signed_def writeInt_unsigned_def
      int_value_text_def int_conv_ids split: option.splits)+
qed

lemma sd_write_disabled [simp]: "sd_write False hex v d = Some d"
  by (cases v) (simp_all add: writeInt_signed_def writeInt_unsigned_def)

section \<open>Text of the default prefix and suffix\<close>

definition zero_padded :: "nat \<Rightarrow> int \<Rightarrow> string" where
  "zero_padded w x = (let sign = (if x < 0 then ''-'' else [])
     in sign @ pad_left (w - length sign) (CHR ''0'') (radix 10 (nat \<bar>x\<bar>)))"

definition prefix_text :: "int \<Rightarrow> string \<Rightarrow> LogLevel \<Rightarrow> string" where
  "prefix_text elapsed ident level =
     (let (seconds, milliseconds) = getCurrentTime elapsed
      in zero_padded 5 (to_signed 32 seconds) @ ''.'' @ zero_padded 3 (to_signed 32 milliseconds) @
         '' | '' @ pad_left 4 (CHR '' '') (take 4 (cstr ident)) @ '' ['' @
         getLogLevelString level @ ''] '')"

definition location_text :: "LogInfo \<Rightarrow> string" where
  "location_text li = '' | '' @ cstr (fst (getFileName li)) @ '':'' @
     dec_text (to_signed 32 (m_lineNumber li)) @ '' ''"

fun thread_text :: "(int \<times> string) option \<Rightarrow> string" where
  "thread_text None = []"
| "thread_text (Some (ident, name)) =
     ''| '' @ int_text \<lparr>fs_zero = False, fs_width = 0, fs_prec = Some 2, fs_bits = 32\<rparr>
        (to_signed 32 ident < 0) (radix 10 (nat \<bar>to_signed 32 ident\<bar>)) @ '' / '' @ cstr name @ '' ''"

definition suffix_text :: "(int \<times> string) option \<Rightarrow> LogInfo \<Rightarrow> string" where
  "suffix_text thread li = location_text li @ thread_text thread"

lemma nul_free_zero_padded [simp]: "nul_free (zero_padded w x)"
  by (simp add: zero_padded_def Let_def)

lemma nul_free_level_string [simp]: "nul_free (getLogLevelString l)"
  by (cases l) auto

lemma nul_free_int_text [simp]: "nul_free ds \<Longrightarrow> nul_free (int_text sp neg ds)"
  by (auto simp: int_text_def Let_def split: option.splits)

lemma nul_free_default_texts [simp]:
  "nul_free (prefix_text e i l)" "nul_free (location_text li)" "nul_free (thread_text th)"
  "nul_free (suffix_text th li)"
proof -
  show loc: "nul_free (location_text li)" by (simp add: location_text_def)
  show thr: "nul_free (thread_text th)" by (cases th rule: thread_text.cases) auto
  show "nul_free (suffix_text th li)" using loc thr by (simp add: suffix_text_def)
  show "nul_free (prefix_text e i l)"
    by (simp add: prefix_text_def nul_free_take split: prod.split)
qed

lemma c_format_DEFAULT_PREFIX:
  "c_format DEFAULT_PREFIX [AInt s, AInt ms, AStr i, AStr l] =
     Some (zero_padded 5 (to_signed 32 s) @ ''.'' @ zero_padded 3 (to_signed 32 ms) @ '' | '' @
       pad_left 4 (CHR '' '') (take 4 (cstr i)) @ '' ['' @ cstr l @ ''] '')"
  by (simp add: DEFAULT_PREFIX_def c_format.simps parse_spec_def conv_text_def is_digit_def
      char_digit_def int_text_def zero_padded_def Let_def) (simp add: pad_left_def)

lemma c_format_DEFAULT_SUFFIX:
  "c_format DEFAULT_SUFFIX [AStr f, AStr fn, AInt n] =
     Some ('' | '' @ cstr f @ '':'' @ dec_text (to_signed 32 n) @ '' '')"
  by (simp add: DEFAULT_SUFFIX_def c_format.simps parse_spec_def conv_text_def is_digit_def
      char_digit_def int_text_def dec_text_def Let_def pad_left_def)

lemma c_format_DEFAULT_THREAD_NAME_SUFFIX:
  "c_format DEFAULT_THREAD_NAME_SUFFIX [AInt i, AStr n] = Some (thread_text (Some (i, n)))"
  by (simp add: DEFAULT_THREAD_NAME_SUFFIX_def c_format.simps parse_spec_def conv_text_def
      is_digit_def char_digit_def Let_def) (simp add: pad_left_def numeral_2_eq_2)

definition default_formats :: "'z stream_data_scheme \<Rightarrow> bool" where
  "default_formats d \<longleftrightarrow> m_prefixFormat d = DEFAULT_PREFIX \<and> m_suffixFormat d = DEFAULT_SUFFIX \<and>
     m_suffixThreadNameFormat d = DEFAULT_THREAD_NAME_SUFFIX"

lemma line_ext_default_formats: "line_ext d t d' \<Longrightarrow> default_formats d' = default_formats d"
  by (simp add: default_formats_def line_ext_sel)

lemma sd_writePrefix_ext:
  assumes "sd_inv d" and "default_formats d"
  obtains d' where "sd_writePrefix True elapsed ident level d = Some d'"
    "line_ext d (prefix_text elapsed ident level) d'"
proof -
  obtain s ms where t: "getCurrentTime elapsed = (s, ms)" by force
  have "c_format (m_prefixFormat d) [AInt s, AInt ms, AStr ident, AStr (getLogLevelString level)]
      = Some (prefix_text elapsed ident level)"
    using assms(2) t by (simp add: default_formats_def c_format_DEFAULT_PREFIX prefix_text_def)
  then show thesis
    using that t by (auto simp: sd_writePrefix_def elim: sd_writeFormatted_ext[OF assms(1)])
qed

lemma getFileName_frame [simp]:
  "m_prettyFunction (snd (getFileName li)) = m_prettyFunction li"
  "m_lineNumber (snd (getFileName li)) = m_lineNumber li"
  "m_level (snd (getFileName li)) = m_level li"
  "m_hexEnabled (snd (getFileName li)) = m_hexEnabled li"
  "m_longFileName (snd (getFileName li)) = m_longFileName li"
  "fst (getFileName (snd (getFileName li))) = fst (getFileName li)"
  by (auto simp: getFileName_def Let_def split: option.splits)

lemma getSuffix_ok:
  assumes "default_formats d" and "length junk = STATIC_SIZE"
  obtains a where "getSuffix junk thread li d = Some (a, snd (getFileName li))" "ba_inv a"
    "ba_content a = suffix_text thread li" "c_string (getData a) = Some (suffix_text thread li)"
proof -
  let ?args = "[AStr (fst (getFileName li)), AStr (m_prettyFunction li), AInt (m_lineNumber li)]"
  have "c_format (m_suffixFormat d) ?args = Some (location_text li)"
    using assms(1) by (simp add: default_formats_def c_format_DEFAULT_SUFFIX location_text_def)
  with ba_new_inv[OF assms(2)] obtain a where a:
    "ba_writeFormatted (m_suffixFormat d) ?args (ba_new junk) = Some a" "ba_inv a"
    "ba_content a = location_text li" "take (Suc (ba_size a)) (getData a) = ba_content a @ [NUL]"
    by (auto simp: buf_simps elim: ba_writeFormatted_ok)
  show thesis
  proof (cases thread)
    case None
    with a show thesis
      using ba_written_c_string[OF a(2)]
      by (intro that[of a]) (auto simp: getSuffix_def case_prod_beta suffix_text_def)
  next
    case (Some th)
    obtain i n where th: "thread = Some (i, n)" using Some by (cases th) auto
    have "c_format (m_suffixThreadNameFormat d) [AInt i, AStr n] = Some (thread_text thread)"
      using assms(1) th by (simp add: default_formats_def c_format_DEFAULT_THREAD_NAME_SUFFIX)
    with a(2) obtain b where b:
      "ba_writeFormatted (m_suffixThreadNameFormat d) [AInt i, AStr n] a = Some b" "ba_inv b"
      "ba_content b = ba_content a @ thread_text thread"
      "take (Suc (ba_size b)) (getData b) = ba_content b @ [NUL]"
      by (auto elim: ba_writeFormatted_ok)
    with a th show thesis
      using ba_written_c_string[OF b(2)]
      by (intro that[of b]) (auto simp: getSuffix_def case_prod_beta suffix_text_def)
  qed
qed

section \<open>Flushing\<close>

text \<open>Whatever \<open>writeSuffix\<close> added, the line is handed over whole.\<close>

lemma sd_flushLog_ok:
  assumes "writeSuffix d li = Some (d', li')" and "sd_inv d'"
    and "length (sd_text d') < SIZE_MAX"
  shows "sd_flushLog True writeSuffix li d = Some (Some (sd_text d'), li')"
proof -
  let ?b = "m_content d'"
  let ?r = "ba_resize (ba_size ?b + 1) ?b"
  have inv: "ba_inv ?b" and free: "nul_free (ba_content ?b)"
    using assms(2) by (auto simp: sd_inv_def sd_text_def)
  have r: "ba_inv ?r" "ba_size ?r = ba_size ?b + 1"
    using inv by (simp_all add: ba_resize_inv ba_resize_size)
  have "ba_size ?b < SIZE_MAX"
    using assms(3) inv by (simp add: sd_text_def buf_simps)
  then have "ba_size ?b < m_length ?r"
    using r by (auto simp: ba_inv_def ba_size_def split: option.splits)
  then have idx: "ba_index_set (ba_size ?r - 1) NUL ?r = Some (ba_put (ba_size ?b) [NUL] ?r)"
    using r(2) by (simp add: ba_index_set_def)
  have "take (Suc (ba_size ?b)) (getData (ba_put (ba_size ?b) [NUL] ?r)) = ba_content ?b @ [NUL]"
    using ba.extend_mem[OF inv, of "[NUL]"] by (simp add: ba_content_def)
  then have "c_string (getData (ba_put (ba_size ?b) [NUL] ?r)) = Some (ba_content ?b)"
    using free inv by (intro c_string_prefix) (simp_all add: buf_simps)
  then show ?thesis
    using assms(1) idx by (simp add: sd_flushLog_def Let_def sd_text_def)
qed

section \<open>Sequences of calls\<close>

text \<open>A call a client makes on a back end: a value, with the state of the hexadecimal switch, or a
  format with its arguments. \<open>op_text\<close> is the text it stands for, \<open>None\<close> where it has no meaning.\<close>

datatype log_op = OpWrite bool log_value | OpFormatted string "c_arg list"

fun sd_do :: "bool \<Rightarrow> log_op \<Rightarrow> 'z stream_data_scheme \<Rightarrow> 'z stream_data_scheme option" where
  "sd_do en (OpWrite hex v) d = sd_write en hex v d"
| "sd_do en (OpFormatted f args) d = sd_writeFormatted en f args d"

fun op_text :: "log_op \<Rightarrow> string option" where
  "op_text (OpWrite hex v) = (if value_ok v then Some (value_text hex v) else None)"
| "op_text (OpFormatted f args) = (if nul_free f then c_format f args else None)"

fun op_texts :: "log_op list \<Rightarrow> string option" where
  "op_texts [] = Some []"
| "op_texts (op # ops) = do { t \<leftarrow> op_text op; u \<leftarrow> op_texts ops; Some (t @ u) }"

lemma sd_do_ext:
  assumes "sd_inv d" and "op_text op = Some t"
  shows "\<exists>d'. sd_do True op d = Some d' \<and> line_ext d t d'"
proof (cases op)
  case (OpWrite hex v)
  with assms sd_write_ext[OF assms(1), of v hex] show ?thesis by (auto split: if_splits)
next
  case (OpFormatted f args)
  with assms(2) have "c_format f args = Some t" "nul_free t"
    using c_format_nul_free by (auto split: if_splits)
  with sd_writeFormatted_ext[OF assms(1) this] OpFormatted show ?thesis by auto
qed

end
