(* ===== verification/Console_Log.thy ===== *)
theory Console_Log
  imports Stream_Log
begin

text \<open>
  The console back end: \<open>ConsoleLogContext\<close> and \<open>ConsoleLogData\<close> of
  \<open>include/ivi-logging-console.h\<close>, the constructor of the context from \<open>src/ivi-logging.cpp\<close>.
  The class hierarchy is record extension. \<open>winsize\<close> is the column count the \<open>TIOCGWINSZ\<close>
  request returned, \<open>None\<close> when it failed.
\<close>

section \<open>Context\<close>

record console_globals =
  s_defaultLogLevel :: LogLevel
  s_envVarCheckDone :: bool

definition console_globals_init :: console_globals where
  "console_globals_init = \<lparr>s_defaultLogLevel = LvDebug, s_envVarCheckDone = False\<rparr>"

record console_ctx = stream_ctx +
  m_colorSupport :: bool

definition getConsoleWidth :: "16 word option \<Rightarrow> int" where
  "getConsoleWidth winsize = (case winsize of Some w \<Rightarrow> uint w | None \<Rightarrow> 0)"

definition c_tolower :: "char \<Rightarrow> char" where
  "c_tolower c = (let k = (of_char c :: nat) in if 65 \<le> k \<and> k \<le> 90 then char_of (k + 32) else c)"

definition logLevelStrings :: "(LogLevel \<times> string) list" where
  "logLevelStrings = [(LvNone, ''none''), (LvFatal, ''fatal''), (LvError, ''error''),
     (LvWarning, ''warning''), (LvInfo, ''info''), (LvDebug, ''debug''), (LvVerbose, ''verbose'')]"

fun match_levels :: "(LogLevel \<times> string) list \<Rightarrow> string \<Rightarrow> LogLevel \<Rightarrow> LogLevel" where
  "match_levels [] levelString l = l"
| "match_levels ((lv, name) # es) levelString l =
     match_levels es levelString (if levelString = name then lv else l)"

definition console_env_check :: "platform \<Rightarrow> console_globals \<Rightarrow> console_globals" where
  "console_env_check os g = (if \<not> s_envVarCheckDone g then
     (let g = (if \<not> readEnvVarAsBool os ''LOGGING_ENABLE_CONSOLE'' True
               then g\<lparr>s_defaultLogLevel := LvNone\<rparr>
               else case getenv os ''LOGGING_CONSOLE_LOGLEVEL'' of
                 None \<Rightarrow> g
               | Some logLevelEnv \<Rightarrow>
                   let levelString = map c_tolower logLevelEnv
                   in g\<lparr>s_defaultLogLevel :=
                         match_levels logLevelStrings levelString (s_defaultLogLevel g)\<rparr>)
      in g\<lparr>s_envVarCheckDone := True\<rparr>)
     else g)"

definition ConsoleLogContext_ctor :: "platform \<Rightarrow> 16 word option \<Rightarrow> LogContextCommon \<Rightarrow>
    console_globals \<Rightarrow> console_ctx \<times> console_globals" where
  "ConsoleLogContext_ctor os winsize parent g =
     (let g = console_env_check os g
      in (\<lparr>sc_context = parent, sc_level = s_defaultLogLevel g,
           m_colorSupport = (getConsoleWidth winsize \<noteq> 0)\<rparr>, g))"

definition setGlobalLogLevel :: "LogLevel \<Rightarrow> console_globals \<Rightarrow> console_globals" where
  "setGlobalLogLevel level g = g\<lparr>s_defaultLogLevel := level\<rparr>"

definition console_isEnabled :: "console_globals \<Rightarrow> console_ctx \<Rightarrow> LogLevel \<Rightarrow> bool" where
  "console_isEnabled g c level \<longleftrightarrow> stream_isEnabled c level \<and> level \<le> s_defaultLogLevel g"

datatype out_file = Stdout | Stderr

definition console_getFile :: "LogInfo \<Rightarrow> out_file" where
  "console_getFile li = (if m_level li = LvError then Stderr else Stdout)"

section \<open>Line\<close>

record console_data = stream_data +
  m_invisibleCharacterCount :: int

definition console_data_new :: "mem \<Rightarrow> console_data" where
  "console_data_new junk = \<lparr>m_content = ba_new junk, m_prefixFormat = DEFAULT_PREFIX,
     m_suffixFormat = DEFAULT_SUFFIX, m_suffixThreadNameFormat = DEFAULT_THREAD_NAME_SUFFIX,
     m_invisibleCharacterCount = 0\<rparr>"

definition ANSI_COLOR_OFF :: string where "ANSI_COLOR_OFF = ESC # ''[0m''"
definition ANSI_COLOR_RED :: string where "ANSI_COLOR_RED = ESC # ''[31m''"
definition ANSI_COLOR_GREEN :: string where "ANSI_COLOR_GREEN = ESC # ''[32m''"
definition ANSI_COLOR_MAGENTA :: string where "ANSI_COLOR_MAGENTA = ESC # ''[35m''"
definition ANSI_COLOR_BRIGHT :: string where "ANSI_COLOR_BRIGHT = ESC # ''[1m''"
definition ANSI_RESET_BRIGHT :: string where "ANSI_RESET_BRIGHT = ESC # ''[0m''"

definition DEFAULT_WIDTH :: int where "DEFAULT_WIDTH = 150"

fun header_color :: "LogLevel \<Rightarrow> string" where
  "header_color LvWarning = ANSI_COLOR_MAGENTA"
| "header_color LvError = ANSI_COLOR_RED @ ANSI_COLOR_BRIGHT"
| "header_color LvFatal = ANSI_COLOR_RED @ ANSI_COLOR_BRIGHT"
| "header_color LvVerbose = ANSI_COLOR_GREEN"
| "header_color _ = ANSI_COLOR_OFF"

definition write_invisible :: "bool \<Rightarrow> string \<Rightarrow> console_data \<Rightarrow> console_data option" where
  "write_invisible en s d = do {
     d \<leftarrow> sd_write en False (VString s) d;
     Some (d\<lparr>m_invisibleCharacterCount :=
               to_signed 32 (m_invisibleCharacterCount d + int (length s))\<rparr>) }"

definition writeHeaderColor :: "bool \<Rightarrow> console_ctx \<Rightarrow> LogLevel \<Rightarrow> console_data \<Rightarrow> console_data option" where
  "writeHeaderColor en c level d =
     (if \<not> m_colorSupport c then Some d else write_invisible en (header_color level) d)"

definition resetColor :: "bool \<Rightarrow> console_ctx \<Rightarrow> console_data \<Rightarrow> console_data option" where
  "resetColor en c d =
     (if \<not> m_colorSupport c then Some d
      else write_invisible en (ANSI_COLOR_OFF @ ANSI_RESET_BRIGHT) d)"

definition console_writePrefix :: "bool \<Rightarrow> console_ctx \<Rightarrow> int \<Rightarrow> LogLevel \<Rightarrow>
    console_data \<Rightarrow> console_data option" where
  "console_writePrefix en c elapsed level d = do {
     d \<leftarrow> writeHeaderColor en c level d;
     d \<leftarrow> sd_writePrefix en elapsed (getShortID c) level d;
     resetColor en c d }"

fun pad_loop :: "bool \<Rightarrow> nat \<Rightarrow> console_data \<Rightarrow> console_data option" where
  "pad_loop en 0 d = Some d"
| "pad_loop en (Suc n) d = do { d \<leftarrow> sd_writeFormatted en '' '' [] d; pad_loop en n d }"

text \<open>
  The middle of \<open>writeSuffix\<close>: fill the line up so that a suffix of \<open>suffixSize\<close> characters ends
  at the right edge, on the next line when it does not fit. The width is an \<open>int\<close>, the number of
  characters used a \<open>size_t\<close>.
\<close>

definition pad_to_suffix :: "bool \<Rightarrow> 16 word option \<Rightarrow> nat \<Rightarrow> console_data \<Rightarrow> console_data option" where
  "pad_to_suffix en winsize suffixSize d = do {
     let width = getConsoleWidth winsize;
     let width = (if width = 0 then DEFAULT_WIDTH else width);
     let used = (int (ba_size (m_content d)) + int suffixSize
                   - m_invisibleCharacterCount d) mod 2 ^ 64;
     let width = to_signed 32 ((width - used) mod 2 ^ 64);
     (d, width) \<leftarrow>
       (if width < 0 then do {
          d \<leftarrow> sd_writeFormatted en [LF] [] d;
          Some (d, to_signed 32 (getConsoleWidth winsize - to_signed 32 (int suffixSize))) }
        else Some (d, width));
     pad_loop en (nat width) d }"

definition console_writeSuffix :: "bool \<Rightarrow> console_ctx \<Rightarrow> 16 word option \<Rightarrow> mem \<Rightarrow>
    (int \<times> string) option \<Rightarrow> console_data \<Rightarrow> LogInfo \<Rightarrow> (console_data \<times> LogInfo) option" where
  "console_writeSuffix en c winsize junk thread d li = do {
     d \<leftarrow> writeHeaderColor en c (m_level li) d;
     (suffixArray, li) \<leftarrow> getSuffix junk thread li d;
     suffixArray \<leftarrow> ba_writeFormatted [LF] [] suffixArray;
     d \<leftarrow> pad_to_suffix en winsize (ba_size suffixArray) d;
     s \<leftarrow> c_string (getData suffixArray);
     d \<leftarrow> sd_writeFormatted en ''%s'' [AStr s] d;
     d \<leftarrow> resetColor en c d;
     Some (d, li) }"

definition console_init :: "bool \<Rightarrow> console_ctx \<Rightarrow> int \<Rightarrow> LogInfo \<Rightarrow>
    console_data \<Rightarrow> console_data option" where
  "console_init en c elapsed li d = sd_init en (console_writePrefix en c elapsed (m_level li)) d"

definition console_flush :: "bool \<Rightarrow> console_ctx \<Rightarrow> 16 word option \<Rightarrow> mem \<Rightarrow>
    (int \<times> string) option \<Rightarrow> LogInfo \<Rightarrow> console_data \<Rightarrow>
    ((out_file \<times> string) option \<times> LogInfo) option" where
  "console_flush en c winsize junk thread li d = do {
     (out, li') \<leftarrow> sd_flushLog en (console_writeSuffix en c winsize junk thread) li d;
     Some (map_option (Pair (console_getFile li)) out, li') }"

section \<open>Effect of the steps\<close>

definition color_text :: "console_ctx \<Rightarrow> string \<Rightarrow> string" where
  "color_text c s = (if m_colorSupport c then s else [])"

definition reset_text :: "console_ctx \<Rightarrow> string" where
  "reset_text c = color_text c (ANSI_COLOR_OFF @ ANSI_RESET_BRIGHT)"

lemmas ansi_defs = ANSI_COLOR_OFF_def ANSI_COLOR_RED_def ANSI_COLOR_GREEN_def
  ANSI_COLOR_MAGENTA_def ANSI_COLOR_BRIGHT_def ANSI_RESET_BRIGHT_def

lemma nul_free_header_color [simp]: "nul_free (header_color l)"
  by (cases l) (auto simp: ansi_defs)

lemma nul_free_reset: "nul_free (ANSI_COLOR_OFF @ ANSI_RESET_BRIGHT)"
  by (simp add: ansi_defs)

text \<open>
  \<open>console_ext d t k d'\<close>: the line grew by \<open>t\<close>, of which \<open>k\<close> characters are invisible.
\<close>

definition console_ext :: "console_data \<Rightarrow> string \<Rightarrow> nat \<Rightarrow> console_data \<Rightarrow> bool" where
  "console_ext d t k d' \<longleftrightarrow> sd_inv d' \<and> sd_text d' = sd_text d @ t \<and>
     default_formats d' = default_formats d \<and>
     m_invisibleCharacterCount d' = m_invisibleCharacterCount d + int k"

lemma console_ext_refl: "sd_inv d \<Longrightarrow> console_ext d [] 0 d"
  by (simp add: console_ext_def)

lemma console_ext_trans:
  "console_ext d t k d' \<Longrightarrow> console_ext d' u j d'' \<Longrightarrow> console_ext d (t @ u) (k + j) d''"
  by (simp add: console_ext_def)

lemma line_ext_console:
  assumes "line_ext d t d'"
  shows "console_ext d t 0 (d' :: console_data)"
proof -
  have "m_invisibleCharacterCount d' = m_invisibleCharacterCount d"
    using line_ext_sel(6)[OF assms] by (cases d; cases d') simp
  then show ?thesis
    using assms by (simp add: console_ext_def line_ext_sel line_ext_default_formats)
qed

lemma console_write_ext:
  assumes "sd_inv d" and "c_format f args = Some t" and "nul_free t"
  obtains d' where "sd_writeFormatted True f args d = Some d'" "console_ext d t 0 d'"
  using sd_writeFormatted_ext[OF assms] line_ext_console by metis

text \<open>The count of invisible characters stays far below the width of \<open>int\<close>.\<close>

definition count_ok :: "console_data \<Rightarrow> bool" where
  "count_ok d \<longleftrightarrow> 0 \<le> m_invisibleCharacterCount d \<and> m_invisibleCharacterCount d < 1000"

lemma write_invisible_ext:
  assumes "sd_inv d" and "count_ok d" and "nul_free s" and "length s < 1000"
  obtains d' where "write_invisible True s d = Some d'" "console_ext d s (length s) d'"
proof -
  from sd_write_ext[OF assms(1), of "VString s" False] assms(3) obtain d1 where
    d1: "sd_write True False (VString s) d = Some d1" "line_ext d s d1"
    by auto
  have "to_signed 32 (m_invisibleCharacterCount d1 + int (length s))
      = m_invisibleCharacterCount d + int (length s)"
    using line_ext_console[OF d1(2)] assms(2,4)
    by (subst to_signed_id) (auto simp: console_ext_def count_ok_def)
  with d1 line_ext_console[OF d1(2)] show thesis
    by (intro that[of "d1\<lparr>m_invisibleCharacterCount := m_invisibleCharacterCount d + int (length s)\<rparr>"])
       (auto simp: write_invisible_def console_ext_def sd_inv_def sd_text_def default_formats_def)
qed

lemma length_header_color: "length (header_color l) \<le> 9"
  by (cases l) (auto simp: ansi_defs)

lemma writeHeaderColor_ext:
  assumes "sd_inv d" and "count_ok d"
  obtains d' where "writeHeaderColor True c l d = Some d'"
    "console_ext d (color_text c (header_color l)) (length (color_text c (header_color l))) d'"
proof (cases "m_colorSupport c")
  case True
  have "length (header_color l) < 1000" using length_header_color[of l] by simp
  from write_invisible_ext[OF assms nul_free_header_color this] True show thesis
    using that by (auto simp: writeHeaderColor_def color_text_def)
next
  case False
  with assms that[of d] show thesis
    by (simp add: writeHeaderColor_def color_text_def console_ext_refl)
qed

lemma resetColor_ext:
  assumes "sd_inv d" and "count_ok d"
  obtains d' where "resetColor True c d = Some d'"
    "console_ext d (reset_text c) (length (reset_text c)) d'"
proof (cases "m_colorSupport c")
  case True
  have "length (ANSI_COLOR_OFF @ ANSI_RESET_BRIGHT) < 1000" by (simp add: ansi_defs)
  from write_invisible_ext[OF assms nul_free_reset this] True show thesis
    using that by (auto simp: resetColor_def color_text_def reset_text_def)
next
  case False
  with assms that[of d] show thesis
    by (simp add: resetColor_def reset_text_def color_text_def console_ext_refl)
qed

lemma pad_loop_ext:
  assumes "sd_inv d"
  shows "\<exists>d'. pad_loop True n d = Some d' \<and> console_ext d (replicate n (CHR '' '')) 0 d'"
  using assms
proof (induction n arbitrary: d)
  case (Suc n)
  have "c_format '' '' [] = Some '' ''" by (rule c_format_plain) simp
  from console_write_ext[OF Suc.prems this] obtain d1 where
    d1: "sd_writeFormatted True '' '' [] d = Some d1" "console_ext d '' '' 0 d1" by auto
  then have "sd_inv d1" by (simp add: console_ext_def)
  from Suc.IH[OF this] d1 show ?case
    by (auto dest: console_ext_trans)
qed (simp add: console_ext_refl)

section \<open>The layout of a console line\<close>

text \<open>
  The reference layout: the suffix is moved to the right edge of the console when it fits behind
  the text, and to the right edge of the next line otherwise.
\<close>

definition gap_text :: "int \<Rightarrow> int \<Rightarrow> int \<Rightarrow> string" where
  "gap_text columns visible suffixSize =
     (let gap = (if columns = 0 then DEFAULT_WIDTH else columns) - visible - suffixSize
      in if 0 \<le> gap then replicate (nat gap) (CHR '' '')
         else LF # replicate (nat (columns - suffixSize)) (CHR '' ''))"

definition console_suffix_text :: "console_ctx \<Rightarrow> int \<Rightarrow> LogLevel \<Rightarrow> int \<Rightarrow> string \<Rightarrow> string" where
  "console_suffix_text c columns level visible suffix =
     color_text c (header_color level) @
     gap_text columns visible (int (length (suffix @ [LF]))) @ suffix @ [LF] @ reset_text c"

definition visible_length :: "console_data \<Rightarrow> int" where
  "visible_length d = int (length (sd_text d)) - m_invisibleCharacterCount d"

lemma getConsoleWidth_range: "0 \<le> getConsoleWidth w \<and> getConsoleWidth w < 65536"
proof (cases w)
  case (Some x)
  then show ?thesis using uint_lt2p[of x] by (simp add: getConsoleWidth_def)
qed (simp add: getConsoleWidth_def)

lemma remaining_width:
  assumes "0 \<le> W" "W < 65536" "\<bar>used\<bar> < 2 ^ 31 - 65536"
  shows "to_signed 32 ((W - used mod 2 ^ 64) mod 2 ^ 64) = W - used"
proof -
  have "to_signed 32 ((W - used mod 2 ^ 64) mod 2 ^ 64) = to_signed 32 ((W - used) mod 2 ^ 64)"
    by (simp only: mod_diff_right_eq)
  also have "\<dots> = to_signed 32 (W - used)"
    by (rule to_signed_mod) simp
  also have "\<dots> = W - used"
    using assms by (intro to_signed_id) auto
  finally show ?thesis .
qed

lemma suffix_array_newline:
  assumes "ba_inv a" and "nul_free (ba_content a)"
  obtains b where "ba_writeFormatted [LF] [] a = Some b" "ba_size b = ba_size a + 1"
    "c_string (getData b) = Some (ba_content a @ [LF])"
proof -
  have "c_format [LF] [] = Some [LF]" by (rule c_format_plain) simp
  from ba_writeFormatted_ok[OF assms(1) this] obtain b where
    b: "ba_writeFormatted [LF] [] a = Some b" "ba_inv b" "ba_content b = ba_content a @ [LF]"
      "ba_size b = ba_size a + length [LF]"
      "take (Suc (ba_size b)) (getData b) = ba_content b @ [NUL]"
    by blast
  with assms ba_written_c_string[OF b(2)] show thesis by (intro that[of b]) auto
qed

lemma pad_to_suffix_ext:
  assumes "sd_inv d" and "\<bar>visible_length d\<bar> < 2 ^ 30 + 2 ^ 29" and "k < 2 ^ 28"
  obtains d' where "pad_to_suffix True ws k d = Some d'"
    "console_ext d (gap_text (getConsoleWidth ws) (visible_length d) (int k)) 0 d'"
proof -
  let ?cw = "getConsoleWidth ws"
  let ?W = "if ?cw = 0 then DEFAULT_WIDTH else ?cw"
  let ?gap = "?W - (visible_length d + int k)"
  have cw: "0 \<le> ?cw" "?cw < 65536" using getConsoleWidth_range[of ws] by auto
  have used: "int (ba_size (m_content d)) + int k - m_invisibleCharacterCount d
      = visible_length d + int k"
    using assms(1) by (simp add: visible_length_def sd_text_def sd_inv_def buf_simps)
  have gap: "to_signed 32 ((?W - (visible_length d + int k) mod 2 ^ 64) mod 2 ^ 64) = ?gap"
    using cw assms(2,3) by (intro remaining_width) (auto simp: DEFAULT_WIDTH_def)
  have next_gap: "to_signed 32 (?cw - to_signed 32 (int k)) = ?cw - int k"
  proof -
    have "to_signed 32 (int k) = int k" using assms(3) by (intro to_signed_id) auto
    then show ?thesis using assms(3) cw by (simp only:) (intro to_signed_id, auto)
  qed
  have eq: "pad_to_suffix True ws k d =
      (if ?gap < 0 then sd_writeFormatted True [LF] [] d \<bind> pad_loop True (nat (?cw - int k))
       else pad_loop True (nat ?gap) d)"
    unfolding pad_to_suffix_def Let_def used gap next_gap by simp
  show thesis
  proof (cases "?gap < 0")
    case True
    have "c_format [LF] [] = Some [LF]" by (rule c_format_plain) simp
    from console_write_ext[OF assms(1) this] obtain dl where
      dl: "sd_writeFormatted True [LF] [] d = Some dl" "console_ext d [LF] 0 dl" by auto
    then have "sd_inv dl" by (simp add: console_ext_def)
    from pad_loop_ext[OF this, of "nat (?cw - int k)"] dl True show thesis
      using that console_ext_trans[OF dl(2)] unfolding eq by (fastforce simp: gap_text_def Let_def)
  next
    case False
    with pad_loop_ext[OF assms(1), of "nat ?gap"] show thesis
      using that unfolding eq by (auto simp: gap_text_def Let_def algebra_simps)
  qed
qed

lemma console_writeSuffix_ok:
  assumes d: "sd_inv d" "default_formats d" "0 \<le> m_invisibleCharacterCount d"
      "m_invisibleCharacterCount d < 900"
    and junk: "length junk = STATIC_SIZE"
    and small: "length (sd_text d) < 2 ^ 30" "length (suffix_text thread li) < 2 ^ 27"
  obtains d' where
    "console_writeSuffix True c ws junk thread d li = Some (d', snd (getFileName li))"
    "sd_inv d'"
    "sd_text d' = sd_text d @ console_suffix_text c (getConsoleWidth ws) (m_level li)
       (visible_length d) (suffix_text thread li)"
proof -
  let ?F = "color_text c (header_color (m_level li))" and ?S = "suffix_text thread li @ [LF]"
  have count: "count_ok d" using d by (simp add: count_ok_def)
  from writeHeaderColor_ext[OF d(1) count] obtain d1 where
    h: "writeHeaderColor True c (m_level li) d = Some d1" "console_ext d ?F (length ?F) d1"
    by blast
  then have d1: "sd_inv d1" "default_formats d1" "visible_length d1 = visible_length d"
    using d by (auto simp: console_ext_def visible_length_def)
  from getSuffix_ok[OF d1(2) junk] obtain a where
    a: "getSuffix junk thread li d1 = Some (a, snd (getFileName li))" "ba_inv a"
      "ba_content a = suffix_text thread li" by blast
  from suffix_array_newline[OF a(2)] a length_ba_content[OF a(2)] obtain b where
    b: "ba_writeFormatted [LF] [] a = Some b" "ba_size b = length ?S"
      "c_string (getData b) = Some ?S" by auto
  have "\<bar>visible_length d1\<bar> < 2 ^ 30 + 2 ^ 29" "ba_size b < 2 ^ 28"
    using small d d1(3) b(2) by (auto simp: visible_length_def)
  from pad_to_suffix_ext[OF d1(1) this] obtain d2 where
    d2: "pad_to_suffix True ws (ba_size b) d1 = Some d2"
      "console_ext d1 (gap_text (getConsoleWidth ws) (visible_length d1) (int (ba_size b))) 0 d2"
    by blast
  then have "sd_inv d2" by (simp add: console_ext_def)
  moreover have "c_format ''%s'' [AStr ?S] = Some ?S" by simp
  ultimately obtain d3 where
    d3: "sd_writeFormatted True ''%s'' [AStr ?S] d2 = Some d3" "console_ext d2 ?S 0 d3"
    using console_write_ext[of d2 "''%s''" "[AStr ?S]" ?S] by auto
  have "length ?F \<le> 9" using length_header_color by (simp add: color_text_def)
  with d h(2) d2(2) d3(2) have "count_ok d3" "sd_inv d3"
    by (auto simp: count_ok_def console_ext_def)
  then obtain d4 where
    d4: "resetColor True c d3 = Some d4" "console_ext d3 (reset_text c) (length (reset_text c)) d4"
    using resetColor_ext by blast
  have "console_writeSuffix True c ws junk thread d li = Some (d4, snd (getFileName li))"
    unfolding console_writeSuffix_def by (simp add: h(1) a(1) b(1,3) d2(1) d3(1) d4(1))
  moreover have "sd_inv d4" "sd_text d4 = sd_text d @ console_suffix_text c (getConsoleWidth ws)
      (m_level li) (visible_length d) (suffix_text thread li)"
    using h(2) d2(2) d3(2) d4(2) b(2) d1(3) by (auto simp: console_ext_def console_suffix_text_def)
  ultimately show thesis by (rule that)
qed

section \<open>From construction to output\<close>

definition console_header_text :: "console_ctx \<Rightarrow> int \<Rightarrow> LogLevel \<Rightarrow> string" where
  "console_header_text c elapsed level = color_text c (header_color level) @
     prefix_text elapsed (getShortID c) level @ reset_text c"

lemma console_init_ok:
  assumes "length junk = STATIC_SIZE"
  obtains d where "console_init True c elapsed li (console_data_new junk) = Some d" "sd_inv d"
    "default_formats d" "sd_text d = console_header_text c elapsed (m_level li)"
    "m_invisibleCharacterCount d =
       int (length (color_text c (header_color (m_level li))) + length (reset_text c))"
proof -
  let ?d = "console_data_new junk" and ?F = "color_text c (header_color (m_level li))"
  have d: "sd_inv ?d" "default_formats ?d" "count_ok ?d" "sd_text ?d = []"
    "m_invisibleCharacterCount ?d = 0"
    using assms by (simp_all add: sd_inv_def sd_text_def default_formats_def count_ok_def
        console_data_new_def buf_simps)
  from writeHeaderColor_ext[OF d(1,3)] obtain d1 where
    d1: "writeHeaderColor True c (m_level li) ?d = Some d1" "console_ext ?d ?F (length ?F) d1" by blast
  then have "sd_inv d1" "default_formats d1" using d by (auto simp: console_ext_def)
  from sd_writePrefix_ext[OF this] obtain d2 where
    d2: "sd_writePrefix True elapsed (getShortID c) (m_level li) d1 = Some d2"
      "line_ext d1 (prefix_text elapsed (getShortID c) (m_level li)) d2" by blast
  note e2 = line_ext_console[OF d2(2)]
  have "length ?F \<le> 9" using length_header_color by (simp add: color_text_def)
  with d d1(2) e2 have "sd_inv d2" "count_ok d2" by (auto simp: console_ext_def count_ok_def)
  from resetColor_ext[OF this] obtain d3 where
    d3: "resetColor True c d2 = Some d3" "console_ext d2 (reset_text c) (length (reset_text c)) d3"
    by blast
  from d d1 d2(1) d3 e2 show thesis
    by (intro that[of d3])
       (auto simp: console_init_def sd_init_def console_writePrefix_def console_ext_def
         console_header_text_def)
qed

lemma length_zero_padded:
  assumes "w \<le> 5"
  shows "length (zero_padded w (to_signed 32 x)) \<le> 11"
proof -
  have "- (2 ^ 31) \<le> to_signed 32 x" "to_signed 32 x < 2 ^ 31"
    using to_signed_range[of 32 x] by simp_all
  then have "nat \<bar>to_signed 32 x\<bar> < 10 ^ Suc 9" by simp
  then have "length (radix 10 (nat \<bar>to_signed 32 x\<bar>)) \<le> Suc 9" by (subst length_radix_le) auto
  then show ?thesis
    using assms by (cases "to_signed 32 x < 0"; simp add: zero_padded_def Let_def pad_left_def; arith)
qed

lemma length_level_string: "length (getLogLevelString l) = 7"
  by (cases l) simp_all

lemma length_prefix_text: "length (prefix_text elapsed ident level) \<le> 60"
proof -
  obtain s ms where t: "getCurrentTime elapsed = (s, ms)" by force
  have "length (pad_left 4 (CHR '' '') (take 4 (cstr ident))) \<le> 4"
    by (simp add: pad_left_def)
  then show ?thesis
    using length_zero_padded[of 5 s] length_zero_padded[of 3 ms] length_level_string[of level]
    by (simp add: prefix_text_def t)
qed

lemma length_console_header: "length (console_header_text c elapsed level) \<le> 100"
proof -
  have "length (color_text c (header_color level)) \<le> 9" "length (reset_text c) \<le> 8"
    using length_header_color[of level] by (simp_all add: color_text_def reset_text_def ansi_defs)
  then show ?thesis
    using length_prefix_text[of elapsed "getShortID c" level] by (simp add: console_header_text_def)
qed

lemma length_gap_text:
  assumes "0 \<le> columns" "columns < 65536" "- 900 \<le> visible" "0 \<le> k"
  shows "length (gap_text columns visible k) \<le> 70000"
  using assms by (auto simp: gap_text_def Let_def DEFAULT_WIDTH_def)

lemma length_console_suffix_text:
  assumes "- 900 \<le> visible"
  shows "length (console_suffix_text c (getConsoleWidth ws) level visible suffix)
    \<le> 71000 + length suffix"
proof -
  have "length (gap_text (getConsoleWidth ws) visible (int (length (suffix @ [LF])))) \<le> 70000"
    using getConsoleWidth_range[of ws] assms by (intro length_gap_text) auto
  moreover have "length (color_text c (header_color level)) \<le> 9" "length (reset_text c) \<le> 8"
    using length_header_color[of level] by (simp_all add: color_text_def reset_text_def ansi_defs)
  ultimately show ?thesis by (simp add: console_suffix_text_def)
qed

lemma console_flush_ok:
  assumes "sd_inv d" "default_formats d" "0 \<le> m_invisibleCharacterCount d"
      "m_invisibleCharacterCount d < 900" "length junk = STATIC_SIZE"
      "length (sd_text d) < 2 ^ 30" "length (suffix_text thread li) < 2 ^ 27"
  shows "console_flush True c ws junk thread li d =
    Some (Some (console_getFile li,
      sd_text d @ console_suffix_text c (getConsoleWidth ws) (m_level li) (visible_length d)
        (suffix_text thread li)), snd (getFileName li))"
proof -
  from console_writeSuffix_ok[OF assms] obtain d' where d':
    "console_writeSuffix True c ws junk thread d li = Some (d', snd (getFileName li))" "sd_inv d'"
    "sd_text d' = sd_text d @ console_suffix_text c (getConsoleWidth ws) (m_level li)
       (visible_length d) (suffix_text thread li)" by blast
  have "- 900 \<le> visible_length d" using assms(3,4) by (simp add: visible_length_def)
  then have "length (sd_text d') < SIZE_MAX"
    using assms(6,7) length_console_suffix_text[of "visible_length d" c ws "m_level li"
        "suffix_text thread li"] by (simp add: d'(3) SIZE_MAX_def)
  from sd_flushLog_ok[where writeSuffix = "console_writeSuffix True c ws junk thread",
      OF d'(1,2) this] d'(3)
  show ?thesis by (simp add: console_flush_def)
qed

section \<open>The level of the console\<close>

lemma match_levels_map_of:
  "distinct (map snd es) \<Longrightarrow> match_levels es s l =
     (case map_of (map (\<lambda>(lv, n). (n, lv)) es) s of Some lv \<Rightarrow> lv | None \<Rightarrow> l)"
proof (induction es arbitrary: l)
  case (Cons e es)
  obtain lv n where e: "e = (lv, n)" by (cases e)
  have "map_of (map (\<lambda>(lv, n). (n, lv)) es) n = None"
    using Cons.prems e by (auto simp: map_of_eq_None_iff case_prod_beta image_iff)
  with Cons e show ?case by (auto split: option.splits)
qed simp

definition level_named :: "string \<Rightarrow> LogLevel option" where
  "level_named s = map_of (map (\<lambda>(lv, n). (n, lv)) logLevelStrings) s"

text \<open>\<open>DefaultConsoleLogContext\<close>, which the configuration header offers as a variant.\<close>

definition DefaultConsoleLogContext_ctor :: "platform \<Rightarrow> 16 word option \<Rightarrow> LogContextCommon \<Rightarrow>
    console_globals \<Rightarrow> console_ctx \<times> console_globals" where
  "DefaultConsoleLogContext_ctor os winsize parent g =
     (let (c, g) = ConsoleLogContext_ctor os winsize parent g in (setLogLevel LvDebug c, g))"

text \<open>It cannot show more than \<open>ConsoleLogContext\<close>: an environment that asks for verbose messages is overruled.\<close>

lemma DefaultConsoleLogContext_enabled:
  "case (DefaultConsoleLogContext_ctor os ws parent g, ConsoleLogContext_ctor os ws parent g) of
     ((c, g1), (k, g2)) \<Rightarrow> g1 = g2 \<and> (console_isEnabled g1 c level \<longleftrightarrow> console_isEnabled g2 k level \<and> level \<le> LvDebug)"
  by (auto simp: DefaultConsoleLogContext_ctor_def ConsoleLogContext_ctor_def console_isEnabled_def
      stream_isEnabled_def getLogLevel_def setLogLevel_def Let_def)

section \<open>Properties\<close>

text \<open>
  C35. The environment decides the console's level once: the first context read it; a console
  switched off (\<open>LOGGING_ENABLE_CONSOLE\<close> set to anything but 1) shows nothing but the level
  \<open>None\<close>, otherwise a level named in any case in \<open>LOGGING_CONSOLE_LOGLEVEL\<close> is the most detailed one
  shown, an unknown name leaves the default (debug), and what the environment says later, when
  other contexts are constructed, has no effect.
\<close>

theorem console_level_from_environment:
  "case ConsoleLogContext_ctor os ws parent console_globals_init of (c, g) \<Rightarrow>
     (console_isEnabled g c level \<longleftrightarrow>
        level \<le> (if getenv os ''LOGGING_ENABLE_CONSOLE'' \<notin> {None, Some ''1''} then LvNone
          else case getenv os ''LOGGING_CONSOLE_LOGLEVEL'' of None \<Rightarrow> LvDebug
            | Some s \<Rightarrow> case level_named (map c_tolower s) of None \<Rightarrow> LvDebug | Some lv \<Rightarrow> lv)) \<and>
     snd (ConsoleLogContext_ctor os' ws' parent' g) = g \<and>
     sc_level (fst (ConsoleLogContext_ctor os' ws' parent' g)) = sc_level c"
proof -
  have d: "distinct (map snd logLevelStrings)" by (simp add: logLevelStrings_def)
  show ?thesis
    by (auto simp: ConsoleLogContext_ctor_def console_env_check_def console_globals_init_def
        readEnvVarAsBool_def console_isEnabled_def stream_isEnabled_def getLogLevel_def Let_def
        match_levels_map_of[OF d] level_named_def split: option.splits)
qed

end
