(* ===== verification/File_Log.thy ===== *)
theory File_Log
  imports Stream_Log
begin

text \<open>
  The file back end of \<open>include/ivi-logging-file.h\<close>: one file for all contexts of the process,
  opened by \<open>setFilePath\<close>; \<open>FileLogData\<close> flushes itself when it is destroyed. The record
  \<open>file_state\<close> is the function-local static \<open>FILE*\<close> and what has been written to it.
\<close>

record file_state =
  fs_file :: "string option"
  fs_text :: string

definition file_state_init :: file_state where
  "file_state_init = \<lparr>fs_file = None, fs_text = []\<rparr>"

text \<open>
  \<open>opened\<close> is whether \<open>fopen(fileName, "w")\<close> succeeds (the file is then empty); the result is
  \<open>None\<close> when the assertion at the end fails.
\<close>

definition setFilePath :: "bool \<Rightarrow> string \<Rightarrow> file_state \<Rightarrow> file_state option" where
  "setFilePath opened fileName st =
     (let st = (if fs_file st = None \<and> opened
                then st\<lparr>fs_file := Some fileName, fs_text := []\<rparr> else st)
      in if fs_file st \<noteq> None then Some st else None)"

definition openFile :: "bool \<Rightarrow> string \<Rightarrow> file_state \<Rightarrow> file_state option" where
  "openFile opened fileName st = setFilePath opened fileName st"

definition file_write :: "string \<Rightarrow> file_state \<Rightarrow> file_state" where
  "file_write s st = (if fs_file st \<noteq> None then st\<lparr>fs_text := fs_text st @ s\<rparr> else st)"

definition file_data_new :: "mem \<Rightarrow> stream_data" where
  "file_data_new junk = \<lparr>m_content = ba_new junk, m_prefixFormat = DEFAULT_PREFIX,
     m_suffixFormat = DEFAULT_SUFFIX, m_suffixThreadNameFormat = DEFAULT_THREAD_NAME_SUFFIX\<rparr>"

definition file_init :: "bool \<Rightarrow> stream_ctx \<Rightarrow> int \<Rightarrow> LogInfo \<Rightarrow> stream_data \<Rightarrow> stream_data option" where
  "file_init en c elapsed li d =
     sd_init en (sd_writePrefix en elapsed (getShortID c) (m_level li)) d"

definition file_flush :: "bool \<Rightarrow> mem \<Rightarrow> (int \<times> string) option \<Rightarrow> LogInfo \<Rightarrow> stream_data \<Rightarrow>
    file_state \<Rightarrow> (file_state \<times> LogInfo) option" where
  "file_flush en junk thread li d st = do {
     (out, li) \<leftarrow> sd_flushLog en (\<lambda>d li. sd_writeSuffix en junk thread li d) li d;
     Some (case out of None \<Rightarrow> st | Some s \<Rightarrow> file_write s st, li) }"

section \<open>Lemmas\<close>

lemma file_init_ok:
  assumes "length junk = STATIC_SIZE"
  obtains d where "file_init True c elapsed li (file_data_new junk) = Some d" "sd_inv d"
    "default_formats d" "sd_text d = prefix_text elapsed (getShortID c) (m_level li)"
proof -
  let ?d = "file_data_new junk"
  have d: "sd_inv ?d" "default_formats ?d" "sd_text ?d = []"
    using assms by (simp_all add: sd_inv_def sd_text_def default_formats_def file_data_new_def buf_simps)
  from sd_writePrefix_ext[OF d(1,2)] obtain d1 where
    d1: "sd_writePrefix True elapsed (getShortID c) (m_level li) ?d = Some d1"
      "line_ext ?d (prefix_text elapsed (getShortID c) (m_level li)) d1" by blast
  from d d1(1) line_ext_sel[OF d1(2)] line_ext_default_formats[OF d1(2)] show thesis
    by (intro that[of d1]) (simp_all add: file_init_def sd_init_def)
qed

text \<open>The suffix is used as a format, so a \<open>%\<close> in it decides whether the line is defined.\<close>

lemma file_flush_ok:
  assumes "sd_inv d" "default_formats d" "length junk = STATIC_SIZE"
    and "CHR ''%'' \<notin> set (suffix_text thread li)"
    and "length (sd_text d) + length (suffix_text thread li) < SIZE_MAX"
  shows "file_flush True junk thread li d st =
    Some (file_write (sd_text d @ suffix_text thread li) st, snd (getFileName li))"
proof -
  from getSuffix_ok[OF assms(2,3)] obtain a where
    a: "getSuffix junk thread li d = Some (a, snd (getFileName li))"
      "c_string (getData a) = Some (suffix_text thread li)" by blast
  have "c_format (suffix_text thread li) [] = Some (suffix_text thread li)"
    using assms(4) by (rule c_format_plain)
  from sd_writeFormatted_ext[OF assms(1) this] obtain d' where
    d': "sd_writeFormatted True (suffix_text thread li) [] d = Some d'"
      "line_ext d (suffix_text thread li) d'" by auto
  have "sd_writeSuffix True junk thread li d = Some (d', snd (getFileName li))"
    by (simp add: sd_writeSuffix_def a d'(1))
  from sd_flushLog_ok[where writeSuffix = "\<lambda>d li. sd_writeSuffix True junk thread li d", OF this]
    line_ext_sel[OF d'(2)] assms(5)
  show ?thesis by (simp add: file_flush_def)
qed

lemma file_flush_undefined:
  assumes "default_formats d" "length junk = STATIC_SIZE"
    and "c_format (suffix_text thread li) [] = None"
  shows "file_flush True junk thread li d st = None"
proof -
  from getSuffix_ok[OF assms(1,2)] obtain a where
    "getSuffix junk thread li d = Some (a, snd (getFileName li))"
    "c_string (getData a) = Some (suffix_text thread li)" by blast
  with assms(3) show ?thesis
    by (simp add: file_flush_def sd_flushLog_def sd_writeSuffix_def sd_writeFormatted_def
        ba_writeFormatted_def)
qed

end
