(* ===== verification/Line_Backend.thy ===== *)
theory Line_Backend
  imports Console_Log File_Log
begin

text \<open>
  The contract the two text back ends share: a line is started with a header, every call appends
  its text, and flushing delivers the whole of it with the suffix. The locale \<open>line_backend\<close> states
  it and proves what a log statement produces; \<open>console_line\<close> and \<open>file_line\<close> are its instances on
  the models of \<open>ConsoleLogData\<close> and \<open>FileLogData\<close>.
\<close>

section \<open>The contract\<close>

fun puts :: "(log_op \<Rightarrow> 'd \<Rightarrow> 'd option) \<Rightarrow> log_op list \<Rightarrow> 'd \<Rightarrow> 'd option" where
  "puts put [] d = Some d"
| "puts put (op # ops) d = put op d \<bind> puts put ops"

locale line_backend =
  fixes start :: "'p \<Rightarrow> 'd option"
    and put :: "'p \<Rightarrow> log_op \<Rightarrow> 'd \<Rightarrow> 'd option"
    and finish :: "'p \<Rightarrow> 'd \<Rightarrow> 'o option"
    and ok :: "'p \<Rightarrow> bool"
    and holds :: "'p \<Rightarrow> string \<Rightarrow> 'd \<Rightarrow> bool"
    and header :: "'p \<Rightarrow> string"
    and deliver :: "'p \<Rightarrow> string \<Rightarrow> 'o"
  assumes start_holds: "ok p \<Longrightarrow> \<exists>d. start p = Some d \<and> holds p (header p) d"
    and put_holds: "ok p \<Longrightarrow> holds p t d \<Longrightarrow> op_text op = Some u \<Longrightarrow>
          \<exists>d'. put p op d = Some d' \<and> holds p (t @ u) d'"
    and finish_delivers: "ok p \<Longrightarrow> holds p t d \<Longrightarrow> length t < 2 ^ 30 \<Longrightarrow> finish p d = Some (deliver p t)"
begin

lemma puts_holds:
  "ok p \<Longrightarrow> holds p t d \<Longrightarrow> op_texts ops = Some u \<Longrightarrow>
     \<exists>d'. puts (put p) ops d = Some d' \<and> holds p (t @ u) d'"
proof (induction ops arbitrary: t d u)
  case (Cons op ops)
  from Cons.prems(3) obtain v w where u: "op_text op = Some v" "op_texts ops = Some w" "u = v @ w"
    by (auto split: bind_splits)
  from put_holds[OF Cons.prems(1,2) u(1)] obtain d1 where "put p op d = Some d1" "holds p (t @ v) d1"
    by blast
  with Cons.IH[OF Cons.prems(1) _ u(2)] u(3) show ?case by fastforce
qed simp

lemma statement:
  assumes "ok p" and "op_texts ops = Some u" and "length (header p @ u) < 2 ^ 30"
  shows "(start p \<bind> puts (put p) ops \<bind> finish p) = Some (deliver p (header p @ u))"
proof -
  from start_holds[OF assms(1)] obtain d where d: "start p = Some d" "holds p (header p) d" by blast
  from puts_holds[OF assms(1) d(2) assms(2)] obtain d' where
    "puts (put p) ops d = Some d'" "holds p (header p @ u) d'" by blast
  with d finish_delivers[OF assms(1) _ assms(3)] show ?thesis by simp
qed

end

section \<open>Instances\<close>

text \<open>What a statement finds when it runs: the time, the terminal, the calling thread, the memory.\<close>

record line_env =
  le_elapsed :: int
  le_winsize :: "16 word option"
  le_thread :: "(int \<times> string) option"
  le_junk :: mem
  le_info :: LogInfo

definition line_env_ok :: "line_env \<Rightarrow> bool" where
  "line_env_ok e \<longleftrightarrow> length (le_junk e) = STATIC_SIZE \<and>
     length (suffix_text (le_thread e) (le_info e)) < 2 ^ 27"

definition console_start :: "console_ctx \<times> line_env \<Rightarrow> console_data option" where
  "console_start p = (case p of (c, e) \<Rightarrow>
     console_init True c (le_elapsed e) (le_info e) (console_data_new (le_junk e)))"

definition console_finish :: "console_ctx \<times> line_env \<Rightarrow> console_data \<Rightarrow> (out_file \<times> string) option option" where
  "console_finish p d = (case p of (c, e) \<Rightarrow>
     map_option fst (console_flush True c (le_winsize e) (le_junk e) (le_thread e) (le_info e) d))"

definition header_invisible :: "console_ctx \<Rightarrow> LogLevel \<Rightarrow> int" where
  "header_invisible c level =
     int (length (color_text c (header_color level)) + length (reset_text c))"

definition console_holds :: "console_ctx \<times> line_env \<Rightarrow> string \<Rightarrow> console_data \<Rightarrow> bool" where
  "console_holds p t d \<longleftrightarrow> (case p of (c, e) \<Rightarrow> sd_inv d \<and> default_formats d \<and> sd_text d = t \<and>
     m_invisibleCharacterCount d = header_invisible c (m_level (le_info e)))"

definition console_deliver :: "console_ctx \<times> line_env \<Rightarrow> string \<Rightarrow> (out_file \<times> string) option" where
  "console_deliver p t = (case p of (c, e) \<Rightarrow> Some (console_getFile (le_info e),
     t @ console_suffix_text c (getConsoleWidth (le_winsize e)) (m_level (le_info e))
           (int (length t) - header_invisible c (m_level (le_info e)))
           (suffix_text (le_thread e) (le_info e))))"

lemma header_invisible_bounds: "0 \<le> header_invisible c l \<and> header_invisible c l < 900"
proof -
  have "length (color_text c (header_color l)) \<le> 9" "length (reset_text c) \<le> 8"
    using length_header_color[of l] by (simp_all add: color_text_def reset_text_def ansi_defs)
  then show ?thesis by (simp add: header_invisible_def)
qed

lemma console_start_holds:
  assumes "line_env_ok (snd p)"
  shows "\<exists>d. console_start p = Some d \<and>
    console_holds p (console_header_text (fst p) (le_elapsed (snd p)) (m_level (le_info (snd p)))) d"
proof -
  obtain c e where p: "p = (c, e)" by (cases p)
  with assms have "length (le_junk e) = STATIC_SIZE" by (simp add: line_env_ok_def)
  from console_init_ok[OF this, of c "le_elapsed e" "le_info e"] p show ?thesis
    by (auto simp: console_start_def console_holds_def header_invisible_def)
qed

lemma console_put_holds:
  assumes "console_holds p t d" and "op_text op = Some u"
  shows "\<exists>d'. sd_do True op d = Some d' \<and> console_holds p (t @ u) d'"
proof -
  obtain c e where p: "p = (c, e)" by (cases p)
  with assms(1) have d: "sd_inv d" "default_formats d" "sd_text d = t"
    "m_invisibleCharacterCount d = header_invisible c (m_level (le_info e))"
    by (simp_all add: console_holds_def)
  from sd_do_ext[OF d(1) assms(2)] obtain d' where d': "sd_do True op d = Some d'" "line_ext d u d'"
    by blast
  with line_ext_console[OF d'(2)] d p show ?thesis
    by (auto simp: console_holds_def console_ext_def)
qed

lemma console_finish_delivers:
  assumes "line_env_ok (snd p)" and "console_holds p t d" and "length t < 2 ^ 30"
  shows "console_finish p d = Some (console_deliver p t)"
proof -
  obtain c e where p: "p = (c, e)" by (cases p)
  have "console_flush True c (le_winsize e) (le_junk e) (le_thread e) (le_info e) d =
    Some (Some (console_getFile (le_info e), sd_text d @ console_suffix_text c
      (getConsoleWidth (le_winsize e)) (m_level (le_info e)) (visible_length d)
      (suffix_text (le_thread e) (le_info e))), snd (getFileName (le_info e)))"
    using assms p header_invisible_bounds[of c "m_level (le_info e)"]
    by (intro console_flush_ok) (simp_all add: console_holds_def line_env_ok_def)
  then show ?thesis
    using assms(2) p by (simp add: console_finish_def console_deliver_def console_holds_def visible_length_def)
qed

interpretation console_line: line_backend console_start "\<lambda>_. sd_do True" console_finish
    "\<lambda>p. line_env_ok (snd p)" console_holds
    "\<lambda>p. console_header_text (fst p) (le_elapsed (snd p)) (m_level (le_info (snd p)))" console_deliver
  by unfold_locales (simp_all add: console_start_holds console_put_holds console_finish_delivers)

text \<open>The file back end; the file itself is part of what the statement finds.\<close>

type_synonym file_params = "stream_ctx \<times> file_state \<times> line_env"

definition file_start :: "file_params \<Rightarrow> stream_data option" where
  "file_start p = (case p of (c, st, e) \<Rightarrow>
     file_init True c (le_elapsed e) (le_info e) (file_data_new (le_junk e)))"

definition file_finish :: "file_params \<Rightarrow> stream_data \<Rightarrow> file_state option" where
  "file_finish p d = (case p of (c, st, e) \<Rightarrow>
     map_option fst (file_flush True (le_junk e) (le_thread e) (le_info e) d st))"

definition file_ok :: "file_params \<Rightarrow> bool" where
  "file_ok p \<longleftrightarrow> (case p of (c, st, e) \<Rightarrow> line_env_ok e \<and>
     CHR ''%'' \<notin> set (suffix_text (le_thread e) (le_info e)))"

definition file_holds :: "file_params \<Rightarrow> string \<Rightarrow> stream_data \<Rightarrow> bool" where
  "file_holds p t d \<longleftrightarrow> sd_inv d \<and> default_formats d \<and> sd_text d = t"

definition file_deliver :: "file_params \<Rightarrow> string \<Rightarrow> file_state" where
  "file_deliver p t = (case p of (c, st, e) \<Rightarrow>
     file_write (t @ suffix_text (le_thread e) (le_info e)) st)"

definition file_header :: "file_params \<Rightarrow> string" where
  "file_header p = (case p of (c, st, e) \<Rightarrow>
     prefix_text (le_elapsed e) (getShortID c) (m_level (le_info e)))"

lemma file_start_holds: "file_ok p \<Longrightarrow> \<exists>d. file_start p = Some d \<and> file_holds p (file_header p) d"
proof -
  assume ok: "file_ok p"
  obtain c st e where p: "p = (c, st, e)" by (cases p)
  with ok have "length (le_junk e) = STATIC_SIZE" by (simp add: file_ok_def line_env_ok_def)
  from file_init_ok[OF this, of c "le_elapsed e" "le_info e"] p show ?thesis
    by (auto simp: file_start_def file_holds_def file_header_def)
qed

lemma file_put_holds:
  "file_holds p t d \<Longrightarrow> op_text op = Some u \<Longrightarrow> \<exists>d'. sd_do True op d = Some d' \<and> file_holds p (t @ u) d'"
  using sd_do_ext[of d op u] by (auto simp: file_holds_def line_ext_sel line_ext_default_formats)

lemma file_finish_delivers:
  assumes "file_ok p" and "file_holds p t d" and "length t < 2 ^ 30"
  shows "file_finish p d = Some (file_deliver p t)"
proof -
  obtain c st e where p: "p = (c, st, e)" by (cases p) auto
  have "file_flush True (le_junk e) (le_thread e) (le_info e) d st =
    Some (file_write (sd_text d @ suffix_text (le_thread e) (le_info e)) st, snd (getFileName (le_info e)))"
    using assms p by (intro file_flush_ok) (simp_all add: file_holds_def file_ok_def line_env_ok_def SIZE_MAX_def)
  with assms(2) p show ?thesis by (simp add: file_finish_def file_deliver_def file_holds_def)
qed

interpretation file_line: line_backend file_start "\<lambda>_. sd_do True" file_finish file_ok file_holds
    file_header file_deliver
  by unfold_locales (simp_all add: file_start_holds file_put_holds file_finish_delivers)

section \<open>Properties\<close>

text \<open>
  What a log statement prints on the console: for every sequence of values and formatted texts,
  one write to the right file (standard error for the level error) with the coloured prefix, the
  texts in the order of the calls, and the suffix; no value is lost, reordered or cut.
\<close>

lemma console_statement_prints:
  assumes "length junk = STATIC_SIZE" and "op_texts ops = Some u"
    and "length (suffix_text thread li) < 2 ^ 27"
    and "length (console_header_text c elapsed (m_level li) @ u) < 2 ^ 30"
  shows "(do {
      d \<leftarrow> console_init True c elapsed li (console_data_new junk);
      d \<leftarrow> puts (sd_do True) ops d;
      console_flush True c ws junk thread li d }) =
    Some (Some (console_getFile li, console_header_text c elapsed (m_level li) @ u @
      console_suffix_text c (getConsoleWidth ws) (m_level li)
        (int (length (console_header_text c elapsed (m_level li) @ u)) - header_invisible c (m_level li))
        (suffix_text thread li)), snd (getFileName li))"
proof -
  define p where "p = (c, \<lparr>le_elapsed = elapsed, le_winsize = ws, le_thread = thread, le_junk = junk,
    le_info = li\<rparr>)"
  have ok: "line_env_ok (snd p)" using assms by (simp add: p_def line_env_ok_def)
  from console_line.start_holds[OF ok] obtain d where d: "console_start p = Some d"
    "console_holds p (console_header_text c elapsed (m_level li)) d" by (auto simp: p_def)
  from console_line.puts_holds[OF ok d(2) assms(2)] obtain d' where
    d': "puts (sd_do True) ops d = Some d'"
    "console_holds p (console_header_text c elapsed (m_level li) @ u) d'" by blast
  then have h: "sd_inv d'" "default_formats d'" "sd_text d' = console_header_text c elapsed (m_level li) @ u"
    "m_invisibleCharacterCount d' = header_invisible c (m_level li)"
    by (simp_all add: console_holds_def p_def)
  have "console_flush True c ws junk thread li d' =
    Some (Some (console_getFile li, sd_text d' @ console_suffix_text c (getConsoleWidth ws)
      (m_level li) (visible_length d') (suffix_text thread li)), snd (getFileName li))"
    using h assms header_invisible_bounds[of c "m_level li"] by (intro console_flush_ok) simp_all
  with d(1) d' h show ?thesis by (simp add: console_start_def p_def visible_length_def)
qed

definition sample_info :: LogInfo where
  "sample_info = LogInfo_ctor LvError ''src/main.cpp'' 42 ''main''"

definition plain_ctx :: console_ctx where
  "plain_ctx = \<lparr>sc_context = \<lparr>ctx_id = ''MAIN'', ctx_description = ''main''\<rparr>, sc_level = LvDebug,
     m_colorSupport = False\<rparr>"

lemma sample_suffix: "suffix_text None sample_info = '' | main.cpp:42 ''"
  by (simp add: suffix_text_def location_text_def sample_info_def LogInfo_ctor_def getFileName_def
      Let_def dec_text_def printf_eval)

lemma console_statement_prints_witness:
  "\<exists>s li. (do {
      d \<leftarrow> console_init True plain_ctx 0 sample_info (console_data_new (replicate 512 NUL));
      d \<leftarrow> puts (sd_do True) [OpWrite False (VView ''answer=''), OpWrite False (VInt 42)] d;
      console_flush True plain_ctx None (replicate 512 NUL) None sample_info d }) = Some (Some (Stderr, s), li)"
proof -
  have j: "length (replicate 512 NUL) = STATIC_SIZE" by (simp only: length_replicate STATIC_SIZE_def)
  have t: "op_texts [OpWrite False (VView ''answer=''), OpWrite False (VInt 42)] = Some (''answer='' @ dec_text 42)"
    by (simp add: int_value_text_def)
  have "length (dec_text 42) \<le> 2" by (simp add: dec_text_def printf_eval)
  moreover have "length (console_header_text plain_ctx 0 LvError) \<le> 100"
    by (simp add: console_header_text_def plain_ctx_def color_text_def reset_text_def prefix_text_def
        getCurrentTime_def zero_padded_def getShortID_def trunc_div_def Let_def printf_eval)
  moreover have "m_level sample_info = LvError" by (simp add: sample_info_def LogInfo_ctor_def)
  ultimately show ?thesis
    using console_statement_prints[OF j t, of None sample_info plain_ctx 0 None]
    by (simp add: sample_suffix console_getFile_def del: puts.simps sd_do.simps)
qed

text \<open>
  C33. The suffix is right-aligned. For any sequence of calls, what the construction, the calls and the
  flush of a console line print is the coloured prefix, the texts, a gap and the suffix; on a terminal of
  known width, when prefix, texts and suffix fit, the gap is the blanks that make the visible part of the
  line, its line feed included, exactly as wide as the terminal; when they do not, the gap starts a line
  of its own for the suffix, which is of exactly that width when the suffix fits at all.
\<close>

theorem console_suffix_right_aligned:
  assumes "length junk = STATIC_SIZE" and "op_texts ops = Some u"
    and "length (suffix_text thread li) < 2 ^ 27"
    and "length (console_header_text c elapsed (m_level li) @ u) < 2 ^ 30"
    and "0 < getConsoleWidth ws"
  shows "\<exists>line li' gap. (do {
      d \<leftarrow> console_init True c elapsed li (console_data_new junk);
      d \<leftarrow> puts (sd_do True) ops d;
      console_flush True c ws junk thread li d }) = Some (Some (console_getFile li, line), li') \<and>
    line = color_text c (header_color (m_level li)) @ prefix_text elapsed (getShortID c) (m_level li) @ reset_text c @ u @
      color_text c (header_color (m_level li)) @ gap @ suffix_text thread li @ [LF] @ reset_text c \<and>
    (let columns = getConsoleWidth ws;
         visible = int (length (prefix_text elapsed (getShortID c) (m_level li) @ u));
         width = int (length (suffix_text thread li @ [LF]))
     in if visible + width \<le> columns
        then gap = replicate (length gap) (CHR '' '') \<and> visible + int (length gap) + width = columns
        else \<exists>blanks. gap = LF # replicate blanks (CHR '' '') \<and>
               (if width \<le> columns then int blanks + width = columns else blanks = 0))"
proof -
  let ?F = "color_text c (header_color (m_level li))" and ?R = "reset_text c"
  let ?P = "prefix_text elapsed (getShortID c) (m_level li)" and ?S = "suffix_text thread li"
  let ?visible = "int (length (?P @ u))"
  let ?gap = "gap_text (getConsoleWidth ws) ?visible (int (length (?S @ [LF])))"
  have vis: "int (length (console_header_text c elapsed (m_level li) @ u)) - header_invisible c (m_level li) = ?visible"
    by (simp add: console_header_text_def header_invisible_def)
  from console_statement_prints[OF assms(1-4), of ws, unfolded vis]
  have "(do {
      d \<leftarrow> console_init True c elapsed li (console_data_new junk);
      d \<leftarrow> puts (sd_do True) ops d;
      console_flush True c ws junk thread li d }) =
    Some (Some (console_getFile li, ?F @ ?P @ ?R @ u @ ?F @ ?gap @ ?S @ [LF] @ ?R), snd (getFileName li))"
    by (simp add: console_header_text_def console_suffix_text_def)
  moreover have "let columns = getConsoleWidth ws; width = int (length (?S @ [LF]))
    in if ?visible + width \<le> columns
       then ?gap = replicate (length ?gap) (CHR '' '') \<and> ?visible + int (length ?gap) + width = columns
       else \<exists>blanks. ?gap = LF # replicate blanks (CHR '' '') \<and>
              (if width \<le> columns then int blanks + width = columns else blanks = 0)"
    using assms(5) by (auto simp: gap_text_def Let_def)
  ultimately show ?thesis unfolding Let_def by blast
qed

theorem console_suffix_right_aligned_witness:
  "\<exists>line li' gap. (do {
      d \<leftarrow> console_init True plain_ctx 0 sample_info (console_data_new (replicate 512 NUL));
      d \<leftarrow> puts (sd_do True) [OpWrite False (VBool True)] d;
      console_flush True plain_ctx (Some 80) (replicate 512 NUL) None sample_info d }) =
        Some (Some (Stderr, line), li') \<and> length line = 80 \<and> length gap = 33 \<and>
    line = prefix_text 0 ''MAIN'' LvError @ ''true'' @ gap @ '' | main.cpp:42 '' @ [LF]"
proof -
  have j: "length (replicate 512 NUL) = STATIC_SIZE" by (simp only: length_replicate STATIC_SIZE_def)
  have p: "length (prefix_text 0 ''MAIN'' LvError) = 27"
    by (simp add: prefix_text_def getCurrentTime_def zero_padded_def trunc_div_def Let_def printf_eval)
  have h: "console_header_text plain_ctx 0 LvError = prefix_text 0 ''MAIN'' LvError"
    by (simp add: console_header_text_def plain_ctx_def color_text_def reset_text_def getShortID_def)
  have lvl: "m_level sample_info = LvError" by (simp add: sample_info_def LogInfo_ctor_def)
  have plain: "color_text plain_ctx t = []" "reset_text plain_ctx = []" "getShortID plain_ctx = ''MAIN''" for t
    by (simp_all add: plain_ctx_def color_text_def reset_text_def getShortID_def)
  have "op_texts [OpWrite False (VBool True)] = Some ''true''" by simp
  from console_suffix_right_aligned[OF j this, of None sample_info plain_ctx 0 "Some 80"]
  show ?thesis
    by (auto simp: sample_suffix lvl h p plain console_getFile_def getConsoleWidth_def Let_def
        simp del: puts.simps sd_do.simps)
qed

text \<open>
  What a log statement appends to the log file: prefix, texts and suffix, when neither the file
  name nor the thread name holds a percent sign (the suffix is used as a format). The record ends
  without a line feed.
\<close>

lemma file_statement_appends:
  assumes "length junk = STATIC_SIZE" and "op_texts ops = Some u"
    and "length (suffix_text thread li) < 2 ^ 27" and "CHR ''%'' \<notin> set (suffix_text thread li)"
    and "length (prefix_text elapsed (getShortID c) (m_level li) @ u) < 2 ^ 30"
    and "fs_file st = Some path"
  shows "(do {
      d \<leftarrow> file_init True c elapsed li (file_data_new junk);
      d \<leftarrow> puts (sd_do True) ops d;
      (st, li) \<leftarrow> file_flush True junk thread li d st;
      Some st }) =
    Some (st\<lparr>fs_text := fs_text st @ prefix_text elapsed (getShortID c) (m_level li) @ u @
      suffix_text thread li\<rparr>)"
proof -
  define p where "p = (c, st, \<lparr>le_elapsed = elapsed, le_winsize = None, le_thread = thread, le_junk = junk,
    le_info = li\<rparr>)"
  have ok: "file_ok p" using assms by (simp add: p_def file_ok_def line_env_ok_def)
  have "file_header p = prefix_text elapsed (getShortID c) (m_level li)" by (simp add: p_def file_header_def)
  with file_line.statement[OF ok assms(2)] assms(5)
  have "(file_start p \<bind> puts (sd_do True) ops \<bind> file_finish p) = Some (file_deliver p
      (prefix_text elapsed (getShortID c) (m_level li) @ u))" by simp
  then show ?thesis
    using assms(6)
    by (auto simp: file_start_def file_finish_def file_deliver_def file_write_def p_def split: bind_splits)
qed

lemma file_statement_appends_witness:
  "\<exists>s. (do {
      d \<leftarrow> file_init True (stream_ctx_new \<lparr>ctx_id = ''MAIN'', ctx_description = ''main''\<rparr>) 0 sample_info
             (file_data_new (replicate 512 NUL));
      d \<leftarrow> puts (sd_do True) [OpWrite False (VBool True)] d;
      (st, li) \<leftarrow> file_flush True (replicate 512 NUL) None sample_info d \<lparr>fs_file = Some ''log'', fs_text = ''x''\<rparr>;
      Some st }) = Some \<lparr>fs_file = Some ''log'', fs_text = ''x'' @ s @ ''true | main.cpp:42 ''\<rparr>"
proof -
  let ?c = "stream_ctx_new \<lparr>ctx_id = ''MAIN'', ctx_description = ''main''\<rparr>"
  have j: "length (replicate 512 NUL) = STATIC_SIZE" by (simp only: length_replicate STATIC_SIZE_def)
  have t: "op_texts [OpWrite False (VBool True)] = Some ''true''" by simp
  have "length (prefix_text 0 (getShortID ?c) LvError) \<le> 100"
    by (simp add: stream_ctx_new_def prefix_text_def getCurrentTime_def zero_padded_def getShortID_def
        trunc_div_def Let_def printf_eval)
  moreover have "m_level sample_info = LvError" by (simp add: sample_info_def LogInfo_ctor_def)
  ultimately show ?thesis
    using file_statement_appends[OF j t, of None sample_info 0 ?c "\<lparr>fs_file = Some ''log'', fs_text = ''x''\<rparr>" "''log''"]
    by (auto simp: sample_suffix simp del: puts.simps sd_do.simps)
qed

end
