(* ===== verification/Dlt_Data.thy ===== *)
theory Dlt_Data
  imports Stream_Log
begin

unbundle bit_operations_syntax

text \<open>
  The message under construction of the built-in DLT back end: \<open>DltCppLogData\<close> of
  \<open>include/ivi-logging-dltcpp.h\<close> and \<open>src/ivi-logging-dltcpp.cpp\<close>. The constants of the DLT
  library (\<open>dlt_user.h\<close>, not part of this repository) are the record \<open>dlt_api\<close>, an argument of
  every definition that uses one; \<open>dlt_documented\<close> at the end holds their documented values.

  The array \<open>m_content\<close> of 16384 bytes is modelled by its first \<open>m_contentSize\<close> bytes, which
  every store extends at the end; a store beyond the array shows as a length above 16384.
  Multi-byte fields are in the byte order of the little-endian hosts the program runs on.
\<close>

section \<open>Constants of the DLT library\<close>

record dlt_api =
  DLT_ID_SIZE :: nat
  DLT_LOG_DEFAULT :: int
  DLT_LOG_OFF :: int
  DLT_LOG_FATAL :: int
  DLT_LOG_ERROR :: int
  DLT_LOG_WARN :: int
  DLT_LOG_INFO :: int
  DLT_LOG_DEBUG :: int
  DLT_LOG_VERBOSE :: int
  DLT_TYPE_INFO_STRG :: "32 word"
  DLT_TYPE_INFO_BOOL :: "32 word"
  DLT_TYPE_INFO_SINT :: "32 word"
  DLT_TYPE_INFO_UINT :: "32 word"
  DLT_TYPE_INFO_FLOA :: "32 word"
  DLT_SCOD_UTF8 :: "32 word"
  DLT_SCOD_HEX :: "32 word"
  DLT_TYLE_8BIT :: "32 word"
  DLT_TYLE_16BIT :: "32 word"
  DLT_TYLE_32BIT :: "32 word"
  DLT_TYLE_64BIT :: "32 word"
  DLT_MSIN_VERB :: "8 word"
  DLT_TYPE_LOG :: "8 word"
  DLT_MSIN_MSTP_SHIFT :: nat
  DLT_MSIN_MTIN_SHIFT :: nat
  DLT_MSIN_MTIN :: "8 word"
  DLT_HTYP :: "8 word"
  DLT_STANDARD_HEADER_EXTRA_SIZE :: "8 word \<Rightarrow> nat"

text \<open>\<open>DLT_HTYP\<close> stands for \<open>DLT_HTYP_PROTOCOL_VERSION1 | DLT_HTYP_WEID | ... | DLT_HTYP_UEH\<close>.\<close>

fun getDLTLogLevel :: "dlt_api \<Rightarrow> LogLevel \<Rightarrow> int" where
  "getDLTLogLevel api LvDebug = DLT_LOG_DEBUG api"
| "getDLTLogLevel api LvInfo = DLT_LOG_INFO api"
| "getDLTLogLevel api LvWarning = DLT_LOG_WARN api"
| "getDLTLogLevel api LvFatal = DLT_LOG_FATAL api"
| "getDLTLogLevel api LvError = DLT_LOG_ERROR api"
| "getDLTLogLevel api LvVerbose = DLT_LOG_VERBOSE api"
| "getDLTLogLevel api LvNone = DLT_LOG_OFF api"
| "getDLTLogLevel api _ = DLT_LOG_DEFAULT api"

section \<open>The message\<close>

record dlt_data =
  dd_content :: "byte list"
  dd_argsCount :: "8 word"
  dd_isFull :: bool
  dd_enabled :: bool
  dd_dltLogLevel :: int
  dd_messageCount :: "8 word"
  dd_printed :: string

definition SIZEOF_TYPE_INFO :: nat where "SIZEOF_TYPE_INFO = 4"
definition SIZEOF_STRING_LENGTH :: nat where "SIZEOF_STRING_LENGTH = 2"
definition messageTooLargeStringLength :: nat where "messageTooLargeStringLength = 12"

definition MessageTooLargeData :: "dlt_api \<Rightarrow> byte list" where
  "MessageTooLargeData api =
     le_nat SIZEOF_TYPE_INFO (unat (DLT_TYPE_INFO_STRG api OR DLT_SCOD_UTF8 api)) @
     le_nat SIZEOF_STRING_LENGTH messageTooLargeStringLength @ text_bytes (''..truncated'' @ [NUL])"

definition maxMessageSize :: nat where "maxMessageSize = 16384"

definition maxContentSize :: nat where
  "maxContentSize = maxMessageSize -
     (SIZEOF_TYPE_INFO + SIZEOF_STRING_LENGTH + messageTooLargeStringLength)"

abbreviation m_contentSize :: "dlt_data \<Rightarrow> nat" where
  "m_contentSize d \<equiv> length (dd_content d)"

text \<open>The subtraction of two \<open>size_t\<close> values wraps around.\<close>

definition size_t_diff :: "nat \<Rightarrow> nat \<Rightarrow> nat" where
  "size_t_diff a b = nat ((int a - int b) mod 2 ^ 64)"

definition getAvailableSpace :: "nat \<Rightarrow> dlt_data \<Rightarrow> nat" where
  "getAvailableSpace infoSize d =
     (if \<not> dd_isFull d \<and> size_t_diff maxContentSize (m_contentSize d) \<ge> infoSize
      then size_t_diff maxContentSize (m_contentSize d) - infoSize else 0)"

definition addMessageTooLargeIndication :: "dlt_api \<Rightarrow> dlt_data \<Rightarrow> dlt_data" where
  "addMessageTooLargeIndication api d = (if \<not> dd_isFull d then
     d\<lparr>dd_content := dd_content d @ MessageTooLargeData api,
       dd_argsCount := dd_argsCount d + 1,
       dd_isFull := True,
       dd_printed := dd_printed d @ ''DLT message too large'' @ [LF]\<rparr>
     else d)"

definition checkOverflow :: "dlt_api \<Rightarrow> nat \<Rightarrow> dlt_data \<Rightarrow> bool \<times> dlt_data" where
  "checkOverflow api additionalSize d =
     (let d = (if \<not> dd_isFull d \<and> getAvailableSpace additionalSize d = 0
               then addMessageTooLargeIndication api d else d)
      in (\<not> dd_isFull d, d))"

definition writeBuffer :: "byte list \<Rightarrow> dlt_data \<Rightarrow> dlt_data" where
  "writeBuffer v d = (if \<not> dd_isFull d then d\<lparr>dd_content := dd_content d @ v\<rparr> else d)"

definition writeType :: "32 word \<Rightarrow> dlt_data \<Rightarrow> dlt_data" where
  "writeType type d =
     (let d = writeBuffer (le_nat SIZEOF_TYPE_INFO (unat type)) d
      in d\<lparr>dd_argsCount := dd_argsCount d + 1\<rparr>)"

definition writeWithTypeInfo :: "dlt_api \<Rightarrow> 32 word \<Rightarrow> byte list \<Rightarrow> dlt_data \<Rightarrow> dlt_data" where
  "writeWithTypeInfo api type value d =
     (let (ok, d) = checkOverflow api (length value + SIZEOF_TYPE_INFO) d
      in if ok then writeBuffer value (writeType type d) else d)"

text \<open>
  \<open>reserve\<close> leaves room for the length, which is stored once the text is formatted; the text goes
  behind it, cut by \<open>snprintf\<close> to the space that is left.
\<close>

definition reserve :: "nat \<Rightarrow> dlt_data \<Rightarrow> nat \<times> dlt_data" where
  "reserve n d = (m_contentSize d, d\<lparr>dd_content := dd_content d @ replicate n 0\<rparr>)"

definition dlt_writeFormatted :: "dlt_api \<Rightarrow> string \<Rightarrow> c_arg list \<Rightarrow> dlt_data \<Rightarrow> dlt_data option" where
  "dlt_writeFormatted api format args d = (
     let spaceForStringContent =
           getAvailableSpace (SIZEOF_STRING_LENGTH + SIZEOF_TYPE_INFO + 1) d
     in do {
       (overflow, d) \<leftarrow>
         (if spaceForStringContent > 0 then do {
            let d = writeType (DLT_TYPE_INFO_STRG api OR DLT_SCOD_UTF8 api) d;
            let (sizePos, d) = reserve SIZEOF_STRING_LENGTH d;
            t \<leftarrow> c_format format args;
            let stringSize = length t;
            let stringSizeInBuffer = min (stringSize + 1) spaceForStringContent;
            let content = dd_content d @ text_bytes (snprintf_mem spaceForStringContent t);
            let content = blit content sizePos (le_nat SIZEOF_STRING_LENGTH stringSizeInBuffer);
            Some (spaceForStringContent < stringSize, d\<lparr>dd_content := content\<rparr>) }
          else Some (True, d));
       Some (if overflow then addMessageTooLargeIndication api d else d) })"

definition write_chars :: "dlt_api \<Rightarrow> string \<Rightarrow> dlt_data \<Rightarrow> dlt_data" where
  "write_chars api v d =
     (let sz = length v;
          spaceForStringContent =
            min sz (getAvailableSpace (SIZEOF_STRING_LENGTH + SIZEOF_TYPE_INFO + 1) d);
          d = (if spaceForStringContent > 0 then
                 let d = writeType (DLT_TYPE_INFO_STRG api OR DLT_SCOD_UTF8 api) d;
                     d = writeBuffer (le_nat SIZEOF_STRING_LENGTH (spaceForStringContent + 1)) d;
                     d = writeBuffer (text_bytes (take spaceForStringContent v)) d
                 in writeBuffer [0] d
               else d)
      in if spaceForStringContent < sz then addMessageTooLargeIndication api d else d)"

text \<open>
  The overloads of \<open>write\<close> on a 64-bit host. \<open>None\<close>: a null \<open>char const*\<close> (\<open>strlen\<close> is undefined),
  and \<open>long long\<close>, for which no overload is the best one, so that the call does not compile. A
  plain \<open>char\<close> is promoted to \<open>int\<close>; any other pointer is converted to \<open>bool\<close>.
\<close>

definition hex_flag :: "dlt_api \<Rightarrow> bool \<Rightarrow> 32 word" where
  "hex_flag api hex = (if hex then DLT_SCOD_HEX api else 0)"

fun dlt_write :: "dlt_api \<Rightarrow> bool \<Rightarrow> log_value \<Rightarrow> dlt_data \<Rightarrow> dlt_data option" where
  "dlt_write api hex (VCStr v) d =
     (case v of Some m \<Rightarrow> Some (write_chars api (cstr m) d) | None \<Rightarrow> None)"
| "dlt_write api hex (VView v) d = Some (write_chars api v d)"
| "dlt_write api hex (VString v) d = Some (write_chars api v d)"
| "dlt_write api hex (VBool v) d =
     Some (writeWithTypeInfo api (DLT_TYPE_INFO_BOOL api) (le_nat 1 (if v then 1 else 0)) d)"
| "dlt_write api hex (VPtr v) d =
     Some (writeWithTypeInfo api (DLT_TYPE_INFO_BOOL api) (le_nat 1 (if v \<noteq> 0 then 1 else 0)) d)"
| "dlt_write api hex (VFloat v) d =
     Some (writeWithTypeInfo api (DLT_TYPE_INFO_FLOA api OR DLT_TYLE_32BIT api) (le_nat 4 (unat v)) d)"
| "dlt_write api hex (VDouble v) d =
     Some (writeWithTypeInfo api (DLT_TYPE_INFO_FLOA api OR DLT_TYLE_64BIT api) (le_nat 8 (unat v)) d)"
| "dlt_write api hex (VULong v) d =
     Some (writeWithTypeInfo api (DLT_TYPE_INFO_UINT api OR DLT_TYLE_64BIT api OR hex_flag api hex)
       (le_nat 8 (unat v)) d)"
| "dlt_write api hex (VLong v) d =
     Some (writeWithTypeInfo api (DLT_TYPE_INFO_SINT api OR DLT_TYLE_64BIT api) (le_nat 8 (unat v)) d)"
| "dlt_write api hex (VUInt v) d =
     Some (writeWithTypeInfo api (DLT_TYPE_INFO_UINT api OR DLT_TYLE_32BIT api OR hex_flag api hex)
       (le_nat 4 (unat v)) d)"
| "dlt_write api hex (VInt v) d =
     Some (writeWithTypeInfo api (DLT_TYPE_INFO_SINT api OR DLT_TYLE_32BIT api) (le_nat 4 (unat v)) d)"
| "dlt_write api hex (VChar v) d =
     Some (writeWithTypeInfo api (DLT_TYPE_INFO_SINT api OR DLT_TYLE_32BIT api)
       (le_int 4 (sint v)) d)"
| "dlt_write api hex (VUShort v) d =
     Some (writeWithTypeInfo api (DLT_TYPE_INFO_UINT api OR DLT_TYLE_16BIT api OR hex_flag api hex)
       (le_nat 2 (unat v)) d)"
| "dlt_write api hex (VShort v) d =
     Some (writeWithTypeInfo api (DLT_TYPE_INFO_SINT api OR DLT_TYLE_16BIT api) (le_nat 2 (unat v)) d)"
| "dlt_write api hex (VUChar v) d =
     Some (writeWithTypeInfo api (DLT_TYPE_INFO_UINT api OR DLT_TYLE_8BIT api OR hex_flag api hex)
       (le_nat 1 (unat v)) d)"
| "dlt_write api hex (VSChar v) d =
     Some (writeWithTypeInfo api (DLT_TYPE_INFO_SINT api OR DLT_TYLE_8BIT api) (le_nat 1 (unat v)) d)"
| "dlt_write api hex (VLLong v) d = None"
| "dlt_write api hex (VULLong v) d = None"

text \<open>
  What the destructor adds before the message is sent: the source location and the thread, each
  when enabled.
\<close>

definition location_separator :: string where
  "location_separator = replicate 52 (CHR '' '') @ ''| ''"

definition dlt_write_location :: "dlt_api \<Rightarrow> LogInfo \<Rightarrow> dlt_data \<Rightarrow> dlt_data option" where
  "dlt_write_location api li d = do {
     let d = write_chars api location_separator d;
     let d = write_chars api (fst (getFileName li)) d;
     d \<leftarrow> (if m_lineNumber li \<noteq> -1
           then dlt_write api (m_hexEnabled li) (VInt (word_of_int (m_lineNumber li))) d else Some d);
     Some (write_chars api (m_prettyFunction li) d) }"

definition dlt_write_thread :: "dlt_api \<Rightarrow> bool \<Rightarrow> int \<times> string \<Rightarrow> dlt_data \<Rightarrow> dlt_data option" where
  "dlt_write_thread api hex th d = do {
     let d = write_chars api ''ThreadID'' d;
     d \<leftarrow> dlt_write api hex (VInt (word_of_int (fst th))) d;
     Some (write_chars api (snd th) d) }"

definition dlt_finish :: "dlt_api \<Rightarrow> bool \<Rightarrow> (int \<times> string) option \<Rightarrow> LogInfo \<Rightarrow>
    dlt_data \<Rightarrow> dlt_data option" where
  "dlt_finish api sourceInfo thread li d = (if dd_enabled d then do {
     d \<leftarrow> (if sourceInfo then dlt_write_location api li d else Some d);
     (case thread of None \<Rightarrow> Some d
      | Some th \<Rightarrow> dlt_write_thread api (m_hexEnabled li) th d) }
     else Some d)"

definition dlt_data_new :: dlt_data where
  "dlt_data_new = \<lparr>dd_content = [], dd_argsCount = 0, dd_isFull = False, dd_enabled = False,
     dd_dltLogLevel = 0, dd_messageCount = 0, dd_printed = []\<rparr>"

section \<open>Documented values of the library's constants\<close>

definition dlt_documented :: dlt_api where
  "dlt_documented = \<lparr>DLT_ID_SIZE = 4,
     DLT_LOG_DEFAULT = -1, DLT_LOG_OFF = 0, DLT_LOG_FATAL = 1, DLT_LOG_ERROR = 2, DLT_LOG_WARN = 3,
     DLT_LOG_INFO = 4, DLT_LOG_DEBUG = 5, DLT_LOG_VERBOSE = 6,
     DLT_TYPE_INFO_STRG = 0x200, DLT_TYPE_INFO_BOOL = 0x10, DLT_TYPE_INFO_SINT = 0x20,
     DLT_TYPE_INFO_UINT = 0x40, DLT_TYPE_INFO_FLOA = 0x80,
     DLT_SCOD_UTF8 = 0x8000, DLT_SCOD_HEX = 0x10000,
     DLT_TYLE_8BIT = 1, DLT_TYLE_16BIT = 2, DLT_TYLE_32BIT = 3, DLT_TYLE_64BIT = 4,
     DLT_MSIN_VERB = 1, DLT_TYPE_LOG = 0, DLT_MSIN_MSTP_SHIFT = 1, DLT_MSIN_MTIN_SHIFT = 4,
     DLT_MSIN_MTIN = 0xF0, DLT_HTYP = 0x3D,
     DLT_STANDARD_HEADER_EXTRA_SIZE = (\<lambda>htyp. (if bit htyp 2 then 4 else 0) +
        (if bit htyp 3 then 4 else 0) + (if bit htyp 4 then 4 else 0))\<rparr>"

section \<open>Specification: a list of verbose arguments\<close>

text \<open>
  The payload of a DLT message in verbose mode is a sequence of arguments: a type word followed by
  a value of fixed size, or by a length and a string with its NUL. The specification state is
  that list and whether the message is closed; \<open>dlt_rel\<close> relates a message to it.
\<close>

datatype dlt_arg = DltValue "32 word" "byte list" | DltString string

fun enc_arg :: "dlt_api \<Rightarrow> dlt_arg \<Rightarrow> byte list" where
  "enc_arg api (DltValue type v) = le_nat 4 (unat type) @ v"
| "enc_arg api (DltString s) = le_nat 4 (unat (DLT_TYPE_INFO_STRG api OR DLT_SCOD_UTF8 api)) @
     le_nat 2 (length s + 1) @ text_bytes s @ [0]"

definition enc_args :: "dlt_api \<Rightarrow> dlt_arg list \<Rightarrow> byte list" where
  "enc_args api as = concat (map (enc_arg api) as)"

definition truncated_arg :: dlt_arg where
  "truncated_arg = DltString ''..truncated''"

definition room :: "dlt_api \<Rightarrow> dlt_arg list \<Rightarrow> nat" where
  "room api as = maxContentSize - length (enc_args api as)"

type_synonym dlt_spec = "dlt_arg list \<times> bool"

fun spec_value :: "dlt_api \<Rightarrow> 32 word \<Rightarrow> byte list \<Rightarrow> dlt_spec \<Rightarrow> dlt_spec" where
  "spec_value api type v (as, closed) =
     (if closed then (as, True)
      else if length v + 4 < room api as then (as @ [DltValue type v], False)
      else (as @ [truncated_arg], True))"

fun spec_string :: "dlt_api \<Rightarrow> string \<Rightarrow> dlt_spec \<Rightarrow> dlt_spec" where
  "spec_string api s (as, closed) =
     (if closed \<or> s = [] then (as, closed)
      else if length s \<le> room api as - 7 then (as @ [DltString s], False)
      else if room api as \<le> 7 then (as @ [truncated_arg], True)
      else (as @ [DltString (take (room api as - 7) s), truncated_arg], True))"

fun spec_formatted :: "dlt_api \<Rightarrow> string \<Rightarrow> dlt_spec \<Rightarrow> dlt_spec" where
  "spec_formatted api t (as, closed) =
     (if closed then (as, True)
      else if room api as \<le> 7 then (as @ [truncated_arg], True)
      else if length t \<le> room api as - 7
        then (as @ [DltString (take (room api as - 8) t)], False)
        else (as @ [DltString (take (room api as - 8) t), truncated_arg], True))"

definition dlt_rel :: "dlt_api \<Rightarrow> dlt_data \<Rightarrow> dlt_spec \<Rightarrow> bool" where
  "dlt_rel api d sp \<longleftrightarrow> dd_content d = enc_args api (fst sp) \<and>
     dd_argsCount d = word_of_nat (length (fst sp)) \<and> dd_isFull d = snd sp \<and>
     m_contentSize d \<le> (if snd sp then maxMessageSize else maxContentSize)"

lemma length_enc_arg [wire_simps]:
  "length (enc_arg api (DltValue type v)) = 4 + length v"
  "length (enc_arg api (DltString s)) = 7 + length s"
  by simp_all

lemma enc_args_simps [wire_simps]:
  "enc_args api [] = []" "enc_args api (as @ bs) = enc_args api as @ enc_args api bs"
  "enc_args api [a] = enc_arg api a"
  by (simp_all add: enc_args_def)

lemma size_constants:
  "maxMessageSize = 16384" "maxContentSize = 16366" "SIZEOF_TYPE_INFO = 4"
  "SIZEOF_STRING_LENGTH = 2" "messageTooLargeStringLength = 12"
  by (simp_all add: maxMessageSize_def maxContentSize_def SIZEOF_TYPE_INFO_def
      SIZEOF_STRING_LENGTH_def messageTooLargeStringLength_def)

lemma text_bytes_NUL [simp]: "text_bytes [NUL] = [0]" "text_bytes [] = []"
  by (simp_all add: text_bytes_def)

lemma dlt_relD:
  assumes "dlt_rel api d (as, closed)"
  shows "dd_content d = enc_args api as" "dd_argsCount d = word_of_nat (length as)"
    "dd_isFull d = closed" "length (enc_args api as) \<le> (if closed then 16384 else 16366)"
  using assms by (auto simp: dlt_rel_def size_constants)

lemma MessageTooLargeData_eq: "MessageTooLargeData api = enc_arg api truncated_arg"
proof -
  have "text_bytes (''..truncated'' @ [NUL]) = text_bytes ''..truncated'' @ [0]"
    by (simp only: text_bytes_append text_bytes_NUL)
  moreover have "length ''..truncated'' + 1 = 12" by simp
  ultimately show ?thesis
    by (simp only: MessageTooLargeData_def truncated_arg_def enc_arg.simps size_constants)
qed

lemma length_truncated: "length (enc_arg api truncated_arg) = 18"
  by (simp add: truncated_arg_def)

lemma size_t_diff_le: "b \<le> a \<Longrightarrow> a < 2 ^ 64 \<Longrightarrow> size_t_diff a b = a - b"
  by (simp add: size_t_diff_def nat_diff_distrib' flip: of_nat_diff)

lemma getAvailableSpace_open:
  assumes "dlt_rel api d (as, False)"
  shows "getAvailableSpace n d = room api as - n"
proof -
  have "size_t_diff maxContentSize (m_contentSize d) = room api as"
    using dlt_relD[OF assms] by (subst size_t_diff_le) (simp_all add: room_def size_constants)
  then show ?thesis using assms by (auto simp: getAvailableSpace_def dlt_rel_def)
qed

lemma getAvailableSpace_closed: "dlt_rel api d (as, True) \<Longrightarrow> getAvailableSpace n d = 0"
  by (simp add: getAvailableSpace_def dlt_rel_def)

lemma indication_rel:
  assumes "dlt_rel api d (as, False)"
  shows "dlt_rel api (addMessageTooLargeIndication api d) (as @ [truncated_arg], True)"
  using dlt_relD[OF assms] by (simp add: dlt_rel_def addMessageTooLargeIndication_def
      MessageTooLargeData_eq enc_args_simps length_truncated size_constants)

lemma indication_closed: "dlt_rel api d (as, True) \<Longrightarrow> addMessageTooLargeIndication api d = d"
  by (simp add: dlt_rel_def addMessageTooLargeIndication_def)

lemma writeWithTypeInfo_rel:
  assumes "dlt_rel api d sp"
  shows "dlt_rel api (writeWithTypeInfo api type v d) (spec_value api type v sp)"
proof (cases sp)
  case (Pair as closed)
  show ?thesis
  proof (cases closed)
    case True
    with assms Pair show ?thesis
      by (auto simp: writeWithTypeInfo_def checkOverflow_def dlt_rel_def)
  next
    case False
    with assms Pair have op: "dlt_rel api d (as, False)" by simp
    note D = dlt_relD[OF op]
    have av: "getAvailableSpace (length v + SIZEOF_TYPE_INFO) d = room api as - (length v + 4)"
      using getAvailableSpace_open[OF op] by (simp only: size_constants)
    show ?thesis
    proof (cases "length v + 4 < room api as")
      case True
      then have "checkOverflow api (length v + SIZEOF_TYPE_INFO) d = (True, d)"
        using D av by (simp add: checkOverflow_def)
      with True D Pair False show ?thesis
        by (simp add: writeWithTypeInfo_def writeBuffer_def writeType_def dlt_rel_def
            enc_args_simps size_constants room_def)
    next
      case full: False
      have "checkOverflow api (length v + SIZEOF_TYPE_INFO) d
          = (False, addMessageTooLargeIndication api d)"
        using D av full dlt_relD[OF indication_rel[OF op]] by (simp add: checkOverflow_def)
      with indication_rel[OF op] full Pair False show ?thesis
        by (simp add: writeWithTypeInfo_def)
    qed
  qed
qed

lemma write_chars_rel:
  assumes "dlt_rel api d sp"
  shows "dlt_rel api (write_chars api s d) (spec_string api s sp)"
proof (cases sp)
  case (Pair as closed)
  show ?thesis
  proof (cases "closed \<or> s = []")
    case True
    with assms Pair show ?thesis
      using getAvailableSpace_closed[of api d as] indication_closed[of api d as]
      by (auto simp: write_chars_def Let_def)
  next
    case False
    with assms Pair have op: "dlt_rel api d (as, False)" by simp
    have av: "getAvailableSpace (SIZEOF_STRING_LENGTH + SIZEOF_TYPE_INFO + 1) d = room api as - 7"
      using getAvailableSpace_open[OF op] by (simp add: size_constants)
    define k where "k = min (length s) (room api as - 7)"
    define d1 where "d1 = (if k > 0 then
        writeBuffer [0] (writeBuffer (text_bytes (take k s))
          (writeBuffer (le_nat SIZEOF_STRING_LENGTH (k + 1))
            (writeType (DLT_TYPE_INFO_STRG api OR DLT_SCOD_UTF8 api) d))) else d)"
    have eq: "write_chars api s d = (if k < length s then addMessageTooLargeIndication api d1 else d1)"
      unfolding write_chars_def Let_def av k_def d1_def by simp
    have d1: "dlt_rel api d1 (if k > 0 then as @ [DltString (take k s)] else as, False)"
    proof (cases "k > 0")
      case True
      moreover have "k \<le> room api as - 7" by (simp add: k_def)
      ultimately have "length (enc_args api as) + 7 + k \<le> maxContentSize"
        unfolding room_def by linarith
      with True dlt_relD[OF op] show ?thesis
        by (simp add: d1_def dlt_rel_def writeBuffer_def writeType_def enc_args_simps
            size_constants k_def)
    qed (simp add: d1_def op)
    show ?thesis
      using d1 indication_rel[OF d1] False Pair eq by (auto simp: k_def min_def)
  qed
qed

lemma dlt_writeFormatted_rel:
  assumes "dlt_rel api d sp" and "c_format format args = Some t"
  shows "\<exists>d'. dlt_writeFormatted api format args d = Some d' \<and>
    dlt_rel api d' (spec_formatted api t sp)"
proof (cases sp)
  case (Pair as closed)
  show ?thesis
  proof (cases closed)
    case True
    with assms Pair show ?thesis
      by (simp add: dlt_writeFormatted_def getAvailableSpace_closed indication_closed)
  next
    case False
    with assms Pair have op: "dlt_rel api d (as, False)" by simp
    let ?r = "room api as - 7"
    have av: "getAvailableSpace (SIZEOF_STRING_LENGTH + SIZEOF_TYPE_INFO + 1) d = ?r"
      using getAvailableSpace_open[OF op] by (simp add: size_constants)
    show ?thesis
    proof (cases "?r = 0")
      case True
      with av indication_rel[OF op] Pair False show ?thesis
        by (simp add: dlt_writeFormatted_def)
    next
      case pos: False
      let ?m = "snprintf_mem ?r t"
      have m: "length ?m = min (length t + 1) ?r"
        by (simp add: length_snprintf_mem)
      have m_eq: "text_bytes ?m = text_bytes (take (room api as - 8) t) @ [0]"
        using pos by (simp add: snprintf_mem_def text_bytes_append numeral_eq_Suc)
      let ?h = "dd_content d @ le_nat 4 (unat (DLT_TYPE_INFO_STRG api OR DLT_SCOD_UTF8 api))"
      define d1 where "d1 = d\<lparr>dd_argsCount := dd_argsCount d + 1,
        dd_content := ?h @ le_nat 2 (min (length t + 1) ?r) @ text_bytes ?m\<rparr>"
      have blit: "blit ((?h @ replicate 2 0) @ text_bytes ?m) (length ?h)
          (le_nat 2 (min (length t + 1) ?r)) = ?h @ le_nat 2 (min (length t + 1) ?r) @ text_bytes ?m"
        by (simp add: blit_def)
      note D = dlt_relD[OF op]
      have eq: "dlt_writeFormatted api format args d =
          Some (if ?r < length t then addMessageTooLargeIndication api d1 else d1)"
        using pos assms(2) D(3) blit
        unfolding dlt_writeFormatted_def av
        by (simp add: Let_def writeType_def writeBuffer_def reserve_def size_constants d1_def)
      have "length t + 1 \<le> ?r \<or> ?r = room api as - 8 + 1" using pos by auto
      then have len: "min (length t + 1) ?r = length (take (room api as - 8) t) + 1"
        by auto
      have d1: "dlt_rel api d1 (as @ [DltString (take (room api as - 8) t)], False)"
        using D pos len m_eq by (simp add: d1_def dlt_rel_def enc_args_simps room_def size_constants)
      show ?thesis
        using eq d1 indication_rel[OF d1] pos False Pair by auto
    qed
  qed
qed

section \<open>The argument of a value\<close>

text \<open>The reference encoding: which argument each type of value becomes.\<close>

fun arg_of :: "dlt_api \<Rightarrow> bool \<Rightarrow> log_value \<Rightarrow> dlt_arg option" where
  "arg_of api hex (VBool v) = Some (DltValue (DLT_TYPE_INFO_BOOL api) [if v then 1 else 0])"
| "arg_of api hex (VPtr v) = Some (DltValue (DLT_TYPE_INFO_BOOL api) [if v \<noteq> 0 then 1 else 0])"
| "arg_of api hex (VChar v) =
     Some (DltValue (DLT_TYPE_INFO_SINT api OR DLT_TYLE_32BIT api) (le_int 4 (sint v)))"
| "arg_of api hex (VSChar v) = Some (DltValue (DLT_TYPE_INFO_SINT api OR DLT_TYLE_8BIT api) [v])"
| "arg_of api hex (VUChar v) =
     Some (DltValue (DLT_TYPE_INFO_UINT api OR DLT_TYLE_8BIT api OR hex_flag api hex) [v])"
| "arg_of api hex (VShort v) =
     Some (DltValue (DLT_TYPE_INFO_SINT api OR DLT_TYLE_16BIT api) (le_nat 2 (unat v)))"
| "arg_of api hex (VUShort v) =
     Some (DltValue (DLT_TYPE_INFO_UINT api OR DLT_TYLE_16BIT api OR hex_flag api hex) (le_nat 2 (unat v)))"
| "arg_of api hex (VInt v) =
     Some (DltValue (DLT_TYPE_INFO_SINT api OR DLT_TYLE_32BIT api) (le_nat 4 (unat v)))"
| "arg_of api hex (VUInt v) =
     Some (DltValue (DLT_TYPE_INFO_UINT api OR DLT_TYLE_32BIT api OR hex_flag api hex) (le_nat 4 (unat v)))"
| "arg_of api hex (VLong v) =
     Some (DltValue (DLT_TYPE_INFO_SINT api OR DLT_TYLE_64BIT api) (le_nat 8 (unat v)))"
| "arg_of api hex (VULong v) =
     Some (DltValue (DLT_TYPE_INFO_UINT api OR DLT_TYLE_64BIT api OR hex_flag api hex) (le_nat 8 (unat v)))"
| "arg_of api hex (VFloat v) =
     Some (DltValue (DLT_TYPE_INFO_FLOA api OR DLT_TYLE_32BIT api) (le_nat 4 (unat v)))"
| "arg_of api hex (VDouble v) =
     Some (DltValue (DLT_TYPE_INFO_FLOA api OR DLT_TYLE_64BIT api) (le_nat 8 (unat v)))"
| "arg_of api hex (VCStr v) = map_option (DltString \<circ> cstr) v"
| "arg_of api hex (VView v) = Some (DltString v)"
| "arg_of api hex (VString v) = Some (DltString v)"
| "arg_of api hex (VLLong v) = None"
| "arg_of api hex (VULLong v) = None"

fun spec_put :: "dlt_api \<Rightarrow> dlt_arg \<Rightarrow> dlt_spec \<Rightarrow> dlt_spec" where
  "spec_put api (DltValue type v) sp = spec_value api type v sp"
| "spec_put api (DltString s) sp = spec_string api s sp"

lemma unat_byte_mod: "word_of_nat (unat (b :: byte) mod 256) = b"
proof -
  have "unat b < 256" by (rule order.strict_trans2[OF unsigned_less]) simp
  then show ?thesis by simp
qed

lemma le_nat_byte: "le_nat (Suc 0) (unat (b :: byte)) = [b]" "le_nat (Suc 0) 0 = [0]" "le_nat (Suc 0) (Suc 0) = [1]"
  using unat_byte_mod[of b] by simp_all

lemma dlt_write_rel:
  assumes "dlt_rel api d sp"
  shows "rel_option (\<lambda>d' a. dlt_rel api d' (spec_put api a sp)) (dlt_write api hex v d) (arg_of api hex v)"
  using writeWithTypeInfo_rel[OF assms] write_chars_rel[OF assms]
  by (cases v) (auto simp: le_nat_byte simp del: le_nat.simps split: option.splits)

section \<open>Whole messages\<close>

fun dlt_do :: "dlt_api \<Rightarrow> log_op \<Rightarrow> dlt_data \<Rightarrow> dlt_data option" where
  "dlt_do api (OpWrite hex v) d = dlt_write api hex v d"
| "dlt_do api (OpFormatted f args) d = dlt_writeFormatted api f args d"

fun dlt_run :: "dlt_api \<Rightarrow> log_op list \<Rightarrow> dlt_data \<Rightarrow> dlt_data option" where
  "dlt_run api [] d = Some d"
| "dlt_run api (op # ops) d = dlt_do api op d \<bind> dlt_run api ops"

fun spec_do :: "dlt_api \<Rightarrow> log_op \<Rightarrow> dlt_spec \<Rightarrow> dlt_spec option" where
  "spec_do api (OpWrite hex v) sp = map_option (\<lambda>a. spec_put api a sp) (arg_of api hex v)"
| "spec_do api (OpFormatted f args) sp = map_option (\<lambda>t. spec_formatted api t sp) (c_format f args)"

fun spec_run :: "dlt_api \<Rightarrow> log_op list \<Rightarrow> dlt_spec \<Rightarrow> dlt_spec option" where
  "spec_run api [] sp = Some sp"
| "spec_run api (op # ops) sp = spec_do api op sp \<bind> spec_run api ops"

lemma dlt_do_rel:
  assumes "dlt_rel api d sp" and "spec_do api op sp = Some sp'"
  shows "\<exists>d'. dlt_do api op d = Some d' \<and> dlt_rel api d' sp'"
proof (cases op)
  case (OpWrite hex v)
  with assms(2) obtain a where "arg_of api hex v = Some a" "sp' = spec_put api a sp" by auto
  with dlt_write_rel[OF assms(1), of hex v] OpWrite show ?thesis
    by (auto simp: option_rel_Some2)
next
  case (OpFormatted f args)
  with assms(2) obtain t where "c_format f args = Some t" "sp' = spec_formatted api t sp" by auto
  with dlt_writeFormatted_rel[OF assms(1)] OpFormatted show ?thesis by auto
qed

lemma dlt_run_rel:
  "dlt_rel api d sp \<Longrightarrow> spec_run api ops sp = Some sp' \<Longrightarrow>
     \<exists>d'. dlt_run api ops d = Some d' \<and> dlt_rel api d' sp'"
proof (induction ops arbitrary: d sp)
  case (Cons op ops)
  from Cons.prems(2) obtain sp1 where sp1: "spec_do api op sp = Some sp1" "spec_run api ops sp1 = Some sp'"
    by (auto simp: bind_eq_Some_conv)
  from dlt_do_rel[OF Cons.prems(1) sp1(1)] obtain d1 where "dlt_do api op d = Some d1" "dlt_rel api d1 sp1"
    by blast
  with Cons.IH sp1(2) show ?case by auto
qed simp

lemma dlt_new_rel: "dd_content d = [] \<Longrightarrow> dd_argsCount d = 0 \<Longrightarrow> \<not> dd_isFull d \<Longrightarrow> dlt_rel api d ([], False)"
  by (simp add: dlt_rel_def enc_args_def)

section \<open>Reading a payload back\<close>

definition STRING_TYPE :: "32 word" where
  "STRING_TYPE = DLT_TYPE_INFO_STRG dlt_documented OR DLT_SCOD_UTF8 dlt_documented"

text \<open>Size of a value, from its type word as the protocol documents it.\<close>

definition value_size :: "32 word \<Rightarrow> nat option" where
  "value_size type = (let n = unat (type AND 0xF) in
     if type = 0x10 then Some 1
     else if n = 1 then Some 1 else if n = 2 then Some 2 else if n = 3 then Some 4
     else if n = 4 then Some 8 else None)"

function dec_args :: "byte list \<Rightarrow> dlt_arg list option" where
  "dec_args bs = (if bs = [] then Some [] else if length bs < 4 then None else
     let type = word_of_nat (nat_of_le (take 4 bs)); r = drop 4 bs in
     if type = STRING_TYPE then
       (let n = nat_of_le (take 2 r); r' = drop 2 r in
        if length r < 2 \<or> n = 0 \<or> length r' < n then None
        else map_option ((#) (DltString (bytes_text (take (n - 1) r')))) (dec_args (drop n r')))
     else case value_size type of None \<Rightarrow> None
       | Some n \<Rightarrow> if length r < n then None
           else map_option ((#) (DltValue type (take n r))) (dec_args (drop n r)))"
  by pat_completeness auto
termination
  by (relation "measure length") auto

declare dec_args.simps [simp del]

fun wf_arg :: "dlt_arg \<Rightarrow> bool" where
  "wf_arg (DltValue type v) = (type \<noteq> STRING_TYPE \<and> value_size type = Some (length v))"
| "wf_arg (DltString s) = (length s < 65535)"

lemma dec_enc_arg:
  assumes "wf_arg a"
  shows "dec_args (enc_arg dlt_documented a @ bs) = map_option ((#) a) (dec_args bs)"
proof (cases a)
  case (DltValue type v)
  have "nat_of_le (le_nat 4 (unat type)) = unat type"
    using unsigned_less[of type] by (intro nat_of_le_id) simp
  with DltValue assms show ?thesis by (subst dec_args.simps) simp
next
  case (DltString s)
  have "nat_of_le (le_nat 4 (unat STRING_TYPE)) = unat STRING_TYPE"
    using unsigned_less[of STRING_TYPE] by (intro nat_of_le_id) simp
  moreover have "nat_of_le (le_nat 2 (length s + 1)) = length s + 1"
    using DltString assms by (intro nat_of_le_id) simp
  ultimately show ?thesis
    using DltString by (subst dec_args.simps) (simp add: STRING_TYPE_def[symmetric])
qed

lemma dec_enc_args: "(\<And>a. a \<in> set as \<Longrightarrow> wf_arg a) \<Longrightarrow> dec_args (enc_args dlt_documented as) = Some as"
proof (induction as)
  case Nil
  show ?case by (subst dec_args.simps) (simp add: enc_args_def)
next
  case (Cons a as)
  then show ?case by (simp add: enc_args_def dec_enc_arg)
qed

lemma arg_of_wf:
  assumes "arg_of dlt_documented hex v = Some a"
  shows "case a of DltValue type w \<Rightarrow> wf_arg a | DltString s \<Rightarrow> True"
  using assms
  by (cases v) (auto simp: dlt_documented_def value_size_def STRING_TYPE_def hex_flag_def)

lemma room_bound: "room api as \<le> 16366"
  by (simp add: room_def size_constants)

lemma spec_put_wf:
  assumes "case a of DltValue type w \<Rightarrow> wf_arg a | DltString s \<Rightarrow> True"
    and "\<forall>b \<in> set (fst sp). wf_arg b"
  shows "\<forall>b \<in> set (fst (spec_put api a sp)). wf_arg b"
  using assms room_bound[of api "fst sp"]
  by (cases sp; cases a) (auto simp: truncated_arg_def)

lemma spec_formatted_wf:
  assumes "\<forall>b \<in> set (fst sp). wf_arg b"
  shows "\<forall>b \<in> set (fst (spec_formatted api t sp)). wf_arg b"
  using assms room_bound[of api "fst sp"] by (cases sp) (auto simp: truncated_arg_def)

lemma spec_run_wf:
  "spec_run dlt_documented ops sp = Some sp' \<Longrightarrow> \<forall>b \<in> set (fst sp). wf_arg b \<Longrightarrow>
     \<forall>b \<in> set (fst sp'). wf_arg b"
proof (induction ops arbitrary: sp)
  case (Cons op ops)
  from Cons.prems(1) obtain sp1 where sp1: "spec_do dlt_documented op sp = Some sp1"
    "spec_run dlt_documented ops sp1 = Some sp'"
    by (auto simp: bind_eq_Some_conv)
  have "\<forall>b \<in> set (fst sp1). wf_arg b"
  proof (cases op)
    case (OpWrite hex v)
    with sp1(1) obtain a where "arg_of dlt_documented hex v = Some a"
      and "sp1 = spec_put dlt_documented a sp" by auto
    with spec_put_wf[OF arg_of_wf Cons.prems(2)] show ?thesis by blast
  next
    case (OpFormatted f args)
    with sp1(1) obtain t where "sp1 = spec_formatted dlt_documented t sp" by auto
    with spec_formatted_wf[OF Cons.prems(2)] show ?thesis by blast
  qed
  with Cons.IH sp1(2) show ?case by blast
qed simp

section \<open>Messages that fit\<close>

abbreviation no_empty :: "dlt_arg list \<Rightarrow> dlt_arg list" where
  "no_empty \<equiv> filter (\<lambda>a. a \<noteq> DltString [])"

lemma spec_put_fits:
  assumes "length (enc_args api as) + length (enc_arg api a) < maxContentSize"
  shows "spec_put api a (as, False) = (as @ no_empty [a], False)"
proof -
  have "length (enc_arg api a) < room api as"
    using assms unfolding room_def by linarith
  then show ?thesis by (cases a) (auto simp: wire_simps)
qed

lemma enc_args_Cons: "enc_args api (a # as) = enc_arg api a @ enc_args api as"
  by (simp add: enc_args_def)

lemma spec_run_fits:
  assumes "map (arg_of api hex) vs = map Some bs"
    and "length (enc_args api as) + length (enc_args api bs) < maxContentSize"
  shows "spec_run api (map (OpWrite hex) vs) (as, False) = Some (as @ no_empty bs, False)"
  using assms
proof (induction vs arbitrary: as bs)
  case (Cons v vs)
  then obtain b bs' where bs: "bs = b # bs'" "arg_of api hex v = Some b" "map (arg_of api hex) vs = map Some bs'"
    by (cases bs) auto
  have "spec_put api b (as, False) = (as @ no_empty [b], False)"
    using Cons.prems(2) by (intro spec_put_fits) (simp add: bs(1) enc_args_Cons)
  moreover have "length (enc_args api (as @ no_empty [b])) + length (enc_args api bs') < maxContentSize"
    using Cons.prems(2) by (auto simp: bs(1) enc_args_Cons enc_args_simps split: if_splits)
  ultimately show ?case
    using Cons.IH[OF bs(3)] bs by simp
qed (simp add: enc_args_simps)

text \<open>What the code prints: the warning of the truncated message, once, when the message is closed.\<close>

definition too_large_warning :: "bool \<Rightarrow> string" where
  "too_large_warning closed = (if closed then ''DLT message too large'' @ [LF] else [])"

definition told :: "dlt_data \<Rightarrow> bool" where
  "told d \<longleftrightarrow> dd_printed d = too_large_warning (dd_isFull d)"

lemmas told_defs = told_def too_large_warning_def

lemma told_addMessageTooLargeIndication: "told d \<Longrightarrow> told (addMessageTooLargeIndication api d)"
  by (auto simp: told_defs addMessageTooLargeIndication_def)

lemma told_writeBuffer: "told (writeBuffer v d) = told d"
  by (simp add: told_defs writeBuffer_def)

lemma told_writeType: "told (writeType type d) = told d"
  by (simp add: told_defs writeType_def writeBuffer_def Let_def)

lemmas told_ops = told_addMessageTooLargeIndication told_writeBuffer told_writeType

lemma told_writeWithTypeInfo: "told d \<Longrightarrow> told (writeWithTypeInfo api type value d)"
  by (simp add: writeWithTypeInfo_def checkOverflow_def Let_def told_ops split: prod.split)

lemma told_write_chars: "told d \<Longrightarrow> told (write_chars api v d)"
  by (simp add: write_chars_def Let_def told_ops)

lemma told_writeFormatted:
  assumes "told d" and "dlt_writeFormatted api format args d = Some d'"
  shows "told d'"
proof -
  have content: "told (d\<lparr>dd_content := c\<rparr>) = told d" for c d by (simp add: told_defs)
  show ?thesis
    using assms by (auto simp: dlt_writeFormatted_def reserve_def Let_def told_ops content split: bind_splits if_splits)
qed

lemma told_dlt_write: "told d \<Longrightarrow> dlt_write api hex v d = Some d' \<Longrightarrow> told d'"
  by (cases v) (auto simp: told_writeWithTypeInfo told_write_chars simp del: le_nat.simps split: option.splits)

lemma told_dlt_do: "told d \<Longrightarrow> dlt_do api op d = Some d' \<Longrightarrow> told d'"
  by (cases op) (auto intro: told_dlt_write told_writeFormatted)

lemma told_dlt_run: "told d \<Longrightarrow> dlt_run api ops d = Some d' \<Longrightarrow> told d'"
  by (induction ops arbitrary: d) (auto simp: bind_eq_Some_conv dest: told_dlt_do)

lemma told_dlt_finish: "told d \<Longrightarrow> dlt_finish api sourceInfo thread li d = Some d' \<Longrightarrow> told d'"
  by (auto simp: dlt_finish_def dlt_write_location_def dlt_write_thread_def Let_def
      simp del: dlt_write.simps intro!: told_write_chars elim: told_dlt_write[rotated]
      split: if_splits option.splits bind_splits)

lemma closed_dlt_write: "dd_isFull d \<Longrightarrow> dlt_write api hex v d = Some d' \<Longrightarrow> d' = d"
  by (cases v) (auto simp: writeWithTypeInfo_def checkOverflow_def write_chars_def getAvailableSpace_def
      addMessageTooLargeIndication_def Let_def split: option.splits)

lemma closed_dlt_do: "dd_isFull d \<Longrightarrow> dlt_do api op d = Some d' \<Longrightarrow> d' = d"
  by (cases op) (auto simp: closed_dlt_write dlt_writeFormatted_def getAvailableSpace_def
      addMessageTooLargeIndication_def)

lemma closed_dlt_run: "dd_isFull d \<Longrightarrow> dlt_run api ops d = Some d' \<Longrightarrow> d' = d"
  by (induction ops arbitrary: d) (auto simp: bind_eq_Some_conv dest: closed_dlt_do)

section \<open>Complete or marked\<close>

text \<open>The arguments a sequence of calls asks for, without regard to the room there is.\<close>

fun op_args :: "dlt_api \<Rightarrow> log_op \<Rightarrow> dlt_arg list option" where
  "op_args api (OpWrite hex v) = map_option (\<lambda>a. no_empty [a]) (arg_of api hex v)"
| "op_args api (OpFormatted f args) = map_option (\<lambda>t. [DltString t]) (c_format f args)"

fun whole_args :: "dlt_api \<Rightarrow> log_op list \<Rightarrow> dlt_arg list option" where
  "whole_args api [] = Some []"
| "whole_args api (op # ops) = do {
     as \<leftarrow> op_args api op;
     bs \<leftarrow> whole_args api ops;
     Some (as @ bs) }"

text \<open>
  A formatted text one character too long for the space that is left: the code takes it for one that
  fits (\<open>formatted_text_cut_unmarked\<close> below).
\<close>

fun just_misses :: "dlt_api \<Rightarrow> log_op \<Rightarrow> dlt_arg list \<Rightarrow> bool" where
  "just_misses api (OpWrite hex v) as = False"
| "just_misses api (OpFormatted f args) as = (case c_format f args of None \<Rightarrow> False
     | Some t \<Rightarrow> t \<noteq> [] \<and> room api as = length t + 7)"

fun some_just_misses :: "dlt_api \<Rightarrow> log_op list \<Rightarrow> dlt_arg list \<Rightarrow> bool" where
  "some_just_misses api [] as = False"
| "some_just_misses api (op # ops) as = (just_misses api op as \<or>
     (case spec_do api op (as, False) of Some (bs, False) \<Rightarrow> some_just_misses api ops bs | _ \<Rightarrow> False))"

definition piece_of :: "dlt_arg \<Rightarrow> dlt_arg list \<Rightarrow> bool" where
  "piece_of a piece \<longleftrightarrow> piece = [] \<or> (\<exists>s s'. a = DltString s \<and> piece = [DltString s'] \<and> (\<exists>r. r \<noteq> [] \<and> s = s' @ r))"

text \<open>What one call does to an open message: its argument is added whole, or the message is closed.\<close>

lemma spec_put_closed: "spec_put api a (as, True) = (as, True)"
  by (cases a) simp_all

lemma take_piece: "n < length s \<Longrightarrow> \<exists>r. r \<noteq> [] \<and> s = take n s @ r"
  by (intro exI[of _ "drop n s"]) simp

lemma spec_do_open:
  assumes "spec_do api op (as, False) = Some (bs, closed)" and "\<not> just_misses api op as"
  shows "\<exists>xs. op_args api op = Some xs \<and> (if closed
    then \<exists>a piece. xs = [a] \<and> bs = as @ piece @ [truncated_arg] \<and> piece_of a piece else bs = as @ xs)"
proof (cases op)
  case (OpWrite hex v)
  with assms(1) obtain a where a: "arg_of api hex v = Some a" "spec_put api a (as, False) = (bs, closed)" by auto
  show ?thesis
  proof (cases a)
    case (DltValue type w)
    with a OpWrite show ?thesis by (auto simp: piece_of_def split: if_splits)
  next
    case (DltString s)
    with a OpWrite take_piece[of "room api as - 7" s] show ?thesis
      by (auto simp: piece_of_def split: if_splits)
  qed
next
  case (OpFormatted f args)
  with assms(1) obtain t where t: "c_format f args = Some t" "spec_formatted api t (as, False) = (bs, closed)" by auto
  have "t = [] \<or> room api as \<noteq> length t + 7" using assms(2) OpFormatted t(1) by simp
  with t OpFormatted take_piece[of "room api as - 8" t] show ?thesis
    by (auto simp: piece_of_def split: if_splits)
qed


lemma spec_do_closed: "spec_do api op (as, True) = Some sp \<Longrightarrow> sp = (as, True)"
  by (cases op) (auto simp: spec_put_closed)

lemma spec_do_args: "(\<exists>sp'. spec_do api op sp = Some sp') \<longleftrightarrow> (\<exists>xs. op_args api op = Some xs)"
  by (cases op) auto

lemma spec_run_whole:
  assumes "whole_args api ops = Some ws"
  shows "\<exists>sp'. spec_run api ops sp = Some sp'"
  using assms
proof (induction ops arbitrary: ws sp)
  case (Cons op ops)
  then obtain xs ys where "op_args api op = Some xs" "whole_args api ops = Some ys" by (auto split: bind_splits)
  with spec_do_args[of api op sp] Cons.IH show ?case by fastforce
qed simp

lemma spec_run_closed: "spec_run api ops (as, True) = Some sp \<Longrightarrow> sp = (as, True)"
proof (induction ops)
  case (Cons op ops)
  then show ?case by (auto split: bind_splits dest: spec_do_closed)
qed simp

lemma spec_run_complete:
  assumes "spec_run api ops (as, False) = Some (bs, closed)" and "\<not> some_just_misses api ops as"
    and "whole_args api ops = Some ws"
  shows "if closed then \<exists>pre a post piece. ws = pre @ a # post \<and> bs = as @ pre @ piece @ [truncated_arg] \<and> piece_of a piece
    else bs = as @ ws"
  using assms
proof (induction ops arbitrary: as ws)
  case (Cons op ops)
  then obtain bs1 c1 xs ys where op: "spec_do api op (as, False) = Some (bs1, c1)" "spec_run api ops (bs1, c1) = Some (bs, closed)"
    "op_args api op = Some xs" "whole_args api ops = Some ys" "ws = xs @ ys"
    by (auto split: bind_splits)
  have "\<not> just_misses api op as" using Cons.prems(2) by simp
  note step = spec_do_open[OF op(1) this]
  show ?case
  proof (cases c1)
    case True
    with step op obtain a piece where "xs = [a]" "bs1 = as @ piece @ [truncated_arg]" "piece_of a piece" by auto
    with spec_run_closed[of api ops bs1] op True show ?thesis by (fastforce intro: exI[of _ "[]"])
  next
    case False
    with step op have bs1: "bs1 = as @ xs" by auto
    have "\<not> some_just_misses api ops bs1" using Cons.prems(2) op(1) False by simp
    from Cons.IH[OF _ this op(4)] op(2) False have IH: "if closed
      then \<exists>pre a post piece. ys = pre @ a # post \<and> bs = bs1 @ pre @ piece @ [truncated_arg] \<and> piece_of a piece
      else bs = bs1 @ ys" by simp
    show ?thesis
    proof (cases closed)
      case True
      with IH obtain pre a post piece where "ys = pre @ a # post" "bs = bs1 @ pre @ piece @ [truncated_arg]" "piece_of a piece"
        by auto
      with op(5) bs1 have "ws = (xs @ pre) @ a # post" "bs = as @ (xs @ pre) @ piece @ [truncated_arg]" by simp_all
      with \<open>piece_of a piece\<close> show ?thesis unfolding if_P[OF True] by blast
    qed (use IH op(5) bs1 in simp)
  qed
qed simp

section \<open>Properties\<close>

text \<open>
  C1. Refinement: any sequence of \<open>write\<close> and \<open>writeFormatted\<close> calls builds exactly the payload of
  the specification (a list of typed arguments, closed by a \<open>..truncated\<close> argument when room runs
  out), never writes past the 16384 bytes of the buffer, and counts its arguments (modulo 256,
  the width of the protocol's field).
\<close>

theorem dlt_message_refines:
  assumes "spec_run api ops ([], False) = Some (as, closed)"
  shows "\<exists>d. dlt_run api ops dlt_data_new = Some d \<and> dd_content d = enc_args api as \<and>
    dd_isFull d = closed \<and> unat (dd_argsCount d) = length as mod 256 \<and>
    length (dd_content d) \<le> 16384"
proof -
  have "dlt_rel api dlt_data_new ([], False)"
    by (rule dlt_new_rel) (simp_all add: dlt_data_new_def)
  from dlt_run_rel[OF this assms] obtain d where "dlt_run api ops dlt_data_new = Some d"
    "dlt_rel api d (as, closed)" by blast
  then show ?thesis
    by (auto simp: dlt_rel_def unat_of_nat size_constants split: if_splits)
qed

definition sample_ops :: "log_op list" where
  "sample_ops = [OpWrite False (VView ''temperature''), OpWrite False (VView []),
     OpWrite True (VUShort 0x1F), OpFormatted ''%s!'' [AStr ''hot'']]"

definition sample_args :: "dlt_arg list" where
  "sample_args = [DltString ''temperature'', DltValue 0x10042 [0x1F, 0], DltString ''hot!'']"

lemma le_nat_numeral: "le_nat (numeral k) x = word_of_nat (x mod 256) # le_nat (pred_numeral k) (x div 256)"
  by (simp only: numeral_eq_Suc[of k] le_nat.simps)

lemma sample_spec_run: "spec_run dlt_documented sample_ops ([], False) = Some (sample_args, False)"
proof -
  have f: "c_format ''%s!'' [AStr ''hot''] = Some ''hot!''" by (simp add: printf_eval)
  have a: "arg_of dlt_documented True (VUShort 0x1F) = Some (DltValue 0x10042 [0x1F, 0])"
    by (simp add: dlt_documented_def hex_flag_def le_nat_numeral)
  show ?thesis
    by (simp add: sample_ops_def sample_args_def f a room_def enc_args_Cons enc_args_simps length_enc_arg
        size_constants del: c_format.simps enc_arg.simps arg_of.simps(7))
qed

theorem dlt_message_refines_witness:
  "\<exists>d. dlt_run dlt_documented sample_ops dlt_data_new = Some d \<and>
     dd_content d = enc_args dlt_documented sample_args \<and> unat (dd_argsCount d) = 3"
  using dlt_message_refines[OF sample_spec_run] by (auto simp: sample_args_def)

text \<open>
  C2. Round trip: a reader that follows the protocol's verbose mode decodes the payload into
  exactly the arguments of the specification, for every sequence of calls, truncated or not.
\<close>

theorem dlt_payload_decodes:
  assumes "spec_run dlt_documented ops ([], False) = Some (as, closed)"
  shows "\<exists>d. dlt_run dlt_documented ops dlt_data_new = Some d \<and> dec_args (dd_content d) = Some as"
proof -
  have "dlt_rel dlt_documented dlt_data_new ([], False)"
    by (rule dlt_new_rel) (simp_all add: dlt_data_new_def)
  from dlt_run_rel[OF this assms] obtain d where "dlt_run dlt_documented ops dlt_data_new = Some d"
    "dd_content d = enc_args dlt_documented as" by (auto simp: dlt_rel_def)
  moreover have "\<forall>b \<in> set as. wf_arg b"
    using spec_run_wf[OF assms] by simp
  ultimately show ?thesis by (auto simp: dec_enc_args)
qed

theorem dlt_payload_decodes_witness:
  "\<exists>d. dlt_run dlt_documented sample_ops dlt_data_new = Some d \<and> dec_args (dd_content d) = Some sample_args"
  by (rule dlt_payload_decodes[OF sample_spec_run])

text \<open>
  C24. Nothing is lost as long as it fits: when the arguments of the logged values take less than
  16366 bytes together, the reader gets every one of them, in order and whole, with the value's
  type word; only empty strings leave no argument.
\<close>

theorem fitting_values_are_logged_whole:
  assumes "map (arg_of dlt_documented hex) vs = map Some bs"
    and "length (enc_args dlt_documented bs) < 16366"
  shows "\<exists>d. dlt_run dlt_documented (map (OpWrite hex) vs) dlt_data_new = Some d \<and>
    \<not> dd_isFull d \<and> dec_args (dd_content d) = Some (no_empty bs)"
proof -
  have r: "dlt_rel dlt_documented dlt_data_new ([], False)"
    by (rule dlt_new_rel) (simp_all add: dlt_data_new_def)
  have run: "spec_run dlt_documented (map (OpWrite hex) vs) ([], False) = Some (no_empty bs, False)"
    using spec_run_fits[OF assms(1), of "[]"] assms(2) by (simp add: size_constants enc_args_simps)
  from spec_run_wf[OF run] have "dec_args (enc_args dlt_documented (no_empty bs)) = Some (no_empty bs)"
    by (intro dec_enc_args) simp
  with dlt_run_rel[OF r run] show ?thesis by (auto simp: dlt_rel_def)
qed

theorem fitting_values_are_logged_whole_witness:
  "\<exists>d. dlt_run dlt_documented (map (OpWrite False) [VInt 5, VBool True, VView ''ok'']) dlt_data_new = Some d \<and>
     dec_args (dd_content d) = Some [DltValue 0x23 [5, 0, 0, 0], DltValue 0x10 [1], DltString ''ok'']"
proof -
  let ?vs = "[VInt 5, VBool True, VView ''ok'']"
  let ?bs = "[DltValue 0x23 [5, 0, 0, 0], DltValue 0x10 [1], DltString ''ok'']"
  have "map (arg_of dlt_documented False) ?vs = map Some ?bs"
    by (simp add: dlt_documented_def le_nat_numeral)
  moreover have "length (enc_args dlt_documented ?bs) < 16366"
    by (simp add: enc_args_def)
  ultimately show ?thesis
    using fitting_values_are_logged_whole[of False ?vs ?bs] by auto
qed

text \<open>
  C25. A message that lost anything says so. For any sequence of calls that asks for the arguments
  \<open>ws\<close>, of which no formatted text is exactly one character too long for the room left (the one
  cut that \<open>writeFormatted\<close> does not notice, \<open>formatted_text_cut_unmarked\<close> below): a message that is
  not closed decodes to all of \<open>ws\<close>; a closed one decodes to arguments of \<open>ws\<close> in order and whole,
  then at most a cut piece of the next one, then the \<open>..truncated\<close> argument, and no later call
  changes it.
\<close>

theorem message_complete_or_marked:
  assumes "whole_args dlt_documented ops = Some ws" and "\<not> some_just_misses dlt_documented ops []"
  shows "\<exists>d. dlt_run dlt_documented ops dlt_data_new = Some d \<and>
    (if dd_isFull d
     then (\<exists>pre a post piece. ws = pre @ a # post \<and> piece_of a piece \<and>
         dec_args (dd_content d) = Some (pre @ piece @ [truncated_arg])) \<and>
       (\<forall>later d'. dlt_run dlt_documented later d = Some d' \<longrightarrow> d' = d)
     else dec_args (dd_content d) = Some ws)"
proof -
  from spec_run_whole[OF assms(1)] obtain as closed where
    run: "spec_run dlt_documented ops ([], False) = Some (as, closed)" by (metis surj_pair)
  have "dlt_rel dlt_documented dlt_data_new ([], False)"
    by (rule dlt_new_rel) (simp_all add: dlt_data_new_def)
  from dlt_run_rel[OF this run] obtain d where d: "dlt_run dlt_documented ops dlt_data_new = Some d"
    "dd_content d = enc_args dlt_documented as" "dd_isFull d = closed" by (auto simp: dlt_rel_def)
  have "dec_args (enc_args dlt_documented as) = Some as"
    using spec_run_wf[OF run] by (intro dec_enc_args) simp
  with spec_run_complete[OF run assms(2,1)] d closed_dlt_run[of d dlt_documented] show ?thesis
    by (intro exI[of _ d]) (auto split: if_splits)
qed

theorem message_complete_or_marked_witness:
  "\<exists>d pre piece. dlt_run dlt_documented [OpWrite False (VBool True), OpWrite False (VView (replicate 20000 CHR ''x''))]
      dlt_data_new = Some d \<and> dd_isFull d \<and>
     dec_args (dd_content d) = Some (pre @ piece @ [truncated_arg]) \<and> length piece \<le> 1 \<and>
     pre = take (length pre) [DltValue 0x10 [1], DltString (replicate 20000 CHR ''x'')] \<and>
     dlt_run dlt_documented [OpWrite False (VInt 7)] d = Some d"
proof -
  let ?s = "replicate 20000 CHR ''x''"
  let ?ops = "[OpWrite False (VBool True), OpWrite False (VView ?s)]"
  have w: "whole_args dlt_documented ?ops = Some [DltValue 0x10 [1], DltString ?s]"
    by (simp add: dlt_documented_def)
  have m: "\<not> some_just_misses dlt_documented ?ops []" by (simp split: option.split prod.split bool.split)
  have "\<exists>as. spec_run dlt_documented ?ops ([], False) = Some (as, True)"
    by (simp add: room_def size_constants enc_args_simps)
  moreover have "dlt_rel dlt_documented dlt_data_new ([], False)"
    by (rule dlt_new_rel) (simp_all add: dlt_data_new_def)
  ultimately obtain d where d: "dlt_run dlt_documented ?ops dlt_data_new = Some d" "dd_isFull d"
    using dlt_run_rel by (fastforce simp: dlt_rel_def)
  obtain d' where d': "dlt_run dlt_documented [OpWrite False (VInt 7)] d = Some d'" by simp
  from message_complete_or_marked[OF w m] d obtain pre a post piece where
    r: "[DltValue 0x10 [1], DltString ?s] = pre @ a # post" "piece_of a piece"
    "dec_args (dd_content d) = Some (pre @ piece @ [truncated_arg])"
    "\<forall>later d'. dlt_run dlt_documented later d = Some d' \<longrightarrow> d' = d" by auto
  have "pre = take (length pre) [DltValue 0x10 [1], DltString ?s]" unfolding r(1) by simp
  moreover have "length piece \<le> 1" using r(2) by (auto simp: piece_of_def)
  ultimately show ?thesis using d r(3,4) d' by metis
qed

text \<open>
  The boundary of \<open>writeFormatted\<close>: a formatted text one character too long for the space that
  is left loses that character and the message is not marked as truncated, because the
  comparison with the space does not count the NUL that \<open>snprintf\<close> adds.
\<close>

lemma formatted_text_cut_unmarked:
  assumes "spec_run api ops ([], False) = Some (as, False)" and "c_format f args = Some t"
    and "room api as = length t + 7" and "t \<noteq> []"
  shows "\<exists>d. dlt_run api (ops @ [OpFormatted f args]) dlt_data_new = Some d \<and> \<not> dd_isFull d \<and>
    dd_content d = enc_args api (as @ [DltString (butlast t)])"
proof -
  have app: "spec_run api (ops @ ops') sp = spec_run api ops sp \<bind> spec_run api ops'" for ops' sp
    by (induction ops arbitrary: sp) (auto split: bind_splits)
  have "spec_run api (ops @ [OpFormatted f args]) ([], False) = Some (as @ [DltString (butlast t)], False)"
    using assms by (simp add: app butlast_conv_take)
  moreover have "dlt_rel api dlt_data_new ([], False)"
    by (rule dlt_new_rel) (simp_all add: dlt_data_new_def)
  ultimately show ?thesis using dlt_run_rel by (fastforce simp: dlt_rel_def)
qed

lemma formatted_text_cut_unmarked_witness:
  "\<exists>d. dlt_run dlt_documented [OpFormatted (replicate 16359 CHR ''x'') []] dlt_data_new = Some d \<and>
     \<not> dd_isFull d \<and> dd_content d = enc_args dlt_documented [DltString (butlast (replicate 16359 CHR ''x''))]"
proof -
  let ?t = "replicate 16359 CHR ''x''"
  have "c_format ?t [] = Some ?t" by (rule c_format_plain) simp
  moreover have "room dlt_documented [] = length ?t + 7" "?t \<noteq> []"
    by (simp_all add: room_def size_constants enc_args_def)
  ultimately show ?thesis
    using formatted_text_cut_unmarked[of dlt_documented "[]" "[]" ?t "[]" ?t] by simp
qed

end
