(* ===== verification/Dlt_Daemon.thy ===== *)
theory Dlt_Daemon
  imports Dlt_Data
begin

text \<open>
  The connection to the DLT daemon: \<open>DltCppContextClass\<close> and \<open>DaemonConnection\<close> of
  \<open>include/ivi-logging-dltcpp.h\<close> and \<open>src/ivi-logging-dltcpp.cpp\<close>. Contexts are objects outside
  the connection that it points to: \<open>dm_store\<close> is the memory that holds them and \<open>m_contexts\<close> the
  vector of pointers. The results of the system calls are the record \<open>dlt_os\<close>: the \<open>n\<close>-th \<open>open\<close>
  of the daemon's FIFO, the number of bytes the \<open>n\<close>-th \<open>writev\<close> accepted (\<open>None\<close> for an error)
  and the clock. \<open>dm_wire\<close> is what has reached the FIFO, one entry per successful \<open>writev\<close>.
\<close>

section \<open>Contexts\<close>

record DltExtendedHeader =
  eh_msin :: byte
  eh_noar :: byte
  eh_apid :: "byte list"
  eh_ctid :: "byte list"

definition DltExtendedHeader_init :: "dlt_api \<Rightarrow> DltExtendedHeader" where
  "DltExtendedHeader_init api =
     \<lparr>eh_msin = DLT_MSIN_VERB api OR push_bit (DLT_MSIN_MSTP_SHIFT api) (DLT_TYPE_LOG api),
      eh_noar = 0, eh_apid = replicate (DLT_ID_SIZE api) 0, eh_ctid = replicate (DLT_ID_SIZE api) 0\<rparr>"

record dlt_ctx =
  dc_context :: LogContextCommon
  extendedHeader :: DltExtendedHeader
  dc_messageCount :: byte
  log_level_pos :: int
  m_activeLogLevel :: int

definition dlt_ctx_new :: "dlt_api \<Rightarrow> LogContextCommon \<Rightarrow> dlt_ctx" where
  "dlt_ctx_new api parent = \<lparr>dc_context = parent, extendedHeader = DltExtendedHeader_init api,
     dc_messageCount = 0, log_level_pos = -1, m_activeLogLevel = DLT_LOG_VERBOSE api\<rparr>"

definition dlt_isEnabled :: "dlt_api \<Rightarrow> dlt_ctx \<Rightarrow> LogLevel \<Rightarrow> bool" where
  "dlt_isEnabled api c logLevel \<longleftrightarrow> getDLTLogLevel api logLevel \<le> m_activeLogLevel c"

definition messageCounter :: "dlt_ctx \<Rightarrow> byte \<times> dlt_ctx" where
  "messageCounter c = (dc_messageCount c, c\<lparr>dc_messageCount := dc_messageCount c + 1\<rparr>)"

definition setActiveLogLevel :: "int \<Rightarrow> dlt_ctx \<Rightarrow> dlt_ctx" where
  "setActiveLogLevel level c = c\<lparr>m_activeLogLevel := level\<rparr>"

text \<open>\<open>DltCppLogData::init\<close>, without the debug build's fill of the buffer.\<close>

definition dlt_init :: "dlt_api \<Rightarrow> dlt_ctx \<Rightarrow> LogInfo \<Rightarrow> dlt_data \<Rightarrow> dlt_data \<times> dlt_ctx" where
  "dlt_init api c li d =
     (let d = d\<lparr>dd_dltLogLevel := getDLTLogLevel api (m_level li),
                dd_enabled := dlt_isEnabled api c (m_level li)\<rparr>;
          (n, c) = messageCounter c
      in (d\<lparr>dd_messageCount := n\<rparr>, c))"

section \<open>The connection\<close>

record dlt_os =
  open_result :: "nat \<Rightarrow> int"
  writev_result :: "nat \<Rightarrow> nat option"
  os_pid :: int
  os_clock :: "(int \<times> int) option"

record daemon =
  dm_store :: "nat \<Rightarrow> dlt_ctx"
  m_contexts :: "nat list"
  m_daemonFileDescriptor :: int
  dm_opens :: nat
  dm_writes :: nat
  dm_wire :: "byte list list"
  dm_out :: string

definition disconnectedFromDaemonFd :: int where "disconnectedFromDaemonFd = -1"

definition daemon_new :: "(nat \<Rightarrow> dlt_ctx) \<Rightarrow> daemon" where
  "daemon_new store = \<lparr>dm_store = store, m_contexts = [],
     m_daemonFileDescriptor = disconnectedFromDaemonFd, dm_opens = 0, dm_writes = 0, dm_wire = [],
     dm_out = []\<rparr>"

definition isDaemonConnected :: "daemon \<Rightarrow> bool" where
  "isDaemonConnected dm \<longleftrightarrow> m_daemonFileDescriptor dm \<noteq> disconnectedFromDaemonFd"

text \<open>
  The arguments of \<open>send\<close> are structures, sent as they lie in memory, and spans of bytes; \<open>to_iovec\<close>
  gives the bytes the entry of the vector designates.
\<close>

record span =
  span_data :: "byte list"
  span_size :: nat

datatype message_part = Object "byte list" | Buffer span

fun to_iovec :: "message_part \<Rightarrow> byte list" where
  "to_iovec (Object bs) = bs"
| "to_iovec (Buffer b) = take (span_size b) (span_data b)"

definition span_of :: "byte list \<Rightarrow> nat \<Rightarrow> message_part" where
  "span_of bs n = Buffer \<lparr>span_data = bs, span_size = n\<rparr>"

lemma to_iovec_span [simp]: "to_iovec (span_of bs n) = take n bs"
  by (simp add: span_of_def)

lemma take_text_bytes [simp]: "take n (text_bytes s) = text_bytes (take n s)"
  by (simp add: text_bytes_def take_map)

text \<open>\<open>writev\<close> on a closed descriptor fails; a failure closes the connection.\<close>

definition send :: "dlt_os \<Rightarrow> byte list list \<Rightarrow> daemon \<Rightarrow> daemon" where
  "send os buffers dm =
     (let r = (if isDaemonConnected dm then writev_result os (dm_writes dm) else None);
          dm = dm\<lparr>dm_writes := dm_writes dm + 1\<rparr>
      in case r of
           Some n \<Rightarrow> dm\<lparr>dm_wire := dm_wire dm @ [take n (concat buffers)]\<rparr>
         | None \<Rightarrow> dm\<lparr>dm_out := dm_out dm @ ''Could not write data to DLT daemon socket'' @ [LF],
                      m_daemonFileDescriptor := disconnectedFromDaemonFd\<rparr>)"

text \<open>A \<open>char[DLT_ID_SIZE]\<close> with an initialiser, and \<open>assign_id\<close>: a \<open>memcpy\<close> of \<open>DLT_ID_SIZE\<close>
  bytes from a C string, undefined when the string with its NUL is shorter.\<close>

definition id_array :: "dlt_api \<Rightarrow> byte list \<Rightarrow> byte list" where
  "id_array api cs = take (DLT_ID_SIZE api) (cs @ replicate (DLT_ID_SIZE api) 0)"

definition assign_id :: "dlt_api \<Rightarrow> string \<Rightarrow> byte list option" where
  "assign_id api src = (if DLT_ID_SIZE api \<le> length src + 1
     then Some (text_bytes (take (DLT_ID_SIZE api) (src @ [NUL]))) else None)"

datatype MessageType = SendLog | RegisterApp | RegisterContext | LogState | LogLevelMsg

fun message_value :: "MessageType \<Rightarrow> nat" where
  "message_value SendLog = 1"
| "message_value RegisterApp = 2"
| "message_value RegisterContext = 4"
| "message_value LogState = 12"
| "message_value LogLevelMsg = 6"

definition DltUserHeader :: "dlt_api \<Rightarrow> MessageType \<Rightarrow> byte list" where
  "DltUserHeader api m = id_array api (text_bytes ''DUH'' @ [1]) @ le_nat 4 (message_value m)"

definition DltUserControlMsgRegisterApplication :: "byte list \<Rightarrow> int \<Rightarrow> nat \<Rightarrow> byte list" where
  "DltUserControlMsgRegisterApplication apid pid description_length =
     apid @ le_int 4 pid @ le_nat 4 description_length"

definition DltUserControlMsgRegisterContext ::
    "byte list \<Rightarrow> byte list \<Rightarrow> int \<Rightarrow> int \<Rightarrow> int \<Rightarrow> int \<Rightarrow> nat \<Rightarrow> byte list" where
  "DltUserControlMsgRegisterContext apid ctid pos log_level trace_status pid description_length =
     apid @ ctid @ le_int 4 pos @ le_int 1 log_level @ le_int 1 trace_status @ le_int 4 pid @
     le_nat 4 description_length"

definition sendContextRegistration :: "dlt_api \<Rightarrow> dlt_os \<Rightarrow> AppLogContext option \<Rightarrow> nat \<Rightarrow>
    daemon \<Rightarrow> daemon option" where
  "sendContextRegistration api os s_app cid dm = do {
     let context = dm_store dm cid;
     let description = cstr (ctx_description (dc_context context));
     app \<leftarrow> s_app;
     apid \<leftarrow> assign_id api (app_id app);
     ctid \<leftarrow> assign_id api (ctx_id (dc_context context));
     let registerMessage = DltUserControlMsgRegisterContext apid ctid (log_level_pos context)
           (-2) (-2) (os_pid os) (length description);
     let context = context\<lparr>extendedHeader := (extendedHeader context)\<lparr>eh_apid := apid, eh_ctid := ctid\<rparr>\<rparr>;
     let dm = dm\<lparr>dm_store := (dm_store dm)(cid := context)\<rparr>;
     Some (send os (map to_iovec [Object (DltUserHeader api RegisterContext), Object registerMessage,
       span_of (text_bytes description) (length description)]) dm) }"

fun registerAll :: "dlt_api \<Rightarrow> dlt_os \<Rightarrow> AppLogContext option \<Rightarrow> nat list \<Rightarrow> daemon \<Rightarrow> daemon option" where
  "registerAll api os s_app [] dm = Some dm"
| "registerAll api os s_app (cid # cids) dm =
     sendContextRegistration api os s_app cid dm \<bind> registerAll api os s_app cids"

text \<open>
  The description with the process id is formatted into 1024 bytes, but as many bytes are sent as
  the whole text has: \<open>None\<close> when that reads past the array.
\<close>

definition initDaemonConnection :: "dlt_api \<Rightarrow> dlt_os \<Rightarrow> AppLogContext option \<Rightarrow> daemon \<Rightarrow> daemon option" where
  "initDaemonConnection api os s_app dm = (if \<not> isDaemonConnected dm then do {
     let dm = dm\<lparr>m_daemonFileDescriptor := open_result os (dm_opens dm), dm_opens := dm_opens dm + 1\<rparr>;
     if isDaemonConnected dm then do {
       let dm = dm\<lparr>dm_out := dm_out dm @ ''Connection to the DLT daemon established'' @ [LF]\<rparr>;
       app \<leftarrow> s_app;
       t \<leftarrow> c_format ''%s / PID:%i'' [AStr (app_description app), AInt (os_pid os)];
       let descriptionWithPID = snprintf_mem 1024 t;
       let descriptionLength = length t;
       apid \<leftarrow> assign_id api (app_id app);
       if descriptionLength > 1024 then None else do {
         let dm = send os (map to_iovec [Object (DltUserHeader api RegisterApp),
                    Object (DltUserControlMsgRegisterApplication apid (os_pid os) descriptionLength),
                    span_of (text_bytes descriptionWithPID) descriptionLength]) dm;
         registerAll api os s_app (m_contexts dm) dm } }
     else Some dm }
     else Some dm)"

definition registerContext :: "dlt_api \<Rightarrow> dlt_os \<Rightarrow> AppLogContext option \<Rightarrow> nat \<Rightarrow>
    daemon \<Rightarrow> (int \<times> daemon) option" where
  "registerContext api os s_app cid dm = do {
     let pos = int (length (m_contexts dm));
     let dm = dm\<lparr>dm_store := (dm_store dm)(cid := (dm_store dm cid)\<lparr>log_level_pos := pos\<rparr>),
                 m_contexts := m_contexts dm @ [cid]\<rparr>;
     dm \<leftarrow> initDaemonConnection api os s_app dm;
     dm \<leftarrow> (if isDaemonConnected dm then sendContextRegistration api os s_app cid dm else Some dm);
     Some (pos, dm) }"

definition dlt_uptime :: "dlt_os \<Rightarrow> 32 word" where
  "dlt_uptime os = (case os_clock os of
     Some (sec, nsec) \<Rightarrow> word_of_int sec * 10000 + word_of_int nsec div 100000
   | None \<Rightarrow> 0)"

definition DltStandardHeader :: "dlt_api \<Rightarrow> byte \<Rightarrow> 16 word \<Rightarrow> byte list" where
  "DltStandardHeader api mcnt len = [DLT_HTYP api, mcnt] @ be_nat 2 (unat len)"

definition DltStandardHeaderExtra :: "dlt_api \<Rightarrow> int \<Rightarrow> 32 word \<Rightarrow> byte list" where
  "DltStandardHeaderExtra api seid tmsp =
     id_array api (text_bytes ''ECU1'') @ be_nat 4 (nat (seid mod 2 ^ 32)) @ be_nat 4 (unat tmsp)"

definition enc_DltExtendedHeader :: "DltExtendedHeader \<Rightarrow> byte list" where
  "enc_DltExtendedHeader h = [eh_msin h, eh_noar h] @ eh_apid h @ eh_ctid h"

definition log_extended_header :: "dlt_api \<Rightarrow> dlt_ctx \<Rightarrow> dlt_data \<Rightarrow> DltExtendedHeader" where
  "log_extended_header api context d =
     (let h = extendedHeader context
      in h\<lparr>eh_msin := eh_msin h OR
             (word_of_int (dd_dltLogLevel d * 2 ^ DLT_MSIN_MTIN_SHIFT api) AND DLT_MSIN_MTIN api),
           eh_noar := dd_argsCount d\<rparr>)"

definition standardheaderLen :: "dlt_api \<Rightarrow> dlt_data \<Rightarrow> 16 word" where
  "standardheaderLen api d = word_of_nat (4 + (2 + 2 * DLT_ID_SIZE api) +
     DLT_STANDARD_HEADER_EXTRA_SIZE api (DLT_HTYP api) + m_contentSize d)"

definition log_message :: "dlt_api \<Rightarrow> dlt_os \<Rightarrow> dlt_ctx \<Rightarrow> dlt_data \<Rightarrow> byte list list" where
  "log_message api os context d =
     map to_iovec [Object (DltUserHeader api SendLog),
      Object (DltStandardHeader api (dd_messageCount d) (standardheaderLen api d)),
      Object (DltStandardHeaderExtra api (os_pid os) (dlt_uptime os)),
      Object (enc_DltExtendedHeader (log_extended_header api context d)),
      span_of (dd_content d) (m_contentSize d)]"

definition sendLog :: "dlt_api \<Rightarrow> dlt_os \<Rightarrow> AppLogContext option \<Rightarrow> nat \<Rightarrow> dlt_data \<Rightarrow>
    daemon \<Rightarrow> daemon option" where
  "sendLog api os s_app cid d dm = do {
     dm \<leftarrow> initDaemonConnection api os s_app dm;
     Some (if isDaemonConnected dm then send os (log_message api os (dm_store dm cid) d) dm else dm) }"

text \<open>
  The destructor of a log entry's DLT part: the trailing arguments, then the message. The text is what
  the part has printed in its life.
\<close>

definition dlt_flush :: "dlt_api \<Rightarrow> dlt_os \<Rightarrow> AppLogContext option \<Rightarrow> bool \<Rightarrow> (int \<times> string) option \<Rightarrow>
    LogInfo \<Rightarrow> nat \<Rightarrow> dlt_data \<Rightarrow> daemon \<Rightarrow> (string \<times> daemon) option" where
  "dlt_flush api os s_app sourceInfo thread li cid d dm = (if dd_enabled d then do {
     d \<leftarrow> dlt_finish api sourceInfo thread li d;
     dm \<leftarrow> sendLog api os s_app cid d dm;
     Some (dd_printed d, dm) }
     else Some (dd_printed d, dm))"

section \<open>Messages from the daemon\<close>

text \<open>A negative index passes the comparison and is used on the vector: undefined.\<close>

definition applyLogLevel :: "int \<Rightarrow> int \<Rightarrow> daemon \<Rightarrow> daemon option" where
  "applyLogLevel pos level dm =
     (if pos < to_signed 32 (int (length (m_contexts dm))) then
        (if pos < 0 then None
         else let cid = m_contexts dm ! nat pos
              in Some (dm\<lparr>dm_store := (dm_store dm)(cid := setActiveLogLevel level (dm_store dm cid))\<rparr>))
      else Some dm)"

definition INCOMING_SIZE :: nat where "INCOMING_SIZE = 1024"

definition sizeof_DltUserHeader :: "dlt_api \<Rightarrow> nat" where
  "sizeof_DltUserHeader api = DLT_ID_SIZE api + 4"

text \<open>
  The loop over a received buffer: \<open>buffer\<close> is the whole array of 1024 bytes, of which the first
  \<open>byteCount\<close> were received; \<open>None\<close> when a message is read past the array.
\<close>

function incoming_loop :: "dlt_api \<Rightarrow> byte list \<Rightarrow> nat \<Rightarrow> nat \<Rightarrow> daemon \<Rightarrow> daemon option" where
  "incoming_loop api buffer byteCount p dm =
     (if byteCount > p + sizeof_DltUserHeader api then
        let message = nat_of_le (take 4 (drop (p + DLT_ID_SIZE api) buffer));
            p = p + sizeof_DltUserHeader api
        in if message = message_value LogState then incoming_loop api buffer byteCount (p + 1) dm
           else if message = message_value LogLevelMsg then
             (if p + 6 > length buffer then None
              else let level = int (unat (buffer ! p));
                       pos = to_signed 32 (int (nat_of_le (take 4 (drop (p + 2) buffer))))
                   in applyLogLevel pos level dm \<bind> incoming_loop api buffer byteCount (p + 6))
           else Some dm
      else Some dm)"
  by pat_completeness auto
termination
  by (relation "measure (\<lambda>(api, buffer, byteCount, p, dm). byteCount - p)")
     (auto simp: sizeof_DltUserHeader_def)

declare incoming_loop.simps [simp del]

text \<open>
  \<open>readable\<close>: \<open>poll\<close> reported exactly \<open>POLLIN\<close> for the FIFO; \<open>received\<close> is the result of \<open>read\<close>,
  \<open>None\<close> for an error; \<open>junk\<close> is what the uninitialised array held.
\<close>

definition handleIncomingMessage :: "dlt_api \<Rightarrow> bool \<Rightarrow> byte list option \<Rightarrow> byte list \<Rightarrow>
    daemon \<Rightarrow> daemon option" where
  "handleIncomingMessage api readable received junk dm =
     (if readable then
        (case received of None \<Rightarrow> Some dm
         | Some bs \<Rightarrow> incoming_loop api (blit junk 0 (take INCOMING_SIZE bs))
                        (length (take INCOMING_SIZE bs)) 0 dm)
      else Some dm)"

end
