(* ===== verification/Dlt_Session.thy ===== *)
theory Dlt_Session
  imports Dlt_Daemon
begin

text \<open>
  What the connection to the DLT daemon guarantees over its life. The events that reach a
  \<open>DaemonConnection\<close> (a context registers, a log entry is started, a message is sent, the daemon's
  FIFO delivers a buffer) are the step relation \<open>dm_step\<close>; \<open>dm_inv\<close> is its invariant: the position
  a registered context knows is one the vector has it at, and while the connection is up every registered
  context carries its identifiers. A context may be registered again, as two threads that use it for the
  first time do (Registration); it is then in the vector twice. The locale \<open>level_table\<close> is the contract of the table of log
  levels the daemon writes to, and \<open>applyLogLevel\<close> its instance.
\<close>

section \<open>Frame facts\<close>

lemma send_frame [wire_simps]:
  "dm_store (send os bs dm) = dm_store dm" "m_contexts (send os bs dm) = m_contexts dm"
  "dm_opens (send os bs dm) = dm_opens dm" "dm_writes (send os bs dm) = dm_writes dm + 1"
  by (simp_all add: send_def Let_def split: option.split)

lemma send_stays_disconnected: "\<not> isDaemonConnected dm \<Longrightarrow> \<not> isDaemonConnected (send os bs dm)"
  by (simp add: send_def isDaemonConnected_def)

lemma send_accepted:
  assumes "isDaemonConnected dm" and "writev_result os (dm_writes dm) = Some n"
    and "length (concat bs) \<le> n"
  shows "send os bs dm = dm\<lparr>dm_writes := dm_writes dm + 1, dm_wire := dm_wire dm @ [concat bs]\<rparr>"
  using assms by (simp add: send_def)

lemma send_failed:
  assumes "writev_result os (dm_writes dm) = None"
  shows "\<not> isDaemonConnected (send os bs dm) \<and> dm_wire (send os bs dm) = dm_wire dm"
  using assms by (simp add: send_def isDaemonConnected_def)

lemma send_connected_wire:
  assumes "isDaemonConnected (send os bs dm)"
  shows "\<exists>n. writev_result os (dm_writes dm) = Some n \<and>
    dm_wire (send os bs dm) = dm_wire dm @ [take n (concat bs)]"
  using assms by (auto simp: send_def Let_def isDaemonConnected_def split: option.splits if_splits)

section \<open>Registration messages\<close>

definition ids_of :: "dlt_api \<Rightarrow> AppLogContext \<Rightarrow> dlt_ctx \<Rightarrow> (byte list \<times> byte list) option" where
  "ids_of api app c = do {
     a \<leftarrow> assign_id api (app_id app);
     b \<leftarrow> assign_id api (ctx_id (dc_context c));
     Some (a, b) }"

definition has_ids :: "dlt_api \<Rightarrow> AppLogContext \<Rightarrow> dlt_ctx \<Rightarrow> bool" where
  "has_ids api app c \<longleftrightarrow>
     ids_of api app c = Some (eh_apid (extendedHeader c), eh_ctid (extendedHeader c))"

definition stamp_ids :: "dlt_api \<Rightarrow> AppLogContext \<Rightarrow> dlt_ctx \<Rightarrow> dlt_ctx" where
  "stamp_ids api app c = (case ids_of api app c of None \<Rightarrow> c
     | Some (a, b) \<Rightarrow> c\<lparr>extendedHeader := (extendedHeader c)\<lparr>eh_apid := a, eh_ctid := b\<rparr>\<rparr>)"

definition context_registration :: "dlt_api \<Rightarrow> dlt_os \<Rightarrow> AppLogContext \<Rightarrow> dlt_ctx \<Rightarrow> byte list" where
  "context_registration api os app c =
     (let (a, b) = the (ids_of api app c); t = cstr (ctx_description (dc_context c))
      in DltUserHeader api RegisterContext @
         DltUserControlMsgRegisterContext a b (log_level_pos c) (-2) (-2) (os_pid os) (length t) @
         text_bytes t)"

definition app_text :: "dlt_os \<Rightarrow> AppLogContext \<Rightarrow> string" where
  "app_text os app = cstr (app_description app) @ '' / PID:'' @ dec_text (to_signed 32 (os_pid os))"

definition app_registration :: "dlt_api \<Rightarrow> dlt_os \<Rightarrow> AppLogContext \<Rightarrow> byte list" where
  "app_registration api os app =
     DltUserHeader api RegisterApp @
     DltUserControlMsgRegisterApplication (the (assign_id api (app_id app))) (os_pid os)
       (length (app_text os app)) @
     text_bytes (app_text os app)"

lemma stamp_ids_simps [simp]:
  "dc_context (stamp_ids api app c) = dc_context c"
  "log_level_pos (stamp_ids api app c) = log_level_pos c"
  "m_activeLogLevel (stamp_ids api app c) = m_activeLogLevel c"
  "dc_messageCount (stamp_ids api app c) = dc_messageCount c"
  by (simp_all add: stamp_ids_def split: option.split prod.split)

lemma ids_of_stamp [simp]: "ids_of api app (stamp_ids api app c) = ids_of api app c"
  by (simp add: ids_of_def)

lemma stamp_ids_has_ids: "ids_of api app c \<noteq> None \<Longrightarrow> has_ids api app (stamp_ids api app c)"
  by (auto simp: has_ids_def stamp_ids_def ids_of_def split: option.splits bind_splits)

lemma context_registration_stamp [simp]:
  "context_registration api os app (stamp_ids api app c) = context_registration api os app c"
  by (simp add: context_registration_def)

lemma sendContextRegistration_eq:
  "sendContextRegistration api os (Some app) cid dm =
     (if ids_of api app (dm_store dm cid) = None then None
      else let c = dm_store dm cid; (a, b) = the (ids_of api app c);
               t = cstr (ctx_description (dc_context c))
           in Some (send os [DltUserHeader api RegisterContext,
                DltUserControlMsgRegisterContext a b (log_level_pos c) (-2) (-2) (os_pid os) (length t),
                text_bytes t]
              (dm\<lparr>dm_store := (dm_store dm)(cid := stamp_ids api app c)\<rparr>)))"
  by (auto simp: sendContextRegistration_def ids_of_def stamp_ids_def Let_def
      split: option.splits bind_splits)

lemma sendContextRegistration_frame:
  assumes "sendContextRegistration api os (Some app) cid dm = Some dm'"
  shows "m_contexts dm' = m_contexts dm" "ids_of api app (dm_store dm cid) \<noteq> None"
    "dm_store dm' = (dm_store dm)(cid := stamp_ids api app (dm_store dm cid))"
    "\<not> isDaemonConnected dm \<Longrightarrow> \<not> isDaemonConnected dm'"
proof -
  note eq = assms[unfolded sendContextRegistration_eq]
  show ids: "ids_of api app (dm_store dm cid) \<noteq> None"
    using eq by (auto split: if_splits)
  with eq show "m_contexts dm' = m_contexts dm"
    "dm_store dm' = (dm_store dm)(cid := stamp_ids api app (dm_store dm cid))"
    by (auto simp: Let_def wire_simps split: prod.splits if_splits)
  show "\<not> isDaemonConnected dm'" if "\<not> isDaemonConnected dm"
    using that eq ids
    by (auto simp: Let_def isDaemonConnected_def send_def split: prod.splits if_splits)
qed

text \<open>Registering a list of contexts stamps each of them.\<close>

definition stamp_all :: "dlt_api \<Rightarrow> AppLogContext \<Rightarrow> nat set \<Rightarrow> (nat \<Rightarrow> dlt_ctx) \<Rightarrow> nat \<Rightarrow> dlt_ctx" where
  "stamp_all api app S st = (\<lambda>k. if k \<in> S then stamp_ids api app (st k) else st k)"

lemma stamp_ids_twice [simp]: "stamp_ids api app (stamp_ids api app c) = stamp_ids api app c"
  unfolding stamp_ids_def by (simp add: ids_of_def split: option.split prod.split bind_split)

lemma registerAll_frame:
  assumes "registerAll api os (Some app) cids dm = Some dm'"
  shows "m_contexts dm' = m_contexts dm \<and> (\<forall>k \<in> set cids. ids_of api app (dm_store dm k) \<noteq> None) \<and>
    dm_store dm' = stamp_all api app (set cids) (dm_store dm) \<and>
    (\<not> isDaemonConnected dm \<longrightarrow> \<not> isDaemonConnected dm')"
  using assms
proof (induction cids arbitrary: dm)
  case Nil
  then show ?case by (simp add: stamp_all_def)
next
  case (Cons cid cids)
  then obtain dm1 where r: "sendContextRegistration api os (Some app) cid dm = Some dm1"
    "registerAll api os (Some app) cids dm1 = Some dm'"
    by (auto split: bind_splits)
  note f = sendContextRegistration_frame[OF r(1)] and ih = Cons.IH[OF r(2)]
  have "ids_of api app (dm_store dm k) \<noteq> None" if "k \<in> set cids" for k
    using ih that f(3) by (cases "k = cid") auto
  with ih f show ?case by (auto simp: stamp_all_def fun_eq_iff)
qed

section \<open>Opening the connection\<close>

lemma c_format_app_text:
  "c_format ''%s / PID:%i'' [AStr d, AInt v] = Some (cstr d @ '' / PID:'' @ dec_text (to_signed 32 v))"
  by (simp add: c_format.simps parse_spec_def conv_text_def is_digit_def int_text_def pad_left_def
      dec_text_def Let_def)

lemma initDaemonConnection_connected [simp]:
  "isDaemonConnected dm \<Longrightarrow> initDaemonConnection api os app dm = Some dm"
  by (simp add: initDaemonConnection_def)

definition reopened :: "dlt_os \<Rightarrow> daemon \<Rightarrow> daemon" where
  "reopened os dm = dm\<lparr>m_daemonFileDescriptor := open_result os (dm_opens dm),
     dm_opens := dm_opens dm + 1\<rparr>"

lemma reopened_simps [simp]:
  "dm_store (reopened os dm) = dm_store dm" "m_contexts (reopened os dm) = m_contexts dm"
  "dm_wire (reopened os dm) = dm_wire dm" "dm_writes (reopened os dm) = dm_writes dm"
  by (simp_all add: reopened_def)

definition established :: "daemon \<Rightarrow> daemon" where
  "established dm = dm\<lparr>dm_out := dm_out dm @ ''Connection to the DLT daemon established'' @ [LF]\<rparr>"

lemma established_simps [simp]:
  "dm_store (established dm) = dm_store dm" "m_contexts (established dm) = m_contexts dm"
  "dm_wire (established dm) = dm_wire dm" "dm_writes (established dm) = dm_writes dm"
  "isDaemonConnected (established dm) = isDaemonConnected dm"
  by (simp_all add: established_def isDaemonConnected_def)

text \<open>Opening with a description that fits: the application's message, then every context's.\<close>

lemma initDaemonConnection_eq:
  assumes "\<not> isDaemonConnected dm" and "isDaemonConnected (reopened os dm)"
  shows "initDaemonConnection api os (Some app) dm = do {
     apid \<leftarrow> assign_id api (app_id app);
     if length (app_text os app) > 1024 then None
     else registerAll api os (Some app) (m_contexts dm)
        (send os [DltUserHeader api RegisterApp,
            DltUserControlMsgRegisterApplication apid (os_pid os) (length (app_text os app)),
            text_bytes (take (length (app_text os app)) (snprintf_mem 1024 (app_text os app)))]
          (established (reopened os dm))) }"
proof -
  have r: "dm\<lparr>m_daemonFileDescriptor := open_result os (dm_opens dm), dm_opens := dm_opens dm + 1\<rparr>
      = reopened os dm" by (simp add: reopened_def)
  show ?thesis
    using assms
    unfolding initDaemonConnection_def r Let_def c_format_app_text app_text_def[symmetric]
      established_def[symmetric]
    by (simp add: wire_simps split: bind_split)
qed

lemma initDaemonConnection_refused:
  assumes "\<not> isDaemonConnected dm" and "\<not> isDaemonConnected (reopened os dm)"
  shows "initDaemonConnection api os app dm = Some (reopened os dm)"
  using assms by (simp add: initDaemonConnection_def reopened_def)

lemma initDaemonConnection_frame:
  assumes "initDaemonConnection api os (Some app) dm = Some dm'"
  shows "m_contexts dm' = m_contexts dm \<and>
    (dm_store dm' = dm_store dm \<and> (isDaemonConnected dm' \<longrightarrow> isDaemonConnected dm \<and> dm' = dm) \<or>
     dm_store dm' = stamp_all api app (set (m_contexts dm)) (dm_store dm) \<and>
     (\<forall>k \<in> set (m_contexts dm). ids_of api app (dm_store dm k) \<noteq> None))"
proof (cases "isDaemonConnected dm")
  case True
  with assms show ?thesis by simp
next
  case off: False
  show ?thesis
  proof (cases "isDaemonConnected (reopened os dm)")
    case False
    then have "dm' = reopened os dm"
      using assms initDaemonConnection_refused[OF off False, of api "Some app"] by simp
    with False show ?thesis by simp
  next
    case True
    from assms[unfolded initDaemonConnection_eq[OF off True]]
    obtain dm1 where r: "registerAll api os (Some app) (m_contexts dm) dm1 = Some dm'"
      and f: "dm_store dm1 = dm_store dm" "m_contexts dm1 = m_contexts dm"
      by (auto simp: wire_simps split: bind_splits if_splits)
    from registerAll_frame[OF r] f show ?thesis by auto
  qed
qed

section \<open>Events and invariant\<close>

inductive dm_step :: "dlt_api \<Rightarrow> AppLogContext \<Rightarrow> daemon \<Rightarrow> daemon \<Rightarrow> bool"
  for api :: dlt_api and app :: AppLogContext where
  step_register: "registerContext api os (Some app) cid dm = Some (pos, dm') \<Longrightarrow> dm_step api app dm dm'"
| step_entry: "dlt_init api (dm_store dm cid) li d = (d', c) \<Longrightarrow>
     dm_step api app dm (dm\<lparr>dm_store := (dm_store dm)(cid := c)\<rparr>)"
| step_log: "cid \<in> set (m_contexts dm) \<Longrightarrow> sendLog api os (Some app) cid d dm = Some dm' \<Longrightarrow>
     dm_step api app dm dm'"
| step_incoming: "handleIncomingMessage api readable received junk dm = Some dm' \<Longrightarrow>
     dm_step api app dm dm'"

inductive dm_reachable :: "dlt_api \<Rightarrow> AppLogContext \<Rightarrow> (nat \<Rightarrow> dlt_ctx) \<Rightarrow> daemon \<Rightarrow> bool"
  for api :: dlt_api and app :: AppLogContext and st :: "nat \<Rightarrow> dlt_ctx" where
  reach_new: "dm_reachable api app st (daemon_new st)"
| reach_step: "dm_reachable api app st dm \<Longrightarrow> dm_step api app dm dm' \<Longrightarrow> dm_reachable api app st dm'"

definition dm_inv :: "dlt_api \<Rightarrow> AppLogContext \<Rightarrow> daemon \<Rightarrow> bool" where
  "dm_inv api app dm \<longleftrightarrow> (\<forall>k \<in> set (m_contexts dm).
       \<exists>i < length (m_contexts dm). m_contexts dm ! i = k \<and> log_level_pos (dm_store dm k) = int i) \<and>
     (isDaemonConnected dm \<longrightarrow> (\<forall>k \<in> set (m_contexts dm). has_ids api app (dm_store dm k)))"

lemma dm_invI:
  assumes "dm_inv api app dm" and "m_contexts dm' = m_contexts dm"
    and "\<And>k. log_level_pos (dm_store dm' k) = log_level_pos (dm_store dm k)"
    and "isDaemonConnected dm' \<Longrightarrow> \<forall>k \<in> set (m_contexts dm). has_ids api app (dm_store dm' k)"
  shows "dm_inv api app dm'"
  using assms by (simp add: dm_inv_def)

lemma dm_inv_position:
  assumes "dm_inv api app dm" and "distinct (m_contexts dm)" and "i < length (m_contexts dm)"
  shows "log_level_pos (dm_store dm (m_contexts dm ! i)) = int i"
proof -
  have "m_contexts dm ! i \<in> set (m_contexts dm)" using assms(3) by simp
  with assms(1) obtain j where "j < length (m_contexts dm)" "m_contexts dm ! j = m_contexts dm ! i"
    "log_level_pos (dm_store dm (m_contexts dm ! i)) = int j" by (auto simp: dm_inv_def)
  with assms(2,3) show ?thesis by (simp add: nth_eq_iff_index_eq)
qed

lemma stamp_all_simps [simp]:
  "log_level_pos (stamp_all api app S st k) = log_level_pos (st k)"
  "m_activeLogLevel (stamp_all api app S st k) = m_activeLogLevel (st k)"
  by (simp_all add: stamp_all_def)

lemma stamp_all_has_ids:
  "k \<in> S \<Longrightarrow> ids_of api app (st k) \<noteq> None \<Longrightarrow> has_ids api app (stamp_all api app S st k)"
  by (simp add: stamp_all_def stamp_ids_has_ids)

lemma initDaemonConnection_inv:
  assumes "dm_inv api app dm" and "initDaemonConnection api os (Some app) dm = Some dm'"
  shows "dm_inv api app dm'"
  using initDaemonConnection_frame[OF assms(2)]
proof (elim conjE disjE)
  assume "m_contexts dm' = m_contexts dm" "dm_store dm' = dm_store dm"
    "isDaemonConnected dm' \<longrightarrow> isDaemonConnected dm \<and> dm' = dm"
  then show ?thesis using assms(1) unfolding dm_inv_def by metis
next
  assume "m_contexts dm' = m_contexts dm"
    "dm_store dm' = stamp_all api app (set (m_contexts dm)) (dm_store dm)"
    "\<forall>k \<in> set (m_contexts dm). ids_of api app (dm_store dm k) \<noteq> None"
  then show ?thesis using assms(1) by (intro dm_invI[OF assms(1)]) (simp_all add: stamp_all_has_ids)
qed

lemma send_inv: "dm_inv api app dm \<Longrightarrow> dm_inv api app (send os bs dm)"
  using send_stays_disconnected[of dm os bs] by (auto simp: dm_inv_def wire_simps)

lemma sendLog_inv:
  assumes "dm_inv api app dm" and "sendLog api os (Some app) cid d dm = Some dm'"
  shows "dm_inv api app dm'"
proof -
  from assms(2) obtain dm1 where i: "initDaemonConnection api os (Some app) dm = Some dm1"
    and dm': "dm' = dm1 \<or> (\<exists>bs. dm' = send os bs dm1)"
    by (auto simp: sendLog_def split: bind_splits if_splits)
  from initDaemonConnection_inv[OF assms(1) i] dm' show ?thesis by (auto simp: send_inv)
qed

lemma registerContext_inv:
  assumes inv: "dm_inv api app dm"
    and reg: "registerContext api os (Some app) cid dm = Some (pos, dm')"
  shows "dm_inv api app dm' \<and> pos = int (length (m_contexts dm)) \<and>
    m_contexts dm' = m_contexts dm @ [cid]"
proof -
  let ?pos = "int (length (m_contexts dm))"
  let ?dm1 = "dm\<lparr>dm_store := (dm_store dm)(cid := (dm_store dm cid)\<lparr>log_level_pos := ?pos\<rparr>),
                 m_contexts := m_contexts dm @ [cid]\<rparr>"
  from reg obtain dm2 where i: "initDaemonConnection api os (Some app) ?dm1 = Some dm2"
    and s: "if isDaemonConnected dm2 then sendContextRegistration api os (Some app) cid dm2 = Some dm'
            else dm' = dm2" and pos: "pos = ?pos"
    by (auto simp: registerContext_def Let_def split: bind_splits if_splits)
  have old_ids: "has_ids api app (dm_store ?dm1 k) = has_ids api app (dm_store dm k)" for k
    by (simp add: has_ids_def ids_of_def)
  from initDaemonConnection_frame[OF i]
  have ctxs: "m_contexts dm2 = m_contexts dm @ [cid]"
    and lp: "\<And>k. log_level_pos (dm_store dm2 k) = log_level_pos (dm_store ?dm1 k)"
    and old: "isDaemonConnected dm2 \<Longrightarrow> \<forall>k \<in> set (m_contexts dm). has_ids api app (dm_store dm2 k)"
    using inv old_ids by (auto simp: dm_inv_def stamp_all_has_ids isDaemonConnected_def)
  have ctxs': "m_contexts dm' = m_contexts dm @ [cid]"
    and lp': "\<And>k. log_level_pos (dm_store dm' k) = log_level_pos (dm_store ?dm1 k)"
    and ids: "isDaemonConnected dm' \<Longrightarrow>
      \<forall>k \<in> set (m_contexts dm @ [cid]). has_ids api app (dm_store dm' k)"
    using s ctxs lp old sendContextRegistration_frame[of api os app cid dm2 dm']
    by (auto simp: stamp_ids_has_ids split: if_splits)
  have "\<exists>i < length (m_contexts dm @ [cid]). (m_contexts dm @ [cid]) ! i = k \<and> log_level_pos (dm_store ?dm1 k) = int i"
    if "k \<in> set (m_contexts dm @ [cid])" for k
  proof (cases "k = cid")
    case True
    then show ?thesis by (intro exI[of _ "length (m_contexts dm)"]) simp
  next
    case False
    with that inv obtain i where "i < length (m_contexts dm)" "m_contexts dm ! i = k" "log_level_pos (dm_store dm k) = int i"
      by (auto simp: dm_inv_def)
    with False show ?thesis by (intro exI[of _ i]) (simp add: nth_append)
  qed
  with ctxs' lp' ids pos show ?thesis by (simp add: dm_inv_def)
qed

section \<open>Messages from the daemon\<close>

text \<open>The messages as the daemon writes them; \<open>enc_incoming\<close> is their layout.\<close>

datatype incoming = InLogState byte | InLogLevel byte byte int

fun enc_incoming :: "dlt_api \<Rightarrow> incoming \<Rightarrow> byte list" where
  "enc_incoming api (InLogState st) =
     id_array api (text_bytes ''DUH'' @ [1]) @ le_nat 4 (message_value LogState) @ [st]"
| "enc_incoming api (InLogLevel level trace pos) =
     id_array api (text_bytes ''DUH'' @ [1]) @ le_nat 4 (message_value LogLevelMsg) @
     [level, trace] @ le_int 4 pos"

fun level_requests :: "incoming list \<Rightarrow> (int \<times> int) list" where
  "level_requests [] = []"
| "level_requests (InLogState _ # ms) = level_requests ms"
| "level_requests (InLogLevel level _ pos # ms) = (pos, int (unat level)) # level_requests ms"

fun wf_incoming :: "incoming \<Rightarrow> bool" where
  "wf_incoming (InLogState _) = True"
| "wf_incoming (InLogLevel _ _ pos) = (- (2 ^ 31) \<le> pos \<and> pos < 2 ^ 31)"

fun apply_levels :: "(int \<Rightarrow> int \<Rightarrow> 's \<Rightarrow> 's option) \<Rightarrow> (int \<times> int) list \<Rightarrow> 's \<Rightarrow> 's option" where
  "apply_levels ap [] s = Some s"
| "apply_levels ap ((pos, level) # rs) s = ap pos level s \<bind> apply_levels ap rs"

lemma apply_levels_one: "apply_levels ap [(pos, level)] s = ap pos level s"
  by (cases "ap pos level s") simp_all

lemma length_id_array [simp, wire_simps]: "length (id_array api cs) = DLT_ID_SIZE api"
  by (simp add: id_array_def)

lemma signed_field:
  assumes "- (2 ^ 31) \<le> pos" and "pos < 2 ^ 31"
  shows "to_signed 32 (int (nat_of_le (le_int 4 pos))) = pos"
proof -
  have "nat (pos mod 2 ^ 32) mod 256 ^ 4 = nat (pos mod 2 ^ 32)"
    by simp
  then have "int (nat_of_le (le_int 4 pos)) = pos mod 2 ^ 32"
    by (simp add: le_int_def nat_of_le_le_nat)
  then have "to_signed 32 (int (nat_of_le (le_int 4 pos))) = to_signed 32 (pos mod 2 ^ 32)"
    by (simp only:)
  also have "\<dots> = to_signed 32 pos"
    by (rule to_signed_mod) simp
  also have "\<dots> = pos"
    by (rule to_signed_id) (use assms in simp_all)
  finally show ?thesis .
qed

text \<open>One round of the loop on a complete message, and the end of the buffer.\<close>

lemma incoming_loop_state:
  assumes "length pre = p" and "p + DLT_ID_SIZE api + 4 < n"
  shows "incoming_loop api (pre @ enc_incoming api (InLogState st) @ rest) n p dm =
    incoming_loop api (pre @ enc_incoming api (InLogState st) @ rest) n (p + DLT_ID_SIZE api + 5) dm"
  using assms
  by (subst incoming_loop.simps)
     (simp add: sizeof_DltUserHeader_def nat_of_le_le_nat Let_def add.assoc add.commute)

lemma incoming_loop_level_step:
  assumes "p + DLT_ID_SIZE api + 4 < n" and "nat_of_le (take 4 (drop (p + DLT_ID_SIZE api) b)) = 6"
    and "q = p + DLT_ID_SIZE api + 4" and "q + 6 \<le> length b" and "b ! q = l"
    and "to_signed 32 (int (nat_of_le (take 4 (drop (q + 2) b)))) = pos"
  shows "incoming_loop api b n p dm =
    applyLogLevel pos (int (unat l)) dm \<bind> incoming_loop api b n (q + 6)"
  unfolding incoming_loop.simps[of api b n p] sizeof_DltUserHeader_def Let_def
  using assms by (simp add: add.assoc)

lemma incoming_loop_level:
  assumes "length pre = p" and "p + DLT_ID_SIZE api + 4 < n" and "wf_incoming (InLogLevel l t pos)"
  shows "incoming_loop api (pre @ enc_incoming api (InLogLevel l t pos) @ rest) n p dm =
    applyLogLevel pos (int (unat l)) dm \<bind>
    incoming_loop api (pre @ enc_incoming api (InLogLevel l t pos) @ rest) n (p + DLT_ID_SIZE api + 10)"
proof -
  let ?h = "id_array api (text_bytes ''DUH'' @ [1])" and ?q = "p + DLT_ID_SIZE api + 4"
  let ?b = "pre @ enc_incoming api (InLogLevel l t pos) @ rest"
  have msg: "nat_of_le (take 4 (drop (p + DLT_ID_SIZE api) ?b)) = 6"
    using assms(1) by (simp add: nat_of_le_le_nat)
  have q: "?b = (pre @ ?h @ le_nat 4 6) @ [l, t] @ le_int 4 pos @ rest" by simp
  have len: "length (pre @ ?h @ le_nat 4 6) = ?q" using assms(1) by simp
  have lev: "?b ! ?q = l" unfolding q using len by (simp add: nth_append)
  have d: "drop (?q + 2) ?b = le_int 4 pos @ rest" unfolding q using len by simp
  have pos: "to_signed 32 (int (nat_of_le (take 4 (drop (?q + 2) ?b)))) = pos"
    unfolding d using assms(3) signed_field[of pos] by simp
  have "?q + 6 \<le> length ?b" using assms(1) by simp
  then have "incoming_loop api ?b n p dm = applyLogLevel pos (int (unat l)) dm \<bind>
      incoming_loop api ?b n (?q + 6)"
    by (rule incoming_loop_level_step[OF assms(2) msg refl _ lev pos])
  moreover have "?q + 6 = p + DLT_ID_SIZE api + 10" by simp
  ultimately show ?thesis by (simp only:)
qed

lemma incoming_loop_messages:
  assumes "\<forall>m \<in> set ms. wf_incoming m" and "length pre = p"
    and "n = p + length (concat (map (enc_incoming api) ms))"
  shows "incoming_loop api (pre @ concat (map (enc_incoming api) ms) @ junk) n p dm =
    apply_levels applyLogLevel (level_requests ms) dm"
  using assms
proof (induction ms arbitrary: pre p dm)
  case Nil
  then show ?case by (simp add: incoming_loop.simps)
next
  case (Cons m ms)
  let ?rest = "concat (map (enc_incoming api) ms) @ junk"
  let ?pre = "pre @ enc_incoming api m"
  have b: "pre @ concat (map (enc_incoming api) (m # ms)) @ junk = pre @ enc_incoming api m @ ?rest"
    by simp
  have ih: "incoming_loop api (?pre @ ?rest) n (length ?pre) dm' =
      apply_levels applyLogLevel (level_requests ms) dm'" for dm'
    using Cons.prems by (intro Cons.IH) auto
  show ?case
  proof (cases m)
    case (InLogState st)
    have "length ?pre = p + DLT_ID_SIZE api + 5" using Cons.prems InLogState by simp
    with ih incoming_loop_state[of pre p api n st ?rest dm] Cons.prems InLogState b
    show ?thesis by (simp del: enc_incoming.simps) (simp add: add.assoc)
  next
    case (InLogLevel l t pos)
    have "length ?pre = p + DLT_ID_SIZE api + 10" using Cons.prems InLogLevel by simp
    moreover have "incoming_loop api (?pre @ ?rest) n (length ?pre) =
        apply_levels applyLogLevel (level_requests ms)"
      by (rule ext) (rule ih)
    ultimately show ?thesis
      using incoming_loop_level[of pre p api n l t pos ?rest dm] Cons.prems InLogLevel b
      by (simp del: enc_incoming.simps) (simp add: add.assoc)
  qed
qed

lemma incoming_loop_preserves:
  assumes ap: "\<And>pos level d d'. P d \<Longrightarrow> applyLogLevel pos level d = Some d' \<Longrightarrow> P d'"
    and "P dm" and "incoming_loop api b n p dm = Some dm'"
  shows "P dm'"
  using assms(2,3)
proof (induction api b n p dm arbitrary: dm' rule: incoming_loop.induct)
  case (1 api buffer byteCount p dm)
  note loop = "1.prems"(2)[unfolded incoming_loop.simps[of api buffer byteCount p dm] Let_def]
  show ?case
  proof (cases "byteCount > p + sizeof_DltUserHeader api")
    case False
    with loop "1.prems"(1) show ?thesis by simp
  next
    case more: True
    let ?m = "nat_of_le (take 4 (drop (p + DLT_ID_SIZE api) buffer))"
    consider "?m = message_value LogState" | "?m \<noteq> message_value LogState" "?m = message_value LogLevelMsg"
      | "?m \<noteq> message_value LogState" "?m \<noteq> message_value LogLevelMsg" by blast
    then show ?thesis
    proof cases
      case 1
      with loop more show ?thesis
        by (intro "1.IH"(1)[OF more refl refl 1 \<open>P dm\<close>]) simp
    next
      case 2
      let ?q = "p + sizeof_DltUserHeader api"
      from loop more 2 obtain dm1 where
        ap1: "applyLogLevel (to_signed 32 (int (nat_of_le (take 4 (drop (?q + 2) buffer)))))
          (int (unat (buffer ! ?q))) dm = Some dm1"
        and in_array: "\<not> p + sizeof_DltUserHeader api + 6 > length buffer"
        and rest: "incoming_loop api buffer byteCount (p + sizeof_DltUserHeader api + 6) dm1 = Some dm'"
        by (auto split: if_splits bind_splits)
      from ap[OF "1.prems"(1) ap1] have "P dm1" .
      from "1.IH"(2)[OF more refl refl 2 in_array refl refl ap1 this rest] show ?thesis .
    next
      case 3
      with loop more "1.prems"(1) show ?thesis by simp
    qed
  qed
qed

lemma applyLogLevel_frame:
  assumes "applyLogLevel pos level dm = Some dm'"
  shows "m_contexts dm' = m_contexts dm \<and> isDaemonConnected dm' = isDaemonConnected dm \<and>
    (\<forall>k. extendedHeader (dm_store dm' k) = extendedHeader (dm_store dm k) \<and>
         dc_context (dm_store dm' k) = dc_context (dm_store dm k) \<and>
         log_level_pos (dm_store dm' k) = log_level_pos (dm_store dm k))"
  using assms
  by (auto simp: applyLogLevel_def setActiveLogLevel_def isDaemonConnected_def Let_def
      split: if_splits)

lemma handleIncomingMessage_frame:
  assumes "handleIncomingMessage api readable received junk dm = Some dm'"
  shows "m_contexts dm' = m_contexts dm \<and> isDaemonConnected dm' = isDaemonConnected dm \<and> dm_wire dm' = dm_wire dm \<and>
    (\<forall>k. dc_context (dm_store dm' k) = dc_context (dm_store dm k) \<and>
         log_level_pos (dm_store dm' k) = log_level_pos (dm_store dm k))"
proof -
  let ?P = "\<lambda>x. m_contexts x = m_contexts dm \<and> isDaemonConnected x = isDaemonConnected dm \<and> dm_wire x = dm_wire dm \<and>
    (\<forall>k. dc_context (dm_store x k) = dc_context (dm_store dm k) \<and>
         log_level_pos (dm_store x k) = log_level_pos (dm_store dm k))"
  have "dm_wire d' = dm_wire d" if "applyLogLevel pos level d = Some d'" for pos level d d'
    using that by (auto simp: applyLogLevel_def Let_def split: if_splits)
  then have "?P d'" if "?P d" "applyLogLevel pos level d = Some d'" for pos level d d'
    using that applyLogLevel_frame[OF that(2)] by simp
  note step = this
  show ?thesis
  proof (cases "readable \<and> received \<noteq> None")
    case True
    then obtain b n where "incoming_loop api b n 0 dm = Some dm'"
      using assms by (auto simp: handleIncomingMessage_def)
    from incoming_loop_preserves[of ?P dm, OF step _ this] show ?thesis by simp
  next
    case False
    with assms show ?thesis by (auto simp: handleIncomingMessage_def split: if_splits)
  qed
qed

lemma has_ids_cong:
  "extendedHeader c = extendedHeader c' \<Longrightarrow> dc_context c = dc_context c' \<Longrightarrow>
     has_ids api app c = has_ids api app c'"
  by (simp add: has_ids_def ids_of_def)

lemma applyLogLevel_inv:
  assumes "dm_inv api app dm" and "applyLogLevel pos level dm = Some dm'"
  shows "dm_inv api app dm'"
proof -
  note f = applyLogLevel_frame[OF assms(2)]
  have "has_ids api app (dm_store dm' k) = has_ids api app (dm_store dm k)" for k
    using f by (intro has_ids_cong) auto
  with f assms(1) show ?thesis by (simp add: dm_inv_def)
qed

lemma handleIncomingMessage_inv:
  assumes "dm_inv api app dm" and "handleIncomingMessage api readable received junk dm = Some dm'"
  shows "dm_inv api app dm'"
proof (cases "readable \<and> received \<noteq> None")
  case True
  then obtain b n where "incoming_loop api b n 0 dm = Some dm'"
    using assms(2) by (auto simp: handleIncomingMessage_def)
  with assms(1) show ?thesis
    using incoming_loop_preserves[of "dm_inv api app" dm] applyLogLevel_inv by blast
next
  case False
  with assms show ?thesis by (auto simp: handleIncomingMessage_def split: if_splits)
qed

lemma dlt_init_ctx:
  assumes "dlt_init api c li d = (d', c')"
  shows "c' = c\<lparr>dc_messageCount := dc_messageCount c + 1\<rparr>" "dd_messageCount d' = dc_messageCount c"
    "dd_enabled d' = dlt_isEnabled api c (m_level li)"
  using assms by (auto simp: dlt_init_def messageCounter_def Let_def)

lemma dm_step_inv:
  assumes "dm_step api app dm dm'" and "dm_inv api app dm"
  shows "dm_inv api app dm'"
  using assms(1)
proof (cases rule: dm_step.cases)
  case (step_register cid os pos)
  with assms(2) registerContext_inv show ?thesis by blast
next
  case (step_entry cid li d d' c)
  have "has_ids api app c = has_ids api app (dm_store dm cid)"
    using dlt_init_ctx(1)[OF step_entry(2)] by (intro has_ids_cong) simp_all
  with step_entry assms(2) dlt_init_ctx(1)[OF step_entry(2)] show ?thesis
    by (auto simp: dm_inv_def isDaemonConnected_def)
next
  case (step_log cid os d)
  with assms(2) sendLog_inv show ?thesis by blast
next
  case (step_incoming readable received junk)
  with assms(2) handleIncomingMessage_inv show ?thesis by blast
qed

lemma dm_reachable_inv: "dm_reachable api app st dm \<Longrightarrow> dm_inv api app dm"
proof (induction rule: dm_reachable.induct)
  case reach_new
  show ?case by (simp add: dm_inv_def daemon_new_def isDaemonConnected_def)
next
  case (reach_step dm dm')
  then show ?case by (blast intro: dm_step_inv)
qed

section \<open>The table of log levels\<close>

text \<open>
  The contract of the table the daemon writes to: a position inside the table sets the level of the
  context that is there and of no other, a position past it changes nothing. A sequence of requests
  then gives every context the last level requested for a position of its own.
\<close>

definition set_level :: "(nat \<Rightarrow> 'k option) \<Rightarrow> int \<times> int \<Rightarrow> ('k \<Rightarrow> int) \<Rightarrow> 'k \<Rightarrow> int" where
  "set_level entry r levels = (case entry (nat (fst r)) of None \<Rightarrow> levels | Some k \<Rightarrow> levels(k := snd r))"

locale level_table =
  fixes ap :: "int \<Rightarrow> int \<Rightarrow> 's \<Rightarrow> 's option"
    and entry :: "'s \<Rightarrow> nat \<Rightarrow> 'k option"
    and levels :: "'s \<Rightarrow> 'k \<Rightarrow> int"
    and inv :: "'s \<Rightarrow> bool"
  assumes in_range: "inv s \<Longrightarrow> 0 \<le> pos \<Longrightarrow> entry s (nat pos) = Some k \<Longrightarrow>
      \<exists>s'. ap pos level s = Some s' \<and> inv s' \<and> entry s' = entry s \<and> levels s' = (levels s)(k := level)"
    and past_end: "inv s \<Longrightarrow> 0 \<le> pos \<Longrightarrow> pos < 2 ^ 31 \<Longrightarrow> entry s (nat pos) = None \<Longrightarrow> ap pos level s = Some s"
begin

lemma apply_one:
  assumes "inv s" and "0 \<le> pos" and "pos < 2 ^ 31"
  shows "\<exists>s'. ap pos level s = Some s' \<and> inv s' \<and> entry s' = entry s \<and>
    levels s' = set_level (entry s) (pos, level) (levels s)"
proof (cases "entry s (nat pos)")
  case None
  with assms past_end show ?thesis by (simp add: set_level_def)
next
  case (Some k)
  with in_range[OF assms(1,2) Some] show ?thesis by (simp add: set_level_def)
qed

lemma apply_levels_all:
  "inv s \<Longrightarrow> \<forall>(pos, level) \<in> set rs. 0 \<le> pos \<and> pos < 2 ^ 31 \<Longrightarrow>
     \<exists>s'. apply_levels ap rs s = Some s' \<and> inv s' \<and> entry s' = entry s \<and>
       levels s' = fold (set_level (entry s)) rs (levels s)"
proof (induction rs arbitrary: s)
  case (Cons r rs)
  obtain pos level where r: "r = (pos, level)" by (cases r)
  with Cons.prems obtain s1 where s1: "ap pos level s = Some s1" "inv s1" "entry s1 = entry s"
    "levels s1 = set_level (entry s) (pos, level) (levels s)"
    using apply_one[of s pos level] by auto
  with Cons.IH[OF s1(2)] Cons.prems r show ?case by auto
qed simp

end

definition table_entry :: "daemon \<Rightarrow> nat \<Rightarrow> nat option" where
  "table_entry dm i = (if i < length (m_contexts dm) then Some (m_contexts dm ! i) else None)"

definition active_levels :: "daemon \<Rightarrow> nat \<Rightarrow> int" where
  "active_levels dm k = m_activeLogLevel (dm_store dm k)"

definition table_inv :: "daemon \<Rightarrow> bool" where
  "table_inv dm \<longleftrightarrow> length (m_contexts dm) < 2 ^ 31"

lemma table_size: "table_inv dm \<Longrightarrow>
    to_signed 32 (int (length (m_contexts dm))) = int (length (m_contexts dm))"
  by (rule to_signed_id) (simp_all add: table_inv_def)

lemma applyLogLevel_in_range:
  assumes "table_inv dm" and "0 \<le> pos" and "table_entry dm (nat pos) = Some k"
  shows "\<exists>dm'. applyLogLevel pos level dm = Some dm' \<and> table_inv dm' \<and> table_entry dm' = table_entry dm \<and>
    active_levels dm' = (active_levels dm)(k := level)"
proof -
  have pos: "pos < int (length (m_contexts dm))" "m_contexts dm ! nat pos = k"
    using assms(2,3) by (auto simp: table_entry_def split: if_splits)
  with assms(1,2) have "applyLogLevel pos level dm =
      Some (dm\<lparr>dm_store := (dm_store dm)(k := setActiveLogLevel level (dm_store dm k))\<rparr>)"
    by (simp add: applyLogLevel_def table_size Let_def)
  then show ?thesis
    using assms(1) by (simp add: table_inv_def table_entry_def[abs_def] active_levels_def[abs_def] setActiveLogLevel_def fun_eq_iff)
qed

lemma applyLogLevel_past_end:
  assumes "table_inv dm" and "0 \<le> pos" and "table_entry dm (nat pos) = None"
  shows "applyLogLevel pos level dm = Some dm"
proof -
  have "\<not> pos < int (length (m_contexts dm))" using assms(2,3) by (auto simp: table_entry_def split: if_splits)
  with assms(1) show ?thesis by (simp add: applyLogLevel_def table_size)
qed

interpretation daemon_levels: level_table applyLogLevel table_entry active_levels table_inv
  by unfold_locales (auto intro: applyLogLevel_in_range applyLogLevel_past_end)

text \<open>When no context is in the vector twice, the levels in its order are a list that requests update.\<close>

definition log_levels :: "daemon \<Rightarrow> int list" where
  "log_levels dm = map (active_levels dm) (m_contexts dm)"

lemma map_set_level:
  assumes "distinct (m_contexts dm)"
  shows "map (set_level (table_entry dm) r ls) (m_contexts dm) = (map ls (m_contexts dm))[nat (fst r) := snd r]"
  using assms
  by (intro nth_equalityI)
     (auto simp: set_level_def table_entry_def nth_list_update nth_eq_iff_index_eq)

lemma map_set_levels:
  assumes "distinct (m_contexts dm)"
  shows "map (fold (set_level (table_entry dm)) rs ls) (m_contexts dm) =
    fold (\<lambda>(pos, level) ls. ls[nat pos := level]) rs (map ls (m_contexts dm))"
  by (induction rs arbitrary: ls) (simp_all add: map_set_level[OF assms] case_prod_beta del: map_eq_conv)

lemma handleIncomingMessage_messages:
  assumes "\<forall>m \<in> set ms. wf_incoming m" and "length (concat (map (enc_incoming api) ms)) \<le> INCOMING_SIZE"
  shows "handleIncomingMessage api True (Some (concat (map (enc_incoming api) ms))) junk dm =
    apply_levels applyLogLevel (level_requests ms) dm"
  using assms incoming_loop_messages[OF assms(1), of "[]" 0 _ api
      "drop (length (concat (map (enc_incoming api) ms))) junk" dm]
  by (simp add: handleIncomingMessage_def blit_def)

section \<open>Layout of the messages\<close>

fun accepted :: "dlt_os \<Rightarrow> nat \<Rightarrow> byte list list \<Rightarrow> bool" where
  "accepted os k [] = True"
| "accepted os k (m # ms) = ((case writev_result os k of None \<Rightarrow> False | Some n \<Rightarrow> length m \<le> n) \<and>
     accepted os (Suc k) ms)"

lemma accepted_append: "accepted os k (xs @ ys) \<longleftrightarrow> accepted os k xs \<and> accepted os (k + length xs) ys"
  by (induction xs arbitrary: k) auto

lemma sendContextRegistration_accepted:
  assumes "ids_of api app (dm_store dm cid) \<noteq> None" and "isDaemonConnected dm"
    and "accepted os (dm_writes dm) [context_registration api os app (dm_store dm cid)]"
  shows "\<exists>dm'. sendContextRegistration api os (Some app) cid dm = Some dm' \<and> isDaemonConnected dm' \<and>
    dm_wire dm' = dm_wire dm @ [context_registration api os app (dm_store dm cid)] \<and>
    dm_writes dm' = dm_writes dm + 1 \<and>
    dm_store dm' = (dm_store dm)(cid := stamp_ids api app (dm_store dm cid))"
proof -
  let ?c = "dm_store dm cid"
  obtain a b where ids: "ids_of api app ?c = Some (a, b)" using assms(1) by auto
  let ?bs = "[DltUserHeader api RegisterContext,
     DltUserControlMsgRegisterContext a b (log_level_pos ?c) (-2) (-2) (os_pid os)
       (length (cstr (ctx_description (dc_context ?c)))),
     text_bytes (cstr (ctx_description (dc_context ?c)))]"
  let ?dm = "dm\<lparr>dm_store := (dm_store dm)(cid := stamp_ids api app ?c)\<rparr>"
  have reg: "concat ?bs = context_registration api os app ?c"
    by (simp add: context_registration_def ids Let_def)
  obtain n where n: "writev_result os (dm_writes ?dm) = Some n" "length (concat ?bs) \<le> n"
    using assms(3) unfolding reg by (auto split: option.splits)
  have "sendContextRegistration api os (Some app) cid dm = Some (send os ?bs ?dm)"
    by (simp add: sendContextRegistration_eq ids Let_def)
  moreover have "isDaemonConnected ?dm" using assms(2) by (simp add: isDaemonConnected_def)
  note sent = send_accepted[OF this n]
  ultimately show ?thesis
    using assms(2) by (simp add: sent reg isDaemonConnected_def del: concat.simps)
qed

lemma stamp_all_insert:
  "stamp_all api app S (st(cid := stamp_ids api app (st cid))) = stamp_all api app (insert cid S) st"
  by (auto simp: stamp_all_def fun_eq_iff)

lemma registerAll_accepted:
  assumes "\<forall>k \<in> set cids. ids_of api app (dm_store dm k) \<noteq> None" and "isDaemonConnected dm"
    and "accepted os (dm_writes dm) (map (\<lambda>k. context_registration api os app (dm_store dm k)) cids)"
  shows "\<exists>dm'. registerAll api os (Some app) cids dm = Some dm' \<and> isDaemonConnected dm' \<and>
    dm_wire dm' = dm_wire dm @ map (\<lambda>k. context_registration api os app (dm_store dm k)) cids \<and>
    dm_writes dm' = dm_writes dm + length cids \<and>
    dm_store dm' = stamp_all api app (set cids) (dm_store dm)"
  using assms
proof (induction cids arbitrary: dm)
  case Nil
  then show ?case by (simp add: stamp_all_def)
next
  case (Cons cid cids)
  obtain dm1 where d: "sendContextRegistration api os (Some app) cid dm = Some dm1"
    "isDaemonConnected dm1" "dm_writes dm1 = dm_writes dm + 1"
    "dm_wire dm1 = dm_wire dm @ [context_registration api os app (dm_store dm cid)]"
    "dm_store dm1 = (dm_store dm)(cid := stamp_ids api app (dm_store dm cid))"
    using sendContextRegistration_accepted[of api app dm cid os] Cons.prems by auto
  have same: "context_registration api os app (dm_store dm1 k) =
      context_registration api os app (dm_store dm k)"
    and ids: "ids_of api app (dm_store dm1 k) = ids_of api app (dm_store dm k)" for k
    by (simp_all add: d(5))
  have "\<exists>dm'. registerAll api os (Some app) cids dm1 = Some dm' \<and> isDaemonConnected dm' \<and>
    dm_wire dm' = dm_wire dm1 @ map (\<lambda>k. context_registration api os app (dm_store dm1 k)) cids \<and>
    dm_writes dm' = dm_writes dm1 + length cids \<and>
    dm_store dm' = stamp_all api app (set cids) (dm_store dm1)"
    using Cons.prems d(2,3) by (intro Cons.IH) (simp_all add: same ids)
  then show ?case
    using d by (auto simp: same stamp_all_insert)
qed

text \<open>What a new connection writes first.\<close>

definition greeting :: "dlt_api \<Rightarrow> dlt_os \<Rightarrow> AppLogContext \<Rightarrow> daemon \<Rightarrow> byte list list" where
  "greeting api os app dm = app_registration api os app #
     map (\<lambda>k. context_registration api os app (dm_store dm k)) (m_contexts dm)"

definition can_register :: "dlt_api \<Rightarrow> dlt_os \<Rightarrow> AppLogContext \<Rightarrow> daemon \<Rightarrow> bool" where
  "can_register api os app dm \<longleftrightarrow> assign_id api (app_id app) \<noteq> None \<and>
     length (app_text os app) < 1024 \<and>
     (\<forall>k \<in> set (m_contexts dm). ids_of api app (dm_store dm k) \<noteq> None)"

lemma snprintf_short: "length t < sz \<Longrightarrow> take (length t) (snprintf_mem sz t) = t"
  by (simp add: snprintf_mem_def)

lemma initDaemonConnection_greets:
  assumes "\<not> isDaemonConnected dm" and "open_result os (dm_opens dm) \<noteq> -1"
    and "can_register api os app dm" and "accepted os (dm_writes dm) (greeting api os app dm)"
  shows "\<exists>dm'. initDaemonConnection api os (Some app) dm = Some dm' \<and> isDaemonConnected dm' \<and>
    dm_wire dm' = dm_wire dm @ greeting api os app dm \<and>
    dm_writes dm' = dm_writes dm + length (greeting api os app dm) \<and>
    dm_store dm' = stamp_all api app (set (m_contexts dm)) (dm_store dm)"
proof -
  obtain a where a: "assign_id api (app_id app) = Some a"
    using assms(3) by (auto simp: can_register_def)
  have short: "length (app_text os app) < 1024" using assms(3) by (simp add: can_register_def)
  let ?bs = "[DltUserHeader api RegisterApp,
     DltUserControlMsgRegisterApplication a (os_pid os) (length (app_text os app)),
     text_bytes (take (length (app_text os app)) (snprintf_mem 1024 (app_text os app)))]"
  let ?dm = "established (reopened os dm)"
  have msg: "concat ?bs = app_registration api os app"
    using short by (simp add: app_registration_def a snprintf_short)
  have up: "isDaemonConnected (reopened os dm)"
    using assms(2) by (simp add: isDaemonConnected_def reopened_def disconnectedFromDaemonFd_def)
  obtain n where n: "writev_result os (dm_writes ?dm) = Some n" "length (concat ?bs) \<le> n"
    using assms(4) unfolding msg by (auto simp: greeting_def split: option.splits)
  from up have "isDaemonConnected ?dm" by simp
  from send_accepted[OF this n]
  obtain dm2 where dm2: "send os ?bs ?dm = dm2" "isDaemonConnected dm2" "dm_store dm2 = dm_store dm"
    "m_contexts dm2 = m_contexts dm" "dm_writes dm2 = dm_writes dm + 1"
    "dm_wire dm2 = dm_wire dm @ [app_registration api os app]"
    using up by (simp add: msg isDaemonConnected_def established_def reopened_def del: concat.simps)
  have "initDaemonConnection api os (Some app) dm = registerAll api os (Some app) (m_contexts dm) dm2"
    using initDaemonConnection_eq[OF assms(1) up, of api app] short by (simp add: a dm2(1))
  with registerAll_accepted[of "m_contexts dm" api app dm2 os] dm2 assms(3,4) show ?thesis
    by (simp add: can_register_def greeting_def)
qed

text \<open>A context whose registration opens the connection is announced twice.\<close>

lemma registration_sent_twice:
  fixes dm cid
  defines "dm1 \<equiv> dm\<lparr>dm_store := (dm_store dm)(cid := (dm_store dm cid)\<lparr>log_level_pos := int (length (m_contexts dm))\<rparr>),
                    m_contexts := m_contexts dm @ [cid]\<rparr>"
  assumes "\<not> isDaemonConnected dm" and "open_result os (dm_opens dm) \<noteq> -1" and "can_register api os app dm1"
    and "accepted os (dm_writes dm) (greeting api os app dm1 @ [context_registration api os app (dm_store dm1 cid)])"
  shows "\<exists>pos dm' rest. registerContext api os (Some app) cid dm = Some (pos, dm') \<and> dm_wire dm' = dm_wire dm @ rest @
    [context_registration api os app (dm_store dm1 cid), context_registration api os app (dm_store dm1 cid)]"
proof -
  have dm1: "\<not> isDaemonConnected dm1" "dm_opens dm1 = dm_opens dm" "dm_writes dm1 = dm_writes dm"
    "dm_wire dm1 = dm_wire dm" "cid \<in> set (m_contexts dm1)"
    using assms(2) by (simp_all add: dm1_def isDaemonConnected_def)
  obtain dm2 where dm2: "initDaemonConnection api os (Some app) dm1 = Some dm2" "isDaemonConnected dm2"
    "dm_wire dm2 = dm_wire dm @ greeting api os app dm1"
    "dm_writes dm2 = dm_writes dm + length (greeting api os app dm1)"
    "dm_store dm2 cid = stamp_ids api app (dm_store dm1 cid)"
    using initDaemonConnection_greets[of dm1 os api app] assms(3-5) dm1
    by (auto simp: accepted_append stamp_all_def)
  have same: "context_registration api os app (dm_store dm2 cid) = context_registration api os app (dm_store dm1 cid)"
    and ids: "ids_of api app (dm_store dm2 cid) = ids_of api app (dm_store dm1 cid)"
    by (simp_all add: dm2(5))
  have "ids_of api app (dm_store dm1 cid) \<noteq> None" using assms(4) dm1(5) by (auto simp: can_register_def)
  with assms(5) dm2(2,4) same ids obtain dm' where "sendContextRegistration api os (Some app) cid dm2 = Some dm'"
    "dm_wire dm' = dm_wire dm2 @ [context_registration api os app (dm_store dm1 cid)]"
    using sendContextRegistration_accepted[of api app dm2 cid os] by (auto simp: accepted_append)
  moreover have "registerContext api os (Some app) cid dm =
      map_option (Pair (int (length (m_contexts dm)))) (sendContextRegistration api os (Some app) cid dm2)"
    using dm2(1,2) by (simp add: registerContext_def dm1_def Let_def map_option_case split: option.split)
  moreover have "greeting api os app dm1 = butlast (greeting api os app dm1) @
      [context_registration api os app (dm_store dm1 cid)]"
    by (simp add: greeting_def dm1_def)
  ultimately show ?thesis using dm2(3) by (metis append.assoc append_Cons append_Nil option.simps(9))
qed

lemma sendLog_reconnects:
  assumes "\<not> isDaemonConnected dm" and "open_result os (dm_opens dm) \<noteq> -1"
    and "can_register api os app dm" and "cid \<in> set (m_contexts dm)"
    and "accepted os (dm_writes dm) (greeting api os app dm @
           [concat (log_message api os (stamp_ids api app (dm_store dm cid)) d)])"
  shows "\<exists>dm'. sendLog api os (Some app) cid d dm = Some dm' \<and> isDaemonConnected dm' \<and>
    dm_wire dm' = dm_wire dm @ greeting api os app dm @
      [concat (log_message api os (stamp_ids api app (dm_store dm cid)) d)]"
proof -
  obtain dm1 where i: "initDaemonConnection api os (Some app) dm = Some dm1" "isDaemonConnected dm1"
    "dm_wire dm1 = dm_wire dm @ greeting api os app dm"
    "dm_writes dm1 = dm_writes dm + length (greeting api os app dm)"
    "dm_store dm1 cid = stamp_ids api app (dm_store dm cid)"
    using initDaemonConnection_greets[OF assms(1-3)] assms(4,5)
    by (auto simp: accepted_append stamp_all_def)
  then obtain n where "writev_result os (dm_writes dm1) = Some n"
    "length (concat (log_message api os (dm_store dm1 cid) d)) \<le> n"
    using assms(5) by (auto simp: accepted_append split: option.splits)
  from send_accepted[OF i(2) this] i show ?thesis
    by (simp add: sendLog_def isDaemonConnected_def del: concat.simps)
qed

lemma log_message_length:
  assumes "api = dlt_documented" and "length (eh_apid (extendedHeader c)) = 4"
    and "length (eh_ctid (extendedHeader c)) = 4" and "length (dd_content d) \<le> 16384"
  shows "unat (standardheaderLen api d) = length (concat (tl (log_message api os c d)))"
proof -
  have "4 + (2 + 2 * DLT_ID_SIZE api) + DLT_STANDARD_HEADER_EXTRA_SIZE api (DLT_HTYP api) +
      m_contentSize d = 26 + m_contentSize d"
    by (simp add: assms(1) dlt_documented_def bit_numeral_rec)
  then have "standardheaderLen api d = word_of_nat (26 + m_contentSize d)"
    by (simp only: standardheaderLen_def)
  moreover have "unat (word_of_nat (26 + m_contentSize d) :: 16 word) = 26 + m_contentSize d"
    unfolding unat_of_nat using assms(4) by (intro mod_less) simp
  ultimately have "unat (standardheaderLen api d) = 26 + m_contentSize d" by (simp only:)
  then show ?thesis
    using assms
    by (simp add: log_message_def DltStandardHeader_def DltStandardHeaderExtra_def
        enc_DltExtendedHeader_def log_extended_header_def dlt_documented_def Let_def)
qed

lemma assign_id_length: "assign_id api s = Some a \<Longrightarrow> length a = DLT_ID_SIZE api"
  by (auto simp: assign_id_def split: if_splits)

lemma has_ids_length:
  assumes "has_ids api app c"
  shows "length (eh_apid (extendedHeader c)) = DLT_ID_SIZE api \<and>
    length (eh_ctid (extendedHeader c)) = DLT_ID_SIZE api"
  using assms by (auto simp: has_ids_def ids_of_def dest: assign_id_length split: bind_splits)

lemma applyLogLevel_negative: "pos < 0 \<Longrightarrow> table_inv dm \<Longrightarrow> applyLogLevel pos level dm = None"
  by (simp add: applyLogLevel_def table_size)

lemma level_requests_wf:
  "\<forall>m \<in> set ms. wf_incoming m \<Longrightarrow> \<forall>(pos, level) \<in> set (level_requests ms). 0 \<le> pos \<Longrightarrow>
     \<forall>(pos, level) \<in> set (level_requests ms). 0 \<le> pos \<and> pos < 2 ^ 31"
  by (induction ms rule: level_requests.induct) auto

section \<open>Properties\<close>

text \<open>The values the examples run on.\<close>

definition sample_app :: AppLogContext where
  "sample_app = \<lparr>app_id = ''DEMO'', app_description = ''demo''\<rparr>"

definition sample_ctx :: dlt_ctx where
  "sample_ctx = dlt_ctx_new dlt_documented \<lparr>ctx_id = ''MAIN'', ctx_description = ''main''\<rparr>"

text \<open>\<open>os_down\<close>: no daemon is running; \<open>os_up fail\<close>: one is, and the writes in \<open>fail\<close> fail.\<close>

definition os_down :: dlt_os where
  "os_down = \<lparr>open_result = \<lambda>_. -1, writev_result = \<lambda>_. None, os_pid = 42, os_clock = None\<rparr>"

definition os_up :: "nat set \<Rightarrow> dlt_os" where
  "os_up fail = \<lparr>open_result = \<lambda>_. 7, writev_result = \<lambda>k. if k \<in> fail then None else Some 100000,
     os_pid = 42, os_clock = None\<rparr>"

definition sample_registered :: daemon where
  "sample_registered = \<lparr>dm_store = (\<lambda>_. sample_ctx)(3 := sample_ctx\<lparr>log_level_pos := 0\<rparr>),
     m_contexts = [3], m_daemonFileDescriptor = -1, dm_opens = 1, dm_writes = 0, dm_wire = [],
     dm_out = []\<rparr>"

lemma sample_register_step:
  "registerContext dlt_documented os_down (Some sample_app) 3 (daemon_new (\<lambda>_. sample_ctx)) =
     Some (0, sample_registered)"
  by (simp add: registerContext_def initDaemonConnection_def daemon_new_def isDaemonConnected_def
      disconnectedFromDaemonFd_def os_down_def sample_registered_def Let_def)

lemma sample_reachable: "dm_reachable dlt_documented sample_app (\<lambda>_. sample_ctx) sample_registered"
proof -
  have "dm_step dlt_documented sample_app (daemon_new (\<lambda>_. sample_ctx)) sample_registered"
    using sample_register_step by (rule step_register)
  with reach_new show ?thesis by (rule reach_step)
qed

lemma sample_app_text: "app_text (os_up fail) sample_app = ''demo / PID:42''"
  by (simp add: app_text_def sample_app_def os_up_def dec_text_def printf_eval)

lemma sample_can_register:
  "can_register dlt_documented (os_up fail) sample_app sample_registered"
  by (simp add: can_register_def sample_app_text)
     (simp add: sample_app_def sample_registered_def sample_ctx_def dlt_ctx_new_def ids_of_def
        assign_id_def dlt_documented_def)

lemma sample_greeting_length:
  "map length (greeting dlt_documented (os_up fail) sample_app sample_registered) = [33, 34]"
  by (simp add: greeting_def app_registration_def sample_app_text)
     (simp add: sample_app_def sample_registered_def sample_ctx_def dlt_ctx_new_def ids_of_def
        assign_id_def dlt_documented_def context_registration_def DltUserHeader_def
        DltUserControlMsgRegisterApplication_def DltUserControlMsgRegisterContext_def Let_def)

text \<open>
  Registering a context gives it the index it has in the vector, the value the daemon is told
  in its registration message, and moves no other context: positions stay the identity of a
  context for the life of the process.
\<close>

lemma registered_position:
  assumes "dm_reachable api app st dm" and "cid \<notin> set (m_contexts dm)" and "distinct (m_contexts dm)"
    and "registerContext api os (Some app) cid dm = Some (pos, dm')"
  shows "pos = int (length (m_contexts dm)) \<and> m_contexts dm' = m_contexts dm @ [cid] \<and>
    (\<forall>i < length (m_contexts dm'). log_level_pos (dm_store dm' (m_contexts dm' ! i)) = int i)"
  using registerContext_inv[OF dm_reachable_inv[OF assms(1)] assms(4)] assms(2,3) dm_inv_position[of api app dm'] by auto

lemma registered_position_witness:
  "m_contexts sample_registered = [] @ [3] \<and> log_level_pos (dm_store sample_registered 3) = 0"
  using registered_position[OF reach_new _ _ sample_register_step]
  by (simp add: daemon_new_def sample_registered_def)

text \<open>
  C9. Between two processes: when the daemon answers with the position a context was registered
  at, exactly that context's active level changes, to the requested one, and nothing else in the
  connection does; from then on the context is enabled exactly for the levels up to it.
\<close>

theorem level_request_reaches_context:
  assumes "dm_reachable api app st dm" and "length (m_contexts dm) < 2 ^ 31"
    and "cid \<in> set (m_contexts dm)" and "DLT_ID_SIZE api \<le> 1000"
  shows "handleIncomingMessage api True
      (Some (enc_incoming api (InLogLevel l t (log_level_pos (dm_store dm cid))))) junk dm =
    Some (dm\<lparr>dm_store := (dm_store dm)(cid := setActiveLogLevel (int (unat l)) (dm_store dm cid))\<rparr>) \<and>
    (dlt_isEnabled api (setActiveLogLevel (int (unat l)) (dm_store dm cid)) logLevel \<longleftrightarrow>
      getDLTLogLevel api logLevel \<le> int (unat l))"
proof -
  note inv = dm_reachable_inv[OF assms(1)]
  have table: "table_inv dm" using assms(2) by (simp add: table_inv_def)
  from assms(3) inv obtain i where i: "i < length (m_contexts dm)" "m_contexts dm ! i = cid"
    and pos: "log_level_pos (dm_store dm cid) = int i" by (auto simp: dm_inv_def)
  have "handleIncomingMessage api True (Some (enc_incoming api (InLogLevel l t (int i)))) junk dm =
      applyLogLevel (int i) (int (unat l)) dm"
    using handleIncomingMessage_messages[of "[InLogLevel l t (int i)]" api junk dm] i assms(2,4)
    by (simp add: INCOMING_SIZE_def apply_levels_one del: apply_levels.simps)
  also have "\<dots> = Some (dm\<lparr>dm_store := (dm_store dm)(cid :=
      setActiveLogLevel (int (unat l)) (dm_store dm cid))\<rparr>)"
    using i by (simp add: applyLogLevel_def table_size[OF table] Let_def)
  finally show ?thesis
    unfolding pos by (simp add: dlt_isEnabled_def setActiveLogLevel_def)
qed

theorem level_request_reaches_context_witness:
  "\<exists>dm. handleIncomingMessage dlt_documented True
      (Some (enc_incoming dlt_documented (InLogLevel 3 0 0))) (replicate 1024 0) sample_registered = Some dm \<and>
    m_activeLogLevel (dm_store dm 3) = 3"
  using level_request_reaches_context[OF sample_reachable, of 3 3 0 "replicate 1024 0"]
  by (simp add: sample_registered_def setActiveLogLevel_def dlt_documented_def del: enc_incoming.simps)

text \<open>
  C23. A buffer of complete messages from the daemon is applied in order and none is skipped: after
  it every context's level is the last one requested for a position of its own, requests for positions
  past the table are ignored, and log-state messages have no effect. When no context is in the vector
  twice, the levels in the order of the vector are a list and each request updates its element.
\<close>

theorem incoming_last_request_wins:
  assumes "dm_reachable api app st dm" and "length (m_contexts dm) < 2 ^ 31"
    and "\<forall>m \<in> set ms. wf_incoming m" and "\<forall>(pos, level) \<in> set (level_requests ms). 0 \<le> pos"
    and "length (concat (map (enc_incoming api) ms)) \<le> INCOMING_SIZE"
  shows "\<exists>dm'. handleIncomingMessage api True (Some (concat (map (enc_incoming api) ms))) junk dm = Some dm' \<and>
    m_contexts dm' = m_contexts dm \<and>
    active_levels dm' = fold (set_level (table_entry dm)) (level_requests ms) (active_levels dm) \<and>
    (distinct (m_contexts dm) \<longrightarrow>
      log_levels dm' = fold (\<lambda>(pos, level) ls. ls[nat pos := level]) (level_requests ms) (log_levels dm))"
proof -
  have "table_inv dm" using assms(2) by (simp add: table_inv_def)
  from daemon_levels.apply_levels_all[OF this level_requests_wf[OF assms(3,4)]] obtain dm' where
    dm': "handleIncomingMessage api True (Some (concat (map (enc_incoming api) ms))) junk dm = Some dm'"
    "active_levels dm' = fold (set_level (table_entry dm)) (level_requests ms) (active_levels dm)"
    by (auto simp: handleIncomingMessage_messages[OF assms(3,5)])
  with handleIncomingMessage_frame[OF dm'(1)] map_set_levels[of dm] show ?thesis by (simp add: log_levels_def)
qed

theorem incoming_last_request_wins_witness:
  "\<exists>dm'. handleIncomingMessage dlt_documented True (Some (concat (map (enc_incoming dlt_documented)
      [InLogLevel 2 0 0, InLogState 1, InLogLevel 9 0 5, InLogLevel 4 0 0])))
      (replicate 1024 0) sample_registered = Some dm' \<and> log_levels dm' = [4]"
proof -
  let ?ms = "[InLogLevel 2 0 0, InLogState 1, InLogLevel 9 0 5, InLogLevel 4 0 0]"
  have "log_levels sample_registered = [6]"
    by (simp add: log_levels_def active_levels_def sample_registered_def sample_ctx_def dlt_ctx_new_def dlt_documented_def)
  then have "fold (\<lambda>(pos, level) ls. ls[nat pos := level]) (level_requests ?ms)
      (log_levels sample_registered) = [4]" by simp
  moreover have "length (concat (map (enc_incoming dlt_documented) ?ms)) \<le> INCOMING_SIZE"
    by (simp add: INCOMING_SIZE_def dlt_documented_def)
  moreover have "m_contexts sample_registered = [3]" by (simp add: sample_registered_def)
  moreover have "\<forall>m \<in> set ?ms. wf_incoming m" "\<forall>(pos, level) \<in> set (level_requests ?ms). 0 \<le> pos" by simp_all
  ultimately show ?thesis
    using incoming_last_request_wins[OF sample_reachable, of ?ms "replicate 1024 0"]
    by (auto simp del: enc_incoming.simps concat.simps list.map fold_simps level_requests.simps)
qed

text \<open>
  C3. Reconnection replays the registrations: when a message is sent while the connection is down
  and the daemon is back, the FIFO receives the application's registration, then the registration
  of every context in order, and only then the message, with the identifiers of its context in
  the extended header.
\<close>

theorem reconnect_then_log:
  assumes "\<not> isDaemonConnected dm" and "open_result os (dm_opens dm) \<noteq> -1"
    and "can_register api os app dm" and "cid \<in> set (m_contexts dm)"
    and "accepted os (dm_writes dm) (greeting api os app dm @
           [concat (log_message api os (stamp_ids api app (dm_store dm cid)) d)])"
  shows "\<exists>dm'. sendLog api os (Some app) cid d dm = Some dm' \<and> isDaemonConnected dm' \<and>
    dm_wire dm' = dm_wire dm @ greeting api os app dm @
      [concat (log_message api os (stamp_ids api app (dm_store dm cid)) d)]"
  using assms by (rule sendLog_reconnects)

definition sample_entry :: dlt_data where
  "sample_entry = dlt_data_new\<lparr>dd_content := [1, 2, 3], dd_enabled := True\<rparr>"

lemma sample_log_message_length:
  "length (eh_apid (extendedHeader c)) \<le> 4 \<Longrightarrow> length (eh_ctid (extendedHeader c)) \<le> 4 \<Longrightarrow>
   length (concat (log_message dlt_documented os c sample_entry)) \<le> 100"
  by (simp add: log_message_def sample_entry_def DltUserHeader_def DltStandardHeader_def
      DltStandardHeaderExtra_def enc_DltExtendedHeader_def log_extended_header_def dlt_documented_def Let_def)

lemma sample_ids: "ids_of dlt_documented sample_app (dm_store sample_registered 3) \<noteq> None"
  by (simp add: sample_app_def sample_registered_def sample_ctx_def dlt_ctx_new_def ids_of_def
      assign_id_def dlt_documented_def)

lemma sample_accepted:
  assumes "\<forall>k. k_0 \<le> k \<longrightarrow> k \<notin> fail"
  shows "accepted (os_up fail) k_0 (greeting dlt_documented (os_up fail) sample_app sample_registered @
    [concat (log_message dlt_documented (os_up fail)
      (stamp_ids dlt_documented sample_app (dm_store sample_registered 3)) sample_entry)])"
proof -
  let ?c = "stamp_ids dlt_documented sample_app (dm_store sample_registered 3)"
  have "has_ids dlt_documented sample_app ?c"
    by (rule stamp_ids_has_ids[OF sample_ids])
  then have "length (concat (log_message dlt_documented (os_up fail) ?c sample_entry)) \<le> 100"
    by (intro sample_log_message_length) (auto dest: has_ids_length simp: dlt_documented_def)
  moreover obtain a b where g: "greeting dlt_documented (os_up fail) sample_app sample_registered = [a, b]"
    by (simp add: greeting_def sample_registered_def)
  moreover have "length a = 33" "length b = 34"
    using sample_greeting_length[of fail] unfolding g by simp_all
  ultimately show ?thesis
    using assms by (simp add: os_up_def del: concat.simps)
qed

theorem reconnect_then_log_witness:
  "\<exists>dm'. sendLog dlt_documented (os_up {}) (Some sample_app) 3 sample_entry sample_registered = Some dm' \<and>
    length (dm_wire dm') = 3"
proof -
  have "length (greeting dlt_documented (os_up {}) sample_app sample_registered) = 2"
    "dm_wire sample_registered = []" "\<not> isDaemonConnected sample_registered"
    "dm_writes sample_registered = 0" "3 \<in> set (m_contexts sample_registered)"
    "open_result (os_up {}) (dm_opens sample_registered) \<noteq> -1"
    by (simp_all add: greeting_def sample_registered_def isDaemonConnected_def
        disconnectedFromDaemonFd_def os_up_def)
  then show ?thesis
    using reconnect_then_log[of sample_registered "os_up {}" dlt_documented sample_app 3 sample_entry]
      sample_can_register[of "{}"] sample_accepted[of 0 "{}"]
    by (auto simp del: concat.simps)
qed

text \<open>
  C11. A lost message costs only itself: when the daemon has gone away, the write of a message fails,
  nothing reaches the FIFO and the connection is closed; the next message of any context finds it
  closed, reopens it, registers everything again and is delivered.
\<close>

theorem lost_message_then_recovery:
  assumes "isDaemonConnected dm" and "writev_result os (dm_writes dm) = None"
    and "open_result os (dm_opens dm) \<noteq> -1" and "can_register api os app dm"
    and "cid \<in> set (m_contexts dm)"
    and "accepted os (dm_writes dm + 1) (greeting api os app dm @
           [concat (log_message api os (stamp_ids api app (dm_store dm cid)) d)])"
  shows "\<exists>dm1 dm2. sendLog api os (Some app) cid1 d1 dm = Some dm1 \<and>
    \<not> isDaemonConnected dm1 \<and> dm_wire dm1 = dm_wire dm \<and>
    sendLog api os (Some app) cid d dm1 = Some dm2 \<and> isDaemonConnected dm2 \<and>
    dm_wire dm2 = dm_wire dm @ greeting api os app dm @
      [concat (log_message api os (stamp_ids api app (dm_store dm cid)) d)]"
proof -
  let ?dm1 = "send os (log_message api os (dm_store dm cid1) d1) dm"
  have first: "sendLog api os (Some app) cid1 d1 dm = Some ?dm1"
    using assms(1) by (simp add: sendLog_def)
  have down: "\<not> isDaemonConnected ?dm1" "dm_wire ?dm1 = dm_wire dm"
    using send_failed[OF assms(2)] by blast+
  have same: "greeting api os app ?dm1 = greeting api os app dm"
    "can_register api os app ?dm1 = can_register api os app dm"
    by (simp_all add: greeting_def can_register_def wire_simps)
  have "\<exists>dm2. sendLog api os (Some app) cid d ?dm1 = Some dm2 \<and> isDaemonConnected dm2 \<and>
    dm_wire dm2 = dm_wire ?dm1 @ greeting api os app ?dm1 @
      [concat (log_message api os (stamp_ids api app (dm_store ?dm1 cid)) d)]"
    using assms(3-6) by (intro sendLog_reconnects[OF down(1)]) (simp_all add: wire_simps same)
  then show ?thesis using first down same by (auto simp: wire_simps)
qed

theorem lost_message_then_recovery_witness:
  "\<exists>dm1 dm2. sendLog dlt_documented (os_up {0}) (Some sample_app) 3 sample_entry
      (sample_registered\<lparr>m_daemonFileDescriptor := 7\<rparr>) = Some dm1 \<and> dm_wire dm1 = [] \<and>
    sendLog dlt_documented (os_up {0}) (Some sample_app) 3 sample_entry dm1 = Some dm2 \<and>
    length (dm_wire dm2) = 3"
proof -
  let ?dm = "sample_registered\<lparr>m_daemonFileDescriptor := 7\<rparr>"
  have g: "greeting dlt_documented (os_up {0}) sample_app ?dm =
      greeting dlt_documented (os_up {0}) sample_app sample_registered"
    "can_register dlt_documented (os_up {0}) sample_app ?dm"
    using sample_can_register[of "{0}"] by (simp_all add: greeting_def can_register_def)
  have "length (greeting dlt_documented (os_up {0}) sample_app sample_registered) = 2"
    "dm_wire ?dm = []" "isDaemonConnected ?dm" "dm_writes ?dm = 0" "3 \<in> set (m_contexts ?dm)"
    "open_result (os_up {0}) (dm_opens ?dm) \<noteq> -1" "writev_result (os_up {0}) 0 = None"
    by (simp_all add: greeting_def sample_registered_def isDaemonConnected_def
        disconnectedFromDaemonFd_def os_up_def)
  then show ?thesis
    using lost_message_then_recovery[of ?dm "os_up {0}" dlt_documented sample_app 3 sample_entry
        3 sample_entry] g sample_accepted[of 1 "{0}"]
    by (fastforce simp del: concat.simps)
qed

text \<open>
  Every message that is delivered carries the identifiers of its application and context: in
  any reachable connection, a message of a registered context that did not close the connection
  is the last thing on the FIFO, and its extended header holds the application's and the
  context's four bytes, also for contexts registered before the daemon was up.
\<close>

lemma log_carries_ids:
  assumes "dm_reachable api app st dm" and "cid \<in> set (m_contexts dm)"
    and "sendLog api os (Some app) cid d dm = Some dm'" and "isDaemonConnected dm'"
  shows "\<exists>w a b n c. assign_id api (app_id app) = Some a \<and>
    assign_id api (ctx_id (dc_context (dm_store dm cid))) = Some b \<and>
    eh_apid (log_extended_header api c d) = a \<and> eh_ctid (log_extended_header api c d) = b \<and>
    dm_wire dm' = w @ [take n (concat (log_message api os c d))]"
proof -
  from assms(3,4) obtain dm1 where i: "initDaemonConnection api os (Some app) dm = Some dm1"
    and dm': "dm' = send os (log_message api os (dm_store dm1 cid) d) dm1" and up: "isDaemonConnected dm1"
    by (auto simp: sendLog_def split: bind_splits if_splits)
  from initDaemonConnection_inv[OF dm_reachable_inv[OF assms(1)] i] initDaemonConnection_frame[OF i] up assms(2)
  have "has_ids api app (dm_store dm1 cid)" by (simp add: dm_inv_def)
  moreover have "dc_context (dm_store dm1 cid) = dc_context (dm_store dm cid)"
    using initDaemonConnection_frame[OF i] by (auto simp: stamp_all_def)
  moreover obtain n where "dm_wire dm' = dm_wire dm1 @
      [take n (concat (log_message api os (dm_store dm1 cid) d))]"
    using send_connected_wire assms(4) unfolding dm' by blast
  ultimately show ?thesis
    by (intro exI[of _ "dm_wire dm1"] exI[of _ "eh_apid (extendedHeader (dm_store dm1 cid))"]
        exI[of _ "eh_ctid (extendedHeader (dm_store dm1 cid))"] exI[of _ n] exI[of _ "dm_store dm1 cid"])
       (auto simp: has_ids_def ids_of_def log_extended_header_def Let_def split: bind_splits)
qed

lemma log_carries_ids_witness:
  "\<exists>dm' w n c. sendLog dlt_documented (os_up {}) (Some sample_app) 3 sample_entry sample_registered = Some dm' \<and>
    eh_ctid (log_extended_header dlt_documented c sample_entry) = text_bytes ''MAIN'' \<and>
    dm_wire dm' = w @ [take n (concat (log_message dlt_documented (os_up {}) c sample_entry))]"
proof -
  have "\<exists>dm'. sendLog dlt_documented (os_up {}) (Some sample_app) 3 sample_entry sample_registered = Some dm' \<and>
      isDaemonConnected dm'"
    using sendLog_reconnects[of sample_registered "os_up {}" dlt_documented sample_app 3 sample_entry]
      sample_can_register[of "{}"] sample_accepted[of 0 "{}"]
    by (auto simp: isDaemonConnected_def disconnectedFromDaemonFd_def os_up_def sample_registered_def
        simp del: concat.simps)
  moreover have "3 \<in> set (m_contexts sample_registered)"
    "assign_id dlt_documented (ctx_id (dc_context (dm_store sample_registered 3))) = Some (text_bytes ''MAIN'')"
    by (simp_all add: sample_registered_def sample_ctx_def dlt_ctx_new_def assign_id_def dlt_documented_def)
  ultimately show ?thesis
    using log_carries_ids[OF sample_reachable, of 3 "os_up {}" sample_entry] by (metis option.inject)
qed

text \<open>
  The length field of a log message, read back from the bytes on the wire, is the length of
  the DLT message: everything that follows the user header. Content of the largest size the
  buffer holds does not wrap the 16-bit field.
\<close>

lemma log_length_field:
  assumes "has_ids dlt_documented app c" and "length (dd_content d) \<le> 16384"
    and "m = concat (tl (log_message dlt_documented os c d))"
  shows "256 * unat (m ! 2) + unat (m ! 3) = length m"
proof -
  let ?len = "unat (standardheaderLen dlt_documented d)"
  have len: "?len = length m"
    unfolding assms(3) using assms(2) has_ids_length[OF assms(1)]
    by (intro log_message_length) (simp_all add: dlt_documented_def)
  have "m ! 2 = word_of_nat (?len div 256 mod 256)" "m ! 3 = word_of_nat (?len mod 256)"
    unfolding assms(3) by (simp_all add: log_message_def DltStandardHeader_def be_nat_def numeral_2_eq_2
        numeral_3_eq_3)
  then have "256 * unat (m ! 2) + unat (m ! 3) = 256 * (?len div 256 mod 256) + ?len mod 256"
    by (simp add: unat_of_nat)
  also have "?len div 256 mod 256 = ?len div 256"
  proof (rule mod_less)
    have "?len < 2 ^ LENGTH(16)" by (rule unsigned_less)
    then show "?len div 256 < 256" by (simp add: less_mult_imp_div_less)
  qed
  finally show ?thesis by (simp add: len)
qed

lemma log_length_field_witness:
  "256 * unat (concat (tl (log_message dlt_documented (os_up {})
       (stamp_ids dlt_documented sample_app sample_ctx) sample_entry)) ! 2) +
     unat (concat (tl (log_message dlt_documented (os_up {})
       (stamp_ids dlt_documented sample_app sample_ctx) sample_entry)) ! 3) = (29::nat)"
proof -
  have i: "ids_of dlt_documented sample_app sample_ctx \<noteq> None"
    using sample_ids by (simp add: ids_of_def sample_registered_def)
  note h = stamp_ids_has_ids[OF i]
  have "length (concat (tl (log_message dlt_documented (os_up {})
       (stamp_ids dlt_documented sample_app sample_ctx) sample_entry))) = 29"
    using has_ids_length[OF h]
    by (simp add: log_message_def sample_entry_def DltStandardHeader_def
      DltStandardHeaderExtra_def enc_DltExtendedHeader_def log_extended_header_def dlt_documented_def Let_def)
  then show ?thesis
    using log_length_field[OF h, of sample_entry _ "os_up {}", OF _ refl] by (simp add: sample_entry_def)
qed

end
