(* ===== verification/Log_Context.thy ===== *)
theory Log_Context
  imports Line_Backend Dlt_Session
begin

text \<open>
  The front end of \<open>include/ivi-logging.h\<close>: \<open>LogContextT\<close> and its \<open>LogEntry\<close>, which fan a log
  statement out to a tuple of back ends, and the macro \<open>log_with_context\<close> behind \<open>log_info()\<close> and
  its siblings. The tuple is a list of back ends, one constructor per context class (the DLT
  contexts live in the store of the daemon connection, by their address). A pointer from a log
  entry to its context is the position in the list. \<open>world\<close> is the state of the process,
  \<open>surroundings\<close> what a statement finds outside of it. \<open>w_app\<close> holds the application's own
  variables, which streamed expressions may read and change.
\<close>

section \<open>State\<close>

record surroundings =
  sr_platform :: platform
  sr_api :: dlt_api
  sr_os :: dlt_os
  sr_elapsed :: int
  sr_winsize :: "16 word option"
  sr_junk :: mem
  sr_tid :: nat
  sr_thread_name :: string

record world =
  w_process :: process
  w_console :: console_globals
  w_file :: file_state
  w_daemon :: daemon
  w_threads :: thread_ids
  w_printed :: "(out_file \<times> string) list"
  w_aborted :: bool
  w_app :: "string \<Rightarrow> int"

datatype backend_ctx = ConsoleCtx console_ctx | FileCtx stream_ctx | DltCtx nat | NullCtx

datatype backend_data = ConsoleData console_data | FileData stream_data | DltData dlt_data | NullData

record log_ctx =
  lc_common :: LogContextCommon
  lc_contexts :: "backend_ctx list"
  m_bRegistered :: bool

record log_entry =
  le_li :: LogInfo
  le_data :: "backend_data list"

section \<open>Contexts\<close>

fun ctx_isEnabled :: "surroundings \<Rightarrow> world \<Rightarrow> LogLevel \<Rightarrow> backend_ctx \<Rightarrow> bool" where
  "ctx_isEnabled sr w level (ConsoleCtx c) = console_isEnabled (w_console w) c level"
| "ctx_isEnabled sr w level (FileCtx c) = stream_isEnabled c level"
| "ctx_isEnabled sr w level (DltCtx k) = dlt_isEnabled (sr_api sr) (dm_store (w_daemon w) k) level"
| "ctx_isEnabled sr w level NullCtx = False"

fun ctx_register :: "surroundings \<Rightarrow> backend_ctx \<Rightarrow> world \<Rightarrow> world option" where
  "ctx_register sr (ConsoleCtx c) w =
     Some (w\<lparr>w_process := registerContextBase (sr_platform sr) (w_process w)\<rparr>)"
| "ctx_register sr (FileCtx c) w =
     Some (w\<lparr>w_process := registerContextBase (sr_platform sr) (w_process w)\<rparr>)"
| "ctx_register sr (DltCtx k) w = do {
     let w = w\<lparr>w_process := registerContextBase (sr_platform sr) (w_process w)\<rparr>;
     (pos, dm) \<leftarrow> registerContext (sr_api sr) (sr_os sr) (s_pAppLogContext (w_process w)) k (w_daemon w);
     Some (w\<lparr>w_daemon := dm\<rparr>) }"
| "ctx_register sr NullCtx w = Some w"

fun ctx_register_all :: "surroundings \<Rightarrow> backend_ctx list \<Rightarrow> world \<Rightarrow> world option" where
  "ctx_register_all sr [] w = Some w"
| "ctx_register_all sr (c # cs) w = ctx_register sr c w \<bind> ctx_register_all sr cs"

definition checkContext :: "surroundings \<Rightarrow> log_ctx \<Rightarrow> world \<Rightarrow> (log_ctx \<times> world) option" where
  "checkContext sr ctx w = (if \<not> m_bRegistered ctx then do {
     p \<leftarrow> setDefaultAPPIDSIfNeeded (sr_platform sr) (w_process w);
     w \<leftarrow> ctx_register_all sr (lc_contexts ctx) (w\<lparr>w_process := p\<rparr>);
     Some (ctx\<lparr>m_bRegistered := True\<rparr>, w) }
     else Some (ctx, w))"

fun any_enabled :: "surroundings \<Rightarrow> world \<Rightarrow> LogLevel \<Rightarrow> backend_ctx list \<Rightarrow> bool \<Rightarrow> bool" where
  "any_enabled sr w level [] enabled = enabled"
| "any_enabled sr w level (c # cs) enabled =
     any_enabled sr w level cs (enabled \<or> ctx_isEnabled sr w level c)"

definition log_isEnabled :: "surroundings \<Rightarrow> LogLevel \<Rightarrow> log_ctx \<Rightarrow> world \<Rightarrow>
    (bool \<times> log_ctx \<times> world) option" where
  "log_isEnabled sr level ctx w = do {
     (ctx, w) \<leftarrow> checkContext sr ctx w;
     Some (any_enabled sr w level (lc_contexts ctx) False, ctx, w) }"

section \<open>Entries\<close>

fun data_init :: "surroundings \<Rightarrow> LogInfo \<Rightarrow> backend_ctx \<Rightarrow> world \<Rightarrow> (backend_data \<times> world) option" where
  "data_init sr li (ConsoleCtx c) w = do {
     d \<leftarrow> console_init (console_isEnabled (w_console w) c (m_level li)) c (sr_elapsed sr) li
           (console_data_new (sr_junk sr));
     Some (ConsoleData d, w) }"
| "data_init sr li (FileCtx c) w = do {
     d \<leftarrow> file_init (stream_isEnabled c (m_level li)) c (sr_elapsed sr) li (file_data_new (sr_junk sr));
     Some (FileData d, w) }"
| "data_init sr li (DltCtx k) w =
     (let (d, c) = dlt_init (sr_api sr) (dm_store (w_daemon w) k) li dlt_data_new
      in Some (DltData d, w\<lparr>w_daemon := (w_daemon w)\<lparr>dm_store := (dm_store (w_daemon w))(k := c)\<rparr>\<rparr>))"
| "data_init sr li NullCtx w = Some (NullData, w)"

fun for_each_init :: "surroundings \<Rightarrow> LogInfo \<Rightarrow> backend_ctx list \<Rightarrow> world \<Rightarrow>
    (backend_data list \<times> world) option" where
  "for_each_init sr li [] w = Some ([], w)"
| "for_each_init sr li (c # cs) w = do {
     (d, w) \<leftarrow> data_init sr li c w;
     (ds, w) \<leftarrow> for_each_init sr li cs w;
     Some (d # ds, w) }"

definition LogEntry_ctor :: "surroundings \<Rightarrow> LogLevel \<Rightarrow> string \<Rightarrow> int \<Rightarrow> string \<Rightarrow> log_ctx \<Rightarrow> world \<Rightarrow>
    (log_entry \<times> world) option" where
  "LogEntry_ctor sr level fileName lineNumber prettyFunction ctx w = do {
     let li = LogInfo_ctor level fileName lineNumber prettyFunction;
     (ds, w) \<leftarrow> for_each_init sr li (lc_contexts ctx) w;
     Some (\<lparr>le_li = li, le_data = ds\<rparr>, w) }"

definition createLog :: "surroundings \<Rightarrow> LogLevel \<Rightarrow> string \<Rightarrow> int \<Rightarrow> string \<Rightarrow> log_ctx \<Rightarrow> world \<Rightarrow>
    (log_entry \<times> world) option" where
  "createLog sr level fileName lineNumber prettyFunction ctx w =
     LogEntry_ctor sr level fileName lineNumber prettyFunction ctx w"

fun data_isEnabled :: "world \<Rightarrow> LogLevel \<Rightarrow> backend_ctx \<times> backend_data \<Rightarrow> bool" where
  "data_isEnabled w level (ConsoleCtx c, ConsoleData d) = console_isEnabled (w_console w) c level"
| "data_isEnabled w level (FileCtx c, FileData d) = stream_isEnabled c level"
| "data_isEnabled w level (DltCtx k, DltData d) = dd_enabled d"
| "data_isEnabled w level _ = False"

text \<open>One call (\<open>write\<close> or \<open>writeFormatted\<close>) on one back end's part of the entry.\<close>

fun data_do :: "surroundings \<Rightarrow> world \<Rightarrow> LogLevel \<Rightarrow> log_op \<Rightarrow> backend_ctx \<times> backend_data \<Rightarrow>
    backend_data option" where
  "data_do sr w level op (ConsoleCtx c, ConsoleData d) =
     map_option ConsoleData (sd_do (console_isEnabled (w_console w) c level) op d)"
| "data_do sr w level op (FileCtx c, FileData d) =
     map_option FileData (sd_do (stream_isEnabled c level) op d)"
| "data_do sr w level op (DltCtx k, DltData d) = map_option DltData (dlt_do (sr_api sr) op d)"
| "data_do sr w level op (c, d) = Some d"

fun for_each_do :: "surroundings \<Rightarrow> world \<Rightarrow> LogLevel \<Rightarrow> log_op \<Rightarrow> (backend_ctx \<times> backend_data) list \<Rightarrow>
    backend_data list option" where
  "for_each_do sr w level op [] = Some []"
| "for_each_do sr w level op ((c, d) # cds) = do {
     d \<leftarrow> (if data_isEnabled w level (c, d) then data_do sr w level op (c, d) else Some d);
     ds \<leftarrow> for_each_do sr w level op cds;
     Some (d # ds) }"

text \<open>What can be streamed into an entry: a value, a formatted text, \<open>std::hex\<close> and \<open>std::dec\<close>.\<close>

datatype entry_call = CallWrite log_value | CallFormatted string "c_arg list" | CallSetHex bool

fun entry_do :: "surroundings \<Rightarrow> log_ctx \<Rightarrow> world \<Rightarrow> entry_call \<Rightarrow> log_entry \<Rightarrow> log_entry option" where
  "entry_do sr ctx w (CallWrite v) e = do {
     ds \<leftarrow> for_each_do sr w (m_level (le_li e)) (OpWrite (m_hexEnabled (le_li e)) v)
            (zip (lc_contexts ctx) (le_data e));
     Some (e\<lparr>le_data := ds\<rparr>) }"
| "entry_do sr ctx w (CallFormatted f args) e = do {
     ds \<leftarrow> for_each_do sr w (m_level (le_li e)) (OpFormatted f args) (zip (lc_contexts ctx) (le_data e));
     Some (e\<lparr>le_data := ds\<rparr>) }"
| "entry_do sr ctx w (CallSetHex on) e = Some (e\<lparr>le_li := (le_li e)\<lparr>m_hexEnabled := on\<rparr>\<rparr>)"

section \<open>Destruction\<close>

text \<open>The calling thread as a back end asks for it; the first time, the thread gets its identifier.\<close>

definition ask_thread :: "surroundings \<Rightarrow> world \<Rightarrow> (int \<times> string) option \<times> world" where
  "ask_thread sr w = (if m_enableThreadInfo (w_process w) then
     (let (i, ts) = getThreadInformation (sr_tid sr) (w_threads w)
      in (Some (getID i, sr_thread_name sr), w\<lparr>w_threads := ts\<rparr>))
     else (None, w))"

text \<open>
  What a DLT part has printed (the warning of a truncated message, at the call that closes it) joins the
  output of the process when the part is destroyed.
\<close>

definition stdout_part :: "string \<Rightarrow> (out_file \<times> string) list" where
  "stdout_part out = (if out = [] then [] else [(Stdout, out)])"

fun data_dtor :: "surroundings \<Rightarrow> backend_ctx \<times> backend_data \<Rightarrow> LogInfo \<Rightarrow> world \<Rightarrow>
    (LogInfo \<times> world) option" where
  "data_dtor sr (ConsoleCtx c, ConsoleData d) li w = (
     let en = console_isEnabled (w_console w) c (m_level li);
         (thread, w) = (if en then ask_thread sr w else (None, w))
     in do {
       (out, li) \<leftarrow> console_flush en c (sr_winsize sr) (sr_junk sr) thread li d;
       Some (li, case out of None \<Rightarrow> w | Some o1 \<Rightarrow> w\<lparr>w_printed := w_printed w @ [o1]\<rparr>) })"
| "data_dtor sr (FileCtx c, FileData d) li w = (
     let en = stream_isEnabled c (m_level li);
         (thread, w) = (if en then ask_thread sr w else (None, w))
     in do {
       (st, li) \<leftarrow> file_flush en (sr_junk sr) thread li d (w_file w);
       Some (li, w\<lparr>w_file := st\<rparr>) })"
| "data_dtor sr (DltCtx k, DltData d) li w = (
     let (thread, w) = (if dd_enabled d then ask_thread sr w else (None, w))
     in do {
       (out, dm) \<leftarrow> dlt_flush (sr_api sr) (sr_os sr) (s_pAppLogContext (w_process w))
              (m_enableSourceCodeLocationInfo (w_process w)) thread li k d (w_daemon w);
       Some (li, w\<lparr>w_daemon := dm, w_printed := w_printed w @ stdout_part out\<rparr>) })"
| "data_dtor sr (c, d) li w = Some (li, w)"

fun for_each_dtor :: "surroundings \<Rightarrow> (backend_ctx \<times> backend_data) list \<Rightarrow> LogInfo \<Rightarrow> world \<Rightarrow>
    (LogInfo \<times> world) option" where
  "for_each_dtor sr [] li w = Some (li, w)"
| "for_each_dtor sr (cd # cds) li w = do {
     (li, w) \<leftarrow> data_dtor sr cd li w;
     for_each_dtor sr cds li w }"

text \<open>The members of a \<open>LogEntry\<close> are destroyed before its base \<open>LogInfo\<close>.\<close>

definition entry_dtor :: "surroundings \<Rightarrow> log_ctx \<Rightarrow> log_entry \<Rightarrow> world \<Rightarrow> world option" where
  "entry_dtor sr ctx e w = do {
     (li, w) \<leftarrow> for_each_dtor sr (zip (lc_contexts ctx) (le_data e)) (le_li e) w;
     Some (case LogInfo_dtor li of None \<Rightarrow> w
       | Some message \<Rightarrow> w\<lparr>w_printed := w_printed w @ [(Stderr, message)], w_aborted := True\<rparr>) }"

section \<open>The statement\<close>

text \<open>
  \<open>log_with_context(ctx, level) << x << y ...\<close>: the loop of the macro runs its body at most once, and
  only when a back end is enabled. Each streamed expression is evaluated, which may change the
  world, and written before the next one is looked at.
\<close>

fun stream_items :: "surroundings \<Rightarrow> log_ctx \<Rightarrow> (world \<Rightarrow> (entry_call \<times> world) option) list \<Rightarrow>
    log_entry \<Rightarrow> world \<Rightarrow> (log_entry \<times> world) option" where
  "stream_items sr ctx [] e w = Some (e, w)"
| "stream_items sr ctx (x # xs) e w = do {
     (call, w) \<leftarrow> x w;
     e \<leftarrow> entry_do sr ctx w call e;
     stream_items sr ctx xs e w }"

definition log_with_context :: "surroundings \<Rightarrow> LogLevel \<Rightarrow> string \<Rightarrow> int \<Rightarrow> string \<Rightarrow>
    (world \<Rightarrow> (entry_call \<times> world) option) list \<Rightarrow> log_ctx \<Rightarrow> world \<Rightarrow> (log_ctx \<times> world) option" where
  "log_with_context sr level fileName lineNumber prettyFunction items ctx w = do {
     (enabled, ctx, w) \<leftarrow> log_isEnabled sr level ctx w;
     if enabled then do {
       (e, w) \<leftarrow> createLog sr level fileName lineNumber prettyFunction ctx w;
       (e, w) \<leftarrow> stream_items sr ctx items e w;
       w \<leftarrow> entry_dtor sr ctx e w;
       Some (ctx, w) }
     else Some (ctx, w) }"

section \<open>Registration\<close>

fun dlt_addresses :: "backend_ctx list \<Rightarrow> nat list" where
  "dlt_addresses [] = []"
| "dlt_addresses (DltCtx k # cs) = k # dlt_addresses cs"
| "dlt_addresses (_ # cs) = dlt_addresses cs"

lemma registerContextBase_app [simp]: "s_pAppLogContext (registerContextBase os p) = s_pAppLogContext p"
  by (simp add: registerContextBase_def)

lemma registerContext_contexts:
  assumes "registerContext api os (Some app) cid dm = Some (pos, dm')"
  shows "m_contexts dm' = m_contexts dm @ [cid]"
proof -
  let ?dm1 = "dm\<lparr>dm_store := (dm_store dm)(cid := (dm_store dm cid)\<lparr>log_level_pos :=
    int (length (m_contexts dm))\<rparr>), m_contexts := m_contexts dm @ [cid]\<rparr>"
  from assms obtain dm2 where "initDaemonConnection api os (Some app) ?dm1 = Some dm2"
    and "sendContextRegistration api os (Some app) cid dm2 = Some dm' \<or> dm' = dm2"
    by (auto simp: registerContext_def Let_def split: bind_splits if_splits)
  with initDaemonConnection_frame[of api os app ?dm1 dm2]
    sendContextRegistration_frame(1)[of api os app cid dm2 dm'] show ?thesis by auto
qed

lemma ctx_register_all_contexts:
  assumes "ctx_register_all sr cs w = Some w'" and "s_pAppLogContext (w_process w) = Some app"
  shows "m_contexts (w_daemon w') = m_contexts (w_daemon w) @ dlt_addresses cs \<and>
    s_pAppLogContext (w_process w') = Some app \<and> w_printed w' = w_printed w"
  using assms
proof (induction cs arbitrary: w)
  case (Cons c cs)
  from Cons.prems(1) obtain w1 where w1: "ctx_register sr c w = Some w1" "ctx_register_all sr cs w1 = Some w'"
    by (auto split: bind_splits)
  have "m_contexts (w_daemon w1) = m_contexts (w_daemon w) @ dlt_addresses [c] \<and>
      s_pAppLogContext (w_process w1) = Some app \<and> w_printed w1 = w_printed w"
    using w1(1) Cons.prems(2)
    by (cases c) (auto simp: Let_def dest: registerContext_contexts split: bind_splits)
  moreover have "dlt_addresses (c # cs) = dlt_addresses [c] @ dlt_addresses cs" by (cases c) simp_all
  ultimately show ?case using Cons.IH[OF w1(2)] by simp
qed simp

lemma checkContext_registered: "m_bRegistered ctx \<Longrightarrow> checkContext sr ctx w = Some (ctx, w)"
  by (simp add: checkContext_def)

lemma ctx_register_effect:
  "ctx_register sr c w = Some w' \<Longrightarrow> w' = w\<lparr>w_process := w_process w', w_daemon := w_daemon w'\<rparr>"
  by (cases c) (auto simp: Let_def split: bind_splits)

lemma ctx_register_all_effect:
  "ctx_register_all sr cs w = Some w' \<Longrightarrow> w' = w\<lparr>w_process := w_process w', w_daemon := w_daemon w'\<rparr>"
proof (induction cs arbitrary: w)
  case (Cons c cs)
  then obtain w1 where w1: "ctx_register sr c w = Some w1" "ctx_register_all sr cs w1 = Some w'" by (auto split: bind_splits)
  have "w' = w1\<lparr>w_process := w_process w', w_daemon := w_daemon w'\<rparr>" by (rule Cons.IH[OF w1(2)])
  also have "\<dots> = w\<lparr>w_process := w_process w', w_daemon := w_daemon w'\<rparr>"
    by (subst ctx_register_effect[OF w1(1)]) simp
  finally show ?case .
qed simp

lemma checkContext_effect:
  assumes "checkContext sr ctx w = Some (ctx1, w1)"
  shows "if m_bRegistered ctx then ctx1 = ctx \<and> w1 = w
    else ctx1 = ctx\<lparr>m_bRegistered := True\<rparr> \<and> w1 = w\<lparr>w_process := w_process w1, w_daemon := w_daemon w1\<rparr>"
proof (cases "m_bRegistered ctx")
  case False
  with assms obtain p where "ctx_register_all sr (lc_contexts ctx) (w\<lparr>w_process := p\<rparr>) = Some w1"
    "ctx1 = ctx\<lparr>m_bRegistered := True\<rparr>" by (auto simp: checkContext_def split: bind_splits)
  with ctx_register_all_effect[OF this(1)] False show ?thesis by simp
qed (use assms in \<open>simp add: checkContext_def\<close>)

lemma any_enabled_iff:
  "any_enabled sr w level cs en \<longleftrightarrow> en \<or> (\<exists>c \<in> set cs. ctx_isEnabled sr w level c)"
  by (induction cs arbitrary: en) auto

section \<open>Every back end gets every call\<close>

text \<open>The calls as a back end sees them: each value with the state of the switch at that moment.\<close>

fun calls_ops :: "bool \<Rightarrow> entry_call list \<Rightarrow> log_op list" where
  "calls_ops hex [] = []"
| "calls_ops hex (CallWrite v # cs) = OpWrite hex v # calls_ops hex cs"
| "calls_ops hex (CallFormatted f args # cs) = OpFormatted f args # calls_ops hex cs"
| "calls_ops hex (CallSetHex on # cs) = calls_ops on cs"

definition data_step :: "surroundings \<Rightarrow> world \<Rightarrow> LogLevel \<Rightarrow> backend_ctx \<Rightarrow> log_op \<Rightarrow>
    backend_data \<Rightarrow> backend_data option" where
  "data_step sr w level c op d =
     (if data_isEnabled w level (c, d) then data_do sr w level op (c, d) else Some d)"

text \<open>The streamed expressions of a statement without side effects.\<close>

abbreviation pure_items :: "entry_call list \<Rightarrow> (world \<Rightarrow> (entry_call \<times> world) option) list" where
  "pure_items calls \<equiv> map (\<lambda>call w. Some (call, w)) calls"

lemma for_each_do_eq:
  assumes "length cs = length ds"
  shows "for_each_do sr w level op (zip cs ds) =
    those (map2 (\<lambda>c d. data_step sr w level c op d) cs ds)"
  using assms
proof (induction cs ds rule: list_induct2)
  case (Cons c cs d ds)
  then show ?case by (auto simp: data_step_def split: option.splits bind_splits)
qed simp

lemma those_Some_iff: "those xs = Some ys \<longleftrightarrow> xs = map Some ys"
  by (induction xs arbitrary: ys) (auto split: option.splits simp: Cons_eq_map_conv)

lemma for_each_do_nth:
  assumes "length cs = length ds"
  shows "for_each_do sr w level op (zip cs ds) = Some ds' \<longleftrightarrow>
    length ds' = length ds \<and> (\<forall>i < length ds. data_step sr w level (cs ! i) op (ds ! i) = Some (ds' ! i))"
  unfolding for_each_do_eq[OF assms] those_Some_iff
  using assms by (auto simp: list_eq_iff_nth_eq)

lemma stream_items_pure:
  "length (lc_contexts ctx) = length (le_data e) \<Longrightarrow>
   stream_items sr ctx (pure_items calls) e w = Some (e', w') \<Longrightarrow>
     w' = w \<and> length (le_data e') = length (le_data e) \<and>
     le_li e' = (le_li e)\<lparr>m_hexEnabled := m_hexEnabled (le_li e')\<rparr> \<and>
     (\<forall>i < length (le_data e). puts (data_step sr w (m_level (le_li e)) (lc_contexts ctx ! i))
        (calls_ops (m_hexEnabled (le_li e)) calls) (le_data e ! i) = Some (le_data e' ! i))"
proof (induction calls arbitrary: e)
  case (Cons call calls)
  from Cons.prems(2) obtain e1 where e1: "entry_do sr ctx w call e = Some e1"
    "stream_items sr ctx (pure_items calls) e1 w = Some (e', w')"
    by (auto split: bind_splits)
  have step: "length (le_data e1) = length (le_data e)"
    "le_li e1 = (le_li e)\<lparr>m_hexEnabled := m_hexEnabled (le_li e1)\<rparr>"
    "\<forall>i < length (le_data e). \<forall>ops. puts (data_step sr w (m_level (le_li e)) (lc_contexts ctx ! i))
       (calls_ops (m_hexEnabled (le_li e)) (call # calls)) (le_data e ! i) =
     puts (data_step sr w (m_level (le_li e)) (lc_contexts ctx ! i))
       (calls_ops (m_hexEnabled (le_li e1)) calls) (le_data e1 ! i)"
    using e1(1) Cons.prems(1) for_each_do_nth[OF Cons.prems(1)]
    by (cases call; auto split: bind_splits)+
  then have lvl: "m_level (le_li e1) = m_level (le_li e)" by (metis LogInfo.select_convs(1) LogInfo.surjective LogInfo.update_convs(6))
  show ?case
    using Cons.IH[OF _ e1(2)] step lvl Cons.prems(1)
    by (metis (no_types, lifting) LogInfo.surjective LogInfo.update_convs(6))
qed simp

section \<open>What reaches the terminal\<close>

definition console_header :: "surroundings \<Rightarrow> LogInfo \<Rightarrow> console_ctx \<Rightarrow> string" where
  "console_header sr li c = console_header_text c (sr_elapsed sr) (m_level li)"

text \<open>The line an enabled console back end prints for a statement whose texts are \<open>u\<close>.\<close>

definition console_output :: "surroundings \<Rightarrow> (int \<times> string) option \<Rightarrow> LogInfo \<Rightarrow> string \<Rightarrow>
    console_ctx \<Rightarrow> out_file \<times> string" where
  "console_output sr thread li u c = (console_getFile li, console_header sr li c @ u @
     console_suffix_text c (getConsoleWidth (sr_winsize sr)) (m_level li)
       (int (length (console_header sr li c @ u)) - header_invisible c (m_level li))
       (suffix_text thread li))"

fun console_outputs :: "surroundings \<Rightarrow> world \<Rightarrow> (int \<times> string) option \<Rightarrow> LogInfo \<Rightarrow> string \<Rightarrow>
    backend_ctx list \<Rightarrow> (out_file \<times> string) list" where
  "console_outputs sr w thread li u [] = []"
| "console_outputs sr w thread li u (ConsoleCtx c # cs) =
     (if console_isEnabled (w_console w) c (m_level li) then [console_output sr thread li u c] else []) @
     console_outputs sr w thread li u cs"
| "console_outputs sr w thread li u (_ # cs) = console_outputs sr w thread li u cs"

text \<open>
  The part of an entry that belongs to a context: of its kind, and holding the text. A DLT part may print
  of its own accord and is left to Dlt\_Statement.
\<close>

fun holds_text :: "surroundings \<Rightarrow> world \<Rightarrow> LogInfo \<Rightarrow> string \<Rightarrow> backend_ctx \<Rightarrow> backend_data \<Rightarrow> bool" where
  "holds_text sr w li u (ConsoleCtx c) cd = (\<exists>d. cd = ConsoleData d \<and>
     (console_isEnabled (w_console w) c (m_level li) \<longrightarrow> sd_inv d \<and> default_formats d \<and>
        sd_text d = console_header sr li c @ u \<and>
        m_invisibleCharacterCount d = header_invisible c (m_level li)))"
| "holds_text sr w li u (DltCtx k) cd = False"
| "holds_text sr w li u _ cd = (\<forall>d. cd \<noteq> ConsoleData d)"

text \<open>Two views of the same statement: only the cached position of the file name may differ.\<close>

definition same_info :: "LogInfo \<Rightarrow> LogInfo \<Rightarrow> bool" where
  "same_info li li' \<longleftrightarrow> m_level li' = m_level li \<and> m_lineNumber li' = m_lineNumber li \<and>
     fst (getFileName li') = fst (getFileName li)"

lemma same_info_refl [simp]: "same_info li li"
  by (simp add: same_info_def)

lemma same_info_cached [simp]: "same_info li (snd (getFileName li))"
  by (simp add: same_info_def)

lemma same_info_trans: "same_info a b \<Longrightarrow> same_info b c \<Longrightarrow> same_info a c"
  by (simp add: same_info_def)

lemma same_info_hex [simp]: "same_info li (li\<lparr>m_hexEnabled := b\<rparr>)"
  by (simp add: same_info_def getFileName_def Let_def split: option.split)

lemma same_info_suffix: "same_info li li' \<Longrightarrow> suffix_text thread li' = suffix_text thread li"
  by (simp add: same_info_def suffix_text_def location_text_def)

lemma same_info_output:
  "same_info li li' \<Longrightarrow> console_output sr thread li' u c = console_output sr thread li u c"
  by (simp add: console_output_def console_header_def same_info_suffix console_getFile_def)
     (simp add: same_info_def)

lemma same_info_outputs:
  assumes "same_info li li'"
  shows "console_outputs sr w thread li' u cs = console_outputs sr w thread li u cs"
proof -
  have level: "m_level li' = m_level li" using assms by (simp add: same_info_def)
  have "console_outputs sr w thread li' u (c # cs') = console_outputs sr w thread li u (c # cs')"
    if "console_outputs sr w thread li' u cs' = console_outputs sr w thread li u cs'" for c cs'
    using that level by (cases c) (simp_all add: same_info_output[OF assms])
  then show ?thesis by (induction cs) simp_all
qed

lemma getSuffix_info: "getSuffix junk thread li d = Some (a, li') \<Longrightarrow> li' = snd (getFileName li)"
  by (auto simp: getSuffix_def split: prod.splits bind_splits option.splits)

lemma console_flush_info:
  assumes "console_flush en c ws junk thread li d = Some (out, li')"
  shows "same_info li li'" and "\<not> en \<Longrightarrow> out = None"
  using assms
  by (auto simp: console_flush_def sd_flushLog_def console_writeSuffix_def Let_def
      dest!: getSuffix_info split: bind_splits prod.splits if_splits)

lemma file_flush_info:
  assumes "file_flush en junk thread li d st = Some (st', li')"
  shows "same_info li li'"
  using assms
  by (auto simp: file_flush_def sd_flushLog_def sd_writeSuffix_def Let_def
      dest!: getSuffix_info split: bind_splits prod.splits if_splits)

text \<open>What the destruction of one back end's part leaves alone.\<close>

definition same_world :: "surroundings \<Rightarrow> world \<Rightarrow> world \<Rightarrow> bool" where
  "same_world sr w w' \<longleftrightarrow> w_process w' = w_process w \<and> w_console w' = w_console w \<and>
     w_aborted w' = w_aborted w \<and> fst (ask_thread sr w') = fst (ask_thread sr w)"

lemma same_world_refl [simp]: "same_world sr w w"
  by (simp add: same_world_def)

lemma same_world_trans: "same_world sr a b \<Longrightarrow> same_world sr b c \<Longrightarrow> same_world sr a c"
  by (simp add: same_world_def)

lemma ask_thread_same:
  assumes "ask_thread sr w = (th, w')"
  shows "same_world sr w w' \<and> w_printed w' = w_printed w \<and> w_file w' = w_file w \<and> w_daemon w' = w_daemon w"
proof (cases "m_enableThreadInfo (w_process w)")
  case True
  obtain i ts where g: "getThreadInformation (sr_tid sr) (w_threads w) = (i, ts)" by force
  then have "getThreadInformation (sr_tid sr) ts = (i, ts)"
    by (auto simp: getThreadInformation_def split: option.splits)
  with True g assms show ?thesis by (auto simp: ask_thread_def same_world_def)
next
  case False
  with assms show ?thesis by (auto simp: ask_thread_def)
qed

lemma same_world_updates [simp]:
  "same_world sr w (w'\<lparr>w_file := st\<rparr>) = same_world sr w w'"
  "same_world sr w (w'\<lparr>w_daemon := dm\<rparr>) = same_world sr w w'"
  "same_world sr w (w'\<lparr>w_printed := out\<rparr>) = same_world sr w w'"
  by (simp_all add: same_world_def ask_thread_def split: prod.split)

lemma ask_if_same:
  assumes "(if en then ask_thread sr w else (None, w)) = (th, w')"
  shows "same_world sr w w' \<and> w_printed w' = w_printed w \<and> w_file w' = w_file w \<and> w_daemon w' = w_daemon w \<and>
    (en \<longrightarrow> th = fst (ask_thread sr w))"
  using assms ask_thread_same[of sr w th w'] by (cases en) auto

lemma data_dtor_other:
  assumes "data_dtor sr (c, cd) li w = Some (li', w')" and "\<forall>d. cd \<noteq> ConsoleData d"
    and "\<forall>k. c \<noteq> DltCtx k"
  shows "same_info li li' \<and> same_world sr w w' \<and> w_printed w' = w_printed w"
proof (cases c; cases cd)
  fix c' d assume c: "c = FileCtx c'" "cd = FileData d"
  obtain th w1 where a: "(if stream_isEnabled c' (m_level li) then ask_thread sr w else (None, w)) = (th, w1)"
    by force
  with assms c obtain st where "file_flush (stream_isEnabled c' (m_level li)) (sr_junk sr) th li d (w_file w1)
      = Some (st, li')" "w' = w1\<lparr>w_file := st\<rparr>"
    by (auto simp: Let_def split: bind_splits)
  with ask_if_same[OF a] file_flush_info show ?thesis by fastforce
qed (use assms in auto)

definition short_enough :: "surroundings \<Rightarrow> (int \<times> string) option \<Rightarrow> LogInfo \<Rightarrow> string \<Rightarrow> bool" where
  "short_enough sr thread li u \<longleftrightarrow> length (sr_junk sr) = STATIC_SIZE \<and>
     length (suffix_text thread li) < 2 ^ 27 \<and> length u < 2 ^ 29"

lemma short_header:
  "short_enough sr thread li u \<Longrightarrow> length (console_header sr li c) + length u < 2 ^ 30"
  using length_console_header[of c "sr_elapsed sr" "m_level li"]
  by (simp add: short_enough_def console_header_def)

lemma data_dtor_console:
  assumes "data_dtor sr (ConsoleCtx c, cd) li w = Some (li', w')"
    and "holds_text sr w li u (ConsoleCtx c) cd" and "short_enough sr (fst (ask_thread sr w)) li u"
  shows "same_info li li' \<and> same_world sr w w' \<and> w_printed w' = w_printed w @
    console_outputs sr w (fst (ask_thread sr w)) li u [ConsoleCtx c]"
proof -
  let ?en = "console_isEnabled (w_console w) c (m_level li)"
  from assms(2) obtain d where d: "cd = ConsoleData d"
    "?en \<Longrightarrow> sd_inv d \<and> default_formats d \<and> sd_text d = console_header sr li c @ u \<and>
        m_invisibleCharacterCount d = header_invisible c (m_level li)" by auto
  obtain th w1 where a: "(if ?en then ask_thread sr w else (None, w)) = (th, w1)" by force
  with assms(1) d(1) obtain out where
    f: "console_flush ?en c (sr_winsize sr) (sr_junk sr) th li d = Some (out, li')"
    "w' = (case out of None \<Rightarrow> w1 | Some o1 \<Rightarrow> w1\<lparr>w_printed := w_printed w1 @ [o1]\<rparr>)"
    by (auto simp: Let_def split: bind_splits)
  note a' = ask_if_same[OF a]
  show ?thesis
  proof (cases ?en)
    case True
    have "console_flush True c (sr_winsize sr) (sr_junk sr) th li d = Some (Some (console_getFile li,
        sd_text d @ console_suffix_text c (getConsoleWidth (sr_winsize sr)) (m_level li)
          (visible_length d) (suffix_text th li)), snd (getFileName li))"
      using d(2)[OF True] assms(3) a' True header_invisible_bounds[of c "m_level li"]
        short_header[OF assms(3), of c]
      by (intro console_flush_ok) (auto simp: short_enough_def)
    with f True a' d(2)[OF True] show ?thesis
      by (auto simp: console_output_def visible_length_def)
  next
    case False
    with console_flush_info[OF f(1)] f(2) a' show ?thesis by simp
  qed
qed

lemma data_dtor_prints:
  assumes "data_dtor sr (c, cd) li w = Some (li', w')" and "holds_text sr w li u c cd"
    and "short_enough sr (fst (ask_thread sr w)) li u"
  shows "same_info li li' \<and> same_world sr w w' \<and> w_printed w' = w_printed w @
    console_outputs sr w (fst (ask_thread sr w)) li u [c]"
proof (cases "\<exists>c'. c = ConsoleCtx c'")
  case True
  then show ?thesis using data_dtor_console assms by blast
next
  case False
  then have "\<forall>d. cd \<noteq> ConsoleData d" "\<forall>k. c \<noteq> DltCtx k"
    "console_outputs sr w (fst (ask_thread sr w)) li u [c] = []"
    using assms(2) by (cases c; simp)+
  with data_dtor_other[OF assms(1)] show ?thesis by simp
qed

lemma same_outputs:
  assumes "same_info li li'" and "same_world sr w w'"
  shows "console_outputs sr w' th li' u cs = console_outputs sr w th li u cs"
proof -
  have "console_outputs sr w' th li' u cs = console_outputs sr w th li' u cs"
    using assms(2) by (induction cs rule: dlt_addresses.induct) (simp_all add: same_world_def)
  then show ?thesis using same_info_outputs[OF assms(1)] by simp
qed

lemma same_holds:
  assumes "same_info li li'" and "same_world sr w w'"
  shows "holds_text sr w' li' u c cd = holds_text sr w li u c cd"
  using assms by (cases c) (simp_all add: same_info_def same_world_def console_header_def)

lemma same_short: "same_info li li' \<Longrightarrow> short_enough sr th li' u = short_enough sr th li u"
  by (simp add: short_enough_def same_info_suffix)

lemma for_each_dtor_prints:
  assumes "length cs = length ds" and "for_each_dtor sr (zip cs ds) li w = Some (li', w')"
    and "list_all2 (holds_text sr w li u) cs ds" and "short_enough sr (fst (ask_thread sr w)) li u"
  shows "same_info li li' \<and> same_world sr w w' \<and>
    w_printed w' = w_printed w @ console_outputs sr w (fst (ask_thread sr w)) li u cs"
  using assms
proof (induction cs ds arbitrary: li w rule: list_induct2)
  case (Cons c cs d ds)
  let ?th = "fst (ask_thread sr w)"
  from Cons.prems(1) obtain li1 w1 where s: "data_dtor sr (c, d) li w = Some (li1, w1)"
    "for_each_dtor sr (zip cs ds) li1 w1 = Some (li', w')" by (auto split: bind_splits)
  have c1: "same_info li li1" "same_world sr w w1"
    "w_printed w1 = w_printed w @ console_outputs sr w ?th li u [c]"
    using data_dtor_prints[OF s(1), of u] Cons.prems(2,3) by auto
  have th: "fst (ask_thread sr w1) = ?th" using c1(2) by (simp add: same_world_def)
  have "list_all2 (holds_text sr w1 li1 u) cs ds"
    using Cons.prems(2) by (simp add: same_holds[OF c1(1,2)] cong: list.rel_cong)
  moreover have "short_enough sr (fst (ask_thread sr w1)) li1 u"
    using Cons.prems(3) by (simp add: th same_short[OF c1(1)])
  ultimately have r: "same_info li1 li'" "same_world sr w1 w'"
    "w_printed w' = w_printed w1 @ console_outputs sr w1 (fst (ask_thread sr w1)) li1 u cs"
    using Cons.IH[OF s(2)] by blast+
  have "console_outputs sr w ?th li u (c # cs) =
      console_outputs sr w ?th li u [c] @ console_outputs sr w ?th li u cs" by (cases c) simp_all
  with r c1 show ?case
    by (auto simp: th same_outputs[OF c1(1,2)] intro: same_info_trans same_world_trans)
qed simp

lemma data_init_holds:
  assumes "data_init sr li c w = Some (d, w')" and "length (sr_junk sr) = STATIC_SIZE" and "\<forall>k. c \<noteq> DltCtx k"
  shows "same_world sr w w' \<and> w_printed w' = w_printed w \<and> holds_text sr w li [] c d"
proof (cases c)
  case (ConsoleCtx cc)
  with assms(1) obtain cd where cd: "d = ConsoleData cd" "w' = w"
    "console_init (console_isEnabled (w_console w) cc (m_level li)) cc (sr_elapsed sr) li
       (console_data_new (sr_junk sr)) = Some cd" by (auto split: bind_splits)
  from console_init_ok[OF assms(2), of cc "sr_elapsed sr" li] obtain cd' where
    "console_init True cc (sr_elapsed sr) li (console_data_new (sr_junk sr)) = Some cd'" "sd_inv cd'"
    "default_formats cd'" "sd_text cd' = console_header_text cc (sr_elapsed sr) (m_level li)"
    "m_invisibleCharacterCount cd' = header_invisible cc (m_level li)"
    by (auto simp: header_invisible_def)
  with cd ConsoleCtx show ?thesis by (auto simp: console_header_def)
qed (use assms in \<open>auto split: bind_splits\<close>)

lemma for_each_init_holds:
  assumes "for_each_init sr li cs w = Some (ds, w')" and "length (sr_junk sr) = STATIC_SIZE"
    and "dlt_addresses cs = []"
  shows "same_world sr w w' \<and> w_printed w' = w_printed w \<and> list_all2 (holds_text sr w li []) cs ds"
  using assms(1,3)
proof (induction cs arbitrary: w ds)
  case (Cons c cs)
  then obtain d w1 ds1 where i: "data_init sr li c w = Some (d, w1)" "ds = d # ds1"
    "for_each_init sr li cs w1 = Some (ds1, w')" by (auto split: bind_splits)
  have no: "\<forall>k. c \<noteq> DltCtx k" "dlt_addresses cs = []" using Cons.prems(2) by (cases c; simp)+
  note d = data_init_holds[OF i(1) assms(2) no(1)]
  with Cons.IH[OF i(3) no(2)] same_holds[OF same_info_refl, of sr w w1 li "[]"] show ?case
    by (auto simp: i(2) intro: same_world_trans cong: list.rel_cong)
qed simp

lemma puts_other:
  "\<forall>d. cd \<noteq> ConsoleData d \<Longrightarrow> puts (data_step sr w level c) ops cd = Some cd' \<Longrightarrow> \<forall>d. cd' \<noteq> ConsoleData d"
proof (induction ops arbitrary: cd)
  case (Cons op ops)
  then obtain cd1 where "data_step sr w level c op cd = Some cd1"
    "puts (data_step sr w level c) ops cd1 = Some cd'" by (auto split: bind_splits)
  moreover from this(1) Cons.prems(1) have "\<forall>d. cd1 \<noteq> ConsoleData d"
    by (cases c; cases cd) (auto simp: data_step_def split: if_splits)
  ultimately show ?case using Cons.IH by blast
qed simp

lemma puts_console:
  "puts (data_step sr w level (ConsoleCtx c)) ops (ConsoleData d) =
     (if console_isEnabled (w_console w) c level then map_option ConsoleData (puts (sd_do True) ops d)
      else Some (ConsoleData d))"
proof (induction ops arbitrary: d)
  case (Cons op ops)
  then show ?case by (auto simp: data_step_def split: option.splits bind_splits)
qed simp

lemma console_puts_text:
  assumes "sd_inv d" and "op_texts ops = Some u" and "puts (sd_do True) ops d = Some d'"
  shows "sd_inv d' \<and> default_formats d' = default_formats d \<and> sd_text d' = sd_text d @ u \<and>
    m_invisibleCharacterCount d' = m_invisibleCharacterCount (d :: console_data)"
  using assms
proof (induction ops arbitrary: d u)
  case (Cons op ops)
  from Cons.prems(2) obtain v v' where v: "op_text op = Some v" "op_texts ops = Some v'" "u = v @ v'"
    by (auto split: bind_splits)
  from sd_do_ext[OF Cons.prems(1) v(1)] obtain d1 where
    d1: "sd_do True op d = Some d1" "line_ext d v d1" by blast
  with Cons.prems(3) have "puts (sd_do True) ops d1 = Some d'" by simp
  with Cons.IH[of d1 v'] v(2,3) line_ext_console[OF d1(2)] show ?case
    by (simp add: console_ext_def)
qed simp

lemma holds_text_step:
  assumes "holds_text sr w li u c cd" and "op_text op = Some v"
    and "data_step sr w (m_level li) c op cd = Some cd'"
  shows "holds_text sr w li (u @ v) c cd'"
proof (cases "\<exists>cc. c = ConsoleCtx cc")
  case True
  then obtain cc d where c: "c = ConsoleCtx cc" "cd = ConsoleData d" using assms(1) by auto
  have one: "puts (data_step sr w (m_level li) c) [op] cd = Some cd'" using assms(3) by simp
  show ?thesis
  proof (cases "console_isEnabled (w_console w) cc (m_level li)")
    case en: True
    with one c obtain d' where "puts (sd_do True) [op] d = Some d'" "cd' = ConsoleData d'"
      by (auto simp: puts_console simp del: puts.simps)
    with console_puts_text[of d "[op]" v d'] assms(1,2) c en show ?thesis by simp
  next
    case False
    with one assms c show ?thesis by (auto simp: puts_console simp del: puts.simps)
  qed
next
  case False
  then have "\<forall>d. cd \<noteq> ConsoleData d" using assms(1) by (cases c) auto
  from puts_other[OF this, of sr w "m_level li" c "[op]" cd'] assms(1,3) False show ?thesis
    by (cases c) auto
qed

lemma puts_holds_text:
  "holds_text sr w li t c cd \<Longrightarrow> op_texts ops = Some u \<Longrightarrow>
     puts (data_step sr w (m_level li) c) ops cd = Some cd' \<Longrightarrow> holds_text sr w li (t @ u) c cd'"
proof (induction ops arbitrary: t cd u)
  case (Cons op ops)
  from Cons.prems obtain v v' cd1 where "op_text op = Some v" "op_texts ops = Some v'" "u = v @ v'"
    "data_step sr w (m_level li) c op cd = Some cd1"
    "puts (data_step sr w (m_level li) c) ops cd1 = Some cd'"
    by (auto split: bind_splits)
  with Cons.IH[of "t @ v" cd1 v'] holds_text_step[OF Cons.prems(1)] show ?case by simp
qed simp

section \<open>Statements on consoles always return\<close>

fun terminal_only :: "backend_ctx \<Rightarrow> bool" where
  "terminal_only (ConsoleCtx c) = True"
| "terminal_only NullCtx = True"
| "terminal_only _ = False"

lemma terminal_only_dlt: "\<forall>c \<in> set cs. terminal_only c \<Longrightarrow> dlt_addresses cs = []"
  by (induction cs rule: dlt_addresses.induct) simp_all

lemma for_each_init_total:
  assumes "\<forall>c \<in> set cs. terminal_only c" and "length (sr_junk sr) = STATIC_SIZE"
  shows "\<exists>ds. for_each_init sr li cs w = Some (ds, w)"
  using assms(1)
proof (induction cs)
  case (Cons c cs)
  have "\<exists>d. data_init sr li c w = Some (d, w)"
  proof (cases c)
    case (ConsoleCtx cc)
    from console_init_ok[OF assms(2), of cc "sr_elapsed sr" li] obtain d where
      "console_init True cc (sr_elapsed sr) li (console_data_new (sr_junk sr)) = Some d" by blast
    with ConsoleCtx show ?thesis
      by (cases "console_isEnabled (w_console w) cc (m_level li)") (simp_all add: console_init_def sd_init_def)
  qed (use Cons.prems in auto)
  with Cons show ?case by auto
qed simp

lemma data_step_total:
  assumes "terminal_only c" and "holds_text sr w li u c d" and "op_text op = Some v"
  shows "\<exists>d'. data_step sr w (m_level li) c op d = Some d'"
proof (cases c)
  case (ConsoleCtx cc)
  with assms(2) obtain cd where d: "d = ConsoleData cd"
    "console_isEnabled (w_console w) cc (m_level li) \<Longrightarrow> sd_inv cd" by auto
  with sd_do_ext[of cd op v] assms(3) ConsoleCtx show ?thesis
    by (cases "console_isEnabled (w_console w) cc (m_level li)") (auto simp: data_step_def)
qed (use assms in \<open>auto simp: data_step_def\<close>)

lemma stream_items_total:
  assumes "\<forall>c \<in> set (lc_contexts ctx). terminal_only c"
    and "list_all2 (holds_text sr w (le_li e) u) (lc_contexts ctx) (le_data e)"
    and "op_texts (calls_ops (m_hexEnabled (le_li e)) calls) = Some v"
  shows "\<exists>e'. stream_items sr ctx (pure_items calls) e w = Some (e', w)"
  using assms(2,3)
proof (induction calls arbitrary: e u v)
  case (Cons call calls)
  let ?cs = "lc_contexts ctx" and ?li = "le_li e" and ?hex = "m_hexEnabled (le_li e)"
  have len: "length ?cs = length (le_data e)" using Cons.prems(1) by (rule list_all2_lengthD)
  show ?case
  proof (cases "\<exists>on. call = CallSetHex on")
    case True
    then obtain on where call: "call = CallSetHex on" by blast
    let ?e = "e\<lparr>le_li := ?li\<lparr>m_hexEnabled := on\<rparr>\<rparr>"
    have "list_all2 (holds_text sr w (le_li ?e) u) ?cs (le_data ?e)"
      using Cons.prems(1) same_holds[OF same_info_hex same_world_refl] by (simp cong: list.rel_cong)
    from Cons.IH[OF this] Cons.prems(2) call show ?thesis by simp
  next
    case False
    then obtain op where op: "calls_ops ?hex (call # calls) = op # calls_ops ?hex calls"
      "entry_do sr ctx w call e = map_option (\<lambda>ds. e\<lparr>le_data := ds\<rparr>)
         (for_each_do sr w (m_level ?li) op (zip ?cs (le_data e)))"
      by (cases call) (auto split: option.splits bind_splits)
    from Cons.prems(2) op(1) obtain t t' where t: "op_text op = Some t"
      "op_texts (calls_ops ?hex calls) = Some t'" by (auto split: bind_splits)
    have "\<forall>i < length (le_data e). \<exists>d'. data_step sr w (m_level ?li) (?cs ! i) op (le_data e ! i) = Some d'"
      using data_step_total[OF _ _ t(1)] Cons.prems(1) assms(1) len
      by (metis list_all2_nthD2 nth_mem)
    then obtain f where f: "\<forall>i < length (le_data e).
        data_step sr w (m_level ?li) (?cs ! i) op (le_data e ! i) = Some (f i)" by metis
    define ds where "ds = map f [0..<length (le_data e)]"
    have each: "for_each_do sr w (m_level ?li) op (zip ?cs (le_data e)) = Some ds"
      unfolding for_each_do_nth[OF len] using f by (simp add: ds_def)
    have "list_all2 (holds_text sr w ?li (u @ t)) ?cs ds"
      using Cons.prems(1) f len holds_text_step[OF _ t(1)]
      by (auto simp: list_all2_conv_all_nth ds_def)
    with Cons.IH[of "e\<lparr>le_data := ds\<rparr>"] t(2) op(2) each show ?thesis by auto
  qed
qed simp

lemma for_each_dtor_total:
  assumes "length cs = length ds" and "\<forall>c \<in> set cs. terminal_only c"
    and "list_all2 (holds_text sr w li u) cs ds" and "short_enough sr (fst (ask_thread sr w)) li u"
  shows "\<exists>li' w'. for_each_dtor sr (zip cs ds) li w = Some (li', w')"
  using assms
proof (induction cs ds arbitrary: li w rule: list_induct2)
  case (Cons c cs d ds)
  have "\<exists>li1 w1. data_dtor sr (c, d) li w = Some (li1, w1)"
  proof (cases c)
    case (ConsoleCtx cc)
    from Cons.prems(2) ConsoleCtx obtain cd where cd: "d = ConsoleData cd"
      "console_isEnabled (w_console w) cc (m_level li) \<Longrightarrow> sd_inv cd \<and> default_formats cd \<and>
        sd_text cd = console_header sr li cc @ u \<and> m_invisibleCharacterCount cd = header_invisible cc (m_level li)"
      by auto
    show ?thesis
    proof (cases "console_isEnabled (w_console w) cc (m_level li)")
      case True
      obtain th w1 where a: "ask_thread sr w = (th, w1)" by force
      have "\<exists>r. console_flush True cc (sr_winsize sr) (sr_junk sr) th li cd = Some r"
        using console_flush_ok[of cd "sr_junk sr" th li cc "sr_winsize sr"] cd(2)[OF True] Cons.prems(3) a
          short_header[OF Cons.prems(3), of cc] header_invisible_bounds[of cc "m_level li"] by (auto simp: short_enough_def)
      with True a cd(1) ConsoleCtx show ?thesis by (auto simp: Let_def)
    next
      case False
      with cd(1) ConsoleCtx show ?thesis by (simp add: console_flush_def sd_flushLog_def)
    qed
  qed (use Cons.prems in auto)
  then obtain li1 w1 where s: "data_dtor sr (c, d) li w = Some (li1, w1)" by blast
  have same: "same_info li li1" "same_world sr w w1"
    using data_dtor_prints[OF s, of u] Cons.prems by auto
  have "list_all2 (holds_text sr w1 li1 u) cs ds"
    using Cons.prems(2) by (simp add: same_holds[OF same] cong: list.rel_cong)
  moreover have "short_enough sr (fst (ask_thread sr w1)) li1 u"
    using Cons.prems(3) same by (simp add: same_short[OF same(1)] same_world_def)
  ultimately show ?case using Cons.IH[of w1 li1] Cons.prems(1) s by simp
qed simp

text \<open>What a statement has printed and done when it returns.\<close>

definition fatal_message :: "LogLevel \<Rightarrow> (out_file \<times> string) list" where
  "fatal_message level =
     (if level = LvFatal then [(Stderr, ''Exiting process due to fatal log'' @ [LF])] else [])"

lemma entry_dtor_prints:
  assumes "length (lc_contexts ctx) = length (le_data e)" and "entry_dtor sr ctx e w = Some w'"
    and "list_all2 (holds_text sr w (le_li e) u) (lc_contexts ctx) (le_data e)"
    and "short_enough sr (fst (ask_thread sr w)) (le_li e) u"
  shows "w_printed w' = w_printed w @ console_outputs sr w (fst (ask_thread sr w)) (le_li e) u (lc_contexts ctx) @
      fatal_message (m_level (le_li e)) \<and>
    (w_aborted w' \<longleftrightarrow> w_aborted w \<or> m_level (le_li e) = LvFatal)"
proof -
  from assms(2) obtain li' w1 where d:
    "for_each_dtor sr (zip (lc_contexts ctx) (le_data e)) (le_li e) w = Some (li', w1)"
    "w' = (case LogInfo_dtor li' of None \<Rightarrow> w1
       | Some message \<Rightarrow> w1\<lparr>w_printed := w_printed w1 @ [(Stderr, message)], w_aborted := True\<rparr>)"
    by (auto simp: entry_dtor_def split: bind_splits)
  from for_each_dtor_prints[OF assms(1) d(1) assms(3,4)] d(2) show ?thesis
    by (auto simp: LogInfo_dtor_def same_info_def same_world_def fatal_message_def)
qed

lemma LogInfo_ctor_simps [simp]:
  "m_level (LogInfo_ctor l f n p) = l" "m_hexEnabled (LogInfo_ctor l f n p) = False"
  by (simp_all add: LogInfo_ctor_def)

lemma statement_prints:
  assumes "createLog sr level path line function ctx w = Some (e, w1)"
    and "stream_items sr ctx (pure_items calls) e w1 = Some (e', w2)"
    and "entry_dtor sr ctx e' w2 = Some w3"
    and "op_texts (calls_ops False calls) = Some u"
    and "short_enough sr (fst (ask_thread sr w)) (LogInfo_ctor level path line function) u"
    and "dlt_addresses (lc_contexts ctx) = []"
  shows "w_printed w3 = w_printed w @ console_outputs sr w (fst (ask_thread sr w))
      (LogInfo_ctor level path line function) u (lc_contexts ctx) @ fatal_message level \<and>
    (w_aborted w3 \<longleftrightarrow> w_aborted w \<or> level = LvFatal)"
proof -
  let ?li = "LogInfo_ctor level path line function" and ?cs = "lc_contexts ctx"
  from assms(1) obtain ds where c: "for_each_init sr ?li ?cs w = Some (ds, w1)"
    "e = \<lparr>le_li = ?li, le_data = ds\<rparr>" by (auto simp: createLog_def LogEntry_ctor_def Let_def split: bind_splits)
  have "length (sr_junk sr) = STATIC_SIZE" using assms(5) by (simp add: short_enough_def)
  from for_each_init_holds[OF c(1) this assms(6)] have i: "same_world sr w w1" "w_printed w1 = w_printed w"
    "list_all2 (holds_text sr w ?li []) ?cs ds" by blast+
  then have len: "length ?cs = length (le_data e)" using c(2) by (simp add: list_all2_lengthD)
  note s = stream_items_pure[OF len assms(2)]
  have li': "same_info ?li (le_li e')" using s c(2) by (metis same_info_hex log_entry.select_convs(1))
  have w2: "w2 = w1" using s by blast
  have "list_all2 (holds_text sr w2 (le_li e') u) ?cs (le_data e')"
    unfolding w2 same_holds[OF li' i(1)]
  proof (rule list_all2_all_nthI)
    show "length ?cs = length (le_data e')" using s len by simp
    fix j assume "j < length ?cs"
    then have "holds_text sr w ?li [] (?cs ! j) (le_data e ! j)" "j < length (le_data e)"
      using i(3) c(2) len by (auto simp: list_all2_nthD)
    then have "holds_text sr w1 ?li [] (?cs ! j) (le_data e ! j)"
      "puts (data_step sr w1 (m_level ?li) (?cs ! j)) (calls_ops False calls) (le_data e ! j) = Some (le_data e' ! j)"
      using s c(2) same_holds[OF same_info_refl i(1)] by simp_all
    from puts_holds_text[OF this(1) assms(4) this(2)]
    show "holds_text sr w ?li u (?cs ! j) (le_data e' ! j)"
      using same_holds[OF same_info_refl i(1)] by simp
  qed
  moreover have "short_enough sr (fst (ask_thread sr w2)) (le_li e') u"
    using assms(5) i(1) w2 by (simp add: same_short[OF li'] same_world_def)
  ultimately have "w_printed w3 = w_printed w2 @ console_outputs sr w2 (fst (ask_thread sr w2)) (le_li e') u ?cs @
      fatal_message (m_level (le_li e')) \<and> (w_aborted w3 \<longleftrightarrow> w_aborted w2 \<or> m_level (le_li e') = LvFatal)"
    using s len assms(3) by (intro entry_dtor_prints) simp_all
  moreover have "m_level (le_li e') = level" using li' by (simp add: same_info_def)
  ultimately show ?thesis
    using i(1,2) same_outputs[OF li' i(1)] by (simp add: w2 same_world_def)
qed

lemma statement_total:
  assumes "\<forall>c \<in> set (lc_contexts ctx). terminal_only c"
    and "op_texts (calls_ops False calls) = Some u"
    and "short_enough sr (fst (ask_thread sr w)) (LogInfo_ctor level path line function) u"
  shows "\<exists>e e' w'. createLog sr level path line function ctx w = Some (e, w) \<and>
    stream_items sr ctx (pure_items calls) e w = Some (e', w) \<and> entry_dtor sr ctx e' w = Some w'"
proof -
  let ?li = "LogInfo_ctor level path line function" and ?cs = "lc_contexts ctx"
  have junk: "length (sr_junk sr) = STATIC_SIZE" using assms(3) by (simp add: short_enough_def)
  from for_each_init_total[OF assms(1) junk] obtain ds where ds: "for_each_init sr ?li ?cs w = Some (ds, w)"
    by blast
  let ?e = "\<lparr>le_li = ?li, le_data = ds\<rparr>"
  have c: "createLog sr level path line function ctx w = Some (?e, w)"
    by (simp add: createLog_def LogEntry_ctor_def ds Let_def)
  have h: "list_all2 (holds_text sr w (le_li ?e) []) ?cs (le_data ?e)"
    using for_each_init_holds[OF ds junk terminal_only_dlt[OF assms(1)]] by simp
  then have len: "length ?cs = length (le_data ?e)" by (rule list_all2_lengthD)
  have "op_texts (calls_ops (m_hexEnabled (le_li ?e)) calls) = Some u" using assms(2) by simp
  from stream_items_total[OF assms(1) h this] obtain e' where
    e': "stream_items sr ctx (pure_items calls) ?e w = Some (e', w)" by blast
  note s = stream_items_pure[OF len e']
  have li': "same_info ?li (le_li e')" using s by (metis same_info_hex log_entry.select_convs(1))
  have "list_all2 (holds_text sr w (le_li e') u) ?cs (le_data e')"
    unfolding same_holds[OF li' same_world_refl]
  proof (rule list_all2_all_nthI)
    show "length ?cs = length (le_data e')" using s len by simp
    fix j assume "j < length ?cs"
    then have "holds_text sr w ?li [] (?cs ! j) (ds ! j)"
      "puts (data_step sr w (m_level ?li) (?cs ! j)) (calls_ops False calls) (ds ! j) = Some (le_data e' ! j)"
      using h s len by (auto simp: list_all2_nthD)
    from puts_holds_text[OF this(1) assms(2) this(2)]
    show "holds_text sr w ?li u (?cs ! j) (le_data e' ! j)" by simp
  qed
  moreover have "short_enough sr (fst (ask_thread sr w)) (le_li e') u"
    using assms(3) by (simp add: same_short[OF li'])
  ultimately obtain li2 w2 where "for_each_dtor sr (zip ?cs (le_data e')) (le_li e') w = Some (li2, w2)"
    using for_each_dtor_total[of ?cs "le_data e'" sr w "le_li e'" u] assms(1) s len by auto
  then have "\<exists>w'. entry_dtor sr ctx e' w = Some w'" by (simp add: entry_dtor_def)
  with c e' show ?thesis by blast
qed

lemma enabled_statement:
  assumes "m_bRegistered ctx" and "\<exists>c \<in> set (lc_contexts ctx). ctx_isEnabled sr w level c"
  shows "log_with_context sr level path line function items ctx w = do {
     (e, w) \<leftarrow> createLog sr level path line function ctx w;
     (e, w) \<leftarrow> stream_items sr ctx items e w;
     w \<leftarrow> entry_dtor sr ctx e w;
     Some (ctx, w) }"
  using assms by (simp add: log_with_context_def log_isEnabled_def checkContext_registered any_enabled_iff)

lemma puts_file:
  "stream_isEnabled c level \<Longrightarrow> puts (data_step sr w level (FileCtx c)) ops (FileData d) =
     map_option FileData (puts (sd_do True) ops d)"
  by (induction ops arbitrary: d) (auto simp: data_step_def split: option.splits bind_splits)

lemmas dlt_op_defs = writeWithTypeInfo_def checkOverflow_def write_chars_def dlt_writeFormatted_def
  writeType_def writeBuffer_def reserve_def addMessageTooLargeIndication_def Let_def

lemma dlt_write_enabled: "dlt_write api hex v d = Some d' \<Longrightarrow> dd_enabled d' = dd_enabled d"
  by (cases v) (auto simp: dlt_op_defs simp del: le_nat.simps split: option.splits if_splits)

lemma dlt_do_enabled: "dlt_do api op d = Some d' \<Longrightarrow> dd_enabled d' = dd_enabled d"
  by (cases op) (auto simp: dlt_write_enabled dlt_op_defs split: bind_splits if_splits)

lemma puts_dlt:
  "dd_enabled d \<Longrightarrow> puts (data_step sr w level (DltCtx k)) ops (DltData d) =
     map_option DltData (dlt_run (sr_api sr) ops d)"
proof (induction ops arbitrary: d)
  case (Cons op ops)
  show ?case
  proof (cases "dlt_do (sr_api sr) op d")
    case None
    with Cons.prems show ?thesis by (simp add: data_step_def)
  next
    case (Some d1)
    with dlt_do_enabled[OF Some] Cons show ?thesis by (simp add: data_step_def)
  qed
qed simp

lemma puts_enabled:
  assumes "data_isEnabled w level (c, d)"
  shows "puts (data_step sr w level c) ops d = (case d of
       ConsoleData x \<Rightarrow> map_option ConsoleData (puts (sd_do True) ops x)
     | FileData x \<Rightarrow> map_option FileData (puts (sd_do True) ops x)
     | DltData x \<Rightarrow> map_option DltData (dlt_run (sr_api sr) ops x)
     | NullData \<Rightarrow> Some NullData)"
  using assms by (cases c; cases d) (simp_all add: puts_console puts_file puts_dlt)

section \<open>Properties\<close>

text \<open>
  C30. A statement that no back end wants does nothing beyond registering its context: whatever the
  streamed expressions are, none of them is evaluated, no entry is created, and the state is the one the
  check of the context leaves, which is that of before when the context was registered, and differs
  from it only in the process's identifiers and the daemon connection when it was not. This also holds
  for \<open>log_fatal()\<close>, which then does not end the process.
\<close>

theorem disabled_statement_does_nothing:
  assumes "checkContext sr ctx w = Some (ctx1, w1)"
    and "\<forall>c \<in> set (lc_contexts ctx). \<not> ctx_isEnabled sr w1 level c"
  shows "log_with_context sr level path line function items ctx w = Some (ctx1, w1) \<and>
    (if m_bRegistered ctx then ctx1 = ctx \<and> w1 = w
     else ctx1 = ctx\<lparr>m_bRegistered := True\<rparr> \<and>
       w1 = w\<lparr>w_process := w_process w1, w_daemon := w_daemon w1\<rparr>)"
proof -
  have "lc_contexts ctx1 = lc_contexts ctx" using checkContext_effect[OF assms(1)] by (auto split: if_splits)
  with assms have "log_with_context sr level path line function items ctx w = Some (ctx1, w1)"
    by (simp add: log_with_context_def log_isEnabled_def any_enabled_iff)
  with checkContext_effect[OF assms(1)] show ?thesis by simp
qed

definition sample_surroundings :: surroundings where
  "sample_surroundings = \<lparr>sr_platform = sample_platform, sr_api = dlt_documented, sr_os = os_down,
     sr_elapsed = 0, sr_winsize = None, sr_junk = replicate STATIC_SIZE NUL, sr_tid = 1,
     sr_thread_name = ''main''\<rparr>"

definition sample_world :: world where
  "sample_world = \<lparr>w_process = process_init, w_console = console_globals_init, w_file = file_state_init,
     w_daemon = daemon_new (\<lambda>_. sample_ctx), w_threads = thread_ids_init, w_printed = [], w_aborted = False,
     w_app = (\<lambda>_. 0)\<rparr>"

definition sample_world_app :: world where
  "sample_world_app = sample_world\<lparr>w_process := process_init\<lparr>s_pAppLogContext := Some sample_app\<rparr>\<rparr>"

definition sample_log_ctx :: "backend_ctx list \<Rightarrow> bool \<Rightarrow> log_ctx" where
  "sample_log_ctx cs registered = \<lparr>lc_common = \<lparr>ctx_id = ''MAIN'', ctx_description = ''main''\<rparr>,
     lc_contexts = cs, m_bRegistered = registered\<rparr>"

theorem disabled_statement_does_nothing_witness:
  "\<exists>ctx1 w1. log_with_context sample_surroundings LvFatal ''a.c'' 1 ''f'' [\<lambda>w. None]
      (sample_log_ctx [NullCtx, ConsoleCtx (plain_ctx\<lparr>sc_level := LvNone\<rparr>)] False) sample_world_app = Some (ctx1, w1) \<and>
    m_bRegistered ctx1 \<and> w_printed w1 = [] \<and> \<not> w_aborted w1 \<and>
    log_with_context sample_surroundings LvFatal ''a.c'' 1 ''f'' [\<lambda>w. None] ctx1 w1 = Some (ctx1, w1)"
proof -
  let ?cs = "[NullCtx, ConsoleCtx (plain_ctx\<lparr>sc_level := LvNone\<rparr>)]"
  let ?ctx = "sample_log_ctx ?cs False"
  obtain w1 where c: "checkContext sample_surroundings ?ctx sample_world_app = Some (?ctx\<lparr>m_bRegistered := True\<rparr>, w1)"
    by (simp add: checkContext_def setDefaultAPPIDSIfNeeded_def sample_log_ctx_def sample_world_app_def)
  have off: "\<forall>c \<in> set ?cs. \<not> ctx_isEnabled sample_surroundings w LvFatal c" for w
    by (simp add: console_isEnabled_def stream_isEnabled_def getLogLevel_def plain_ctx_def less_eq_LogLevel_def)
  have cs: "lc_contexts ?ctx = ?cs" by (simp add: sample_log_ctx_def)
  note first = disabled_statement_does_nothing[OF c, of LvFatal "''a.c''" 1 "''f''" "[\<lambda>w. None]"]
  have again: "checkContext sample_surroundings (?ctx\<lparr>m_bRegistered := True\<rparr>) w1 = Some (?ctx\<lparr>m_bRegistered := True\<rparr>, w1)"
    by (simp add: checkContext_registered)
  note second = disabled_statement_does_nothing[OF again, of LvFatal "''a.c''" 1 "''f''" "[\<lambda>w. None]"]
  have reg: "m_bRegistered (?ctx\<lparr>m_bRegistered := True\<rparr>)" "\<not> m_bRegistered ?ctx" by (simp_all add: sample_log_ctx_def)
  have w1: "w1 = sample_world_app\<lparr>w_process := w_process w1, w_daemon := w_daemon w1\<rparr>"
    using first off cs reg(2) by simp
  have "w_printed w1 = []" "\<not> w_aborted w1"
    by (subst w1, simp add: sample_world_app_def sample_world_def)+
  with first second off reg cs show ?thesis by (intro exI[of _ "?ctx\<lparr>m_bRegistered := True\<rparr>"] exI[of _ w1]) simp
qed

text \<open>
  C4. What a statement does on the terminal, for any mixture of console and null back ends: it
  returns; every enabled console prints exactly one line, in the order of the back ends, with the
  texts of all calls; disabled ones print nothing; and after a statement of level fatal, when all
  lines are out, the process is aborted with a message on standard error.
\<close>

theorem console_statement_end_to_end:
  assumes "m_bRegistered ctx" and "\<exists>c \<in> set (lc_contexts ctx). ctx_isEnabled sr w level c"
    and "\<forall>c \<in> set (lc_contexts ctx). terminal_only c"
    and "op_texts (calls_ops False calls) = Some u"
    and "short_enough sr (fst (ask_thread sr w)) (LogInfo_ctor level path line function) u"
  shows "\<exists>w'. log_with_context sr level path line function (pure_items calls) ctx w = Some (ctx, w') \<and>
    w_printed w' = w_printed w @ console_outputs sr w (fst (ask_thread sr w))
      (LogInfo_ctor level path line function) u (lc_contexts ctx) @ fatal_message level \<and>
    (w_aborted w' \<longleftrightarrow> w_aborted w \<or> level = LvFatal)"
proof -
  from statement_total[OF assms(3-5)] obtain e e' w' where
    r: "createLog sr level path line function ctx w = Some (e, w)"
    "stream_items sr ctx (pure_items calls) e w = Some (e', w)" "entry_dtor sr ctx e' w = Some w'" by blast
  with enabled_statement[OF assms(1,2)] statement_prints[OF r assms(4,5) terminal_only_dlt[OF assms(3)]]
  show ?thesis by simp
qed

lemma sample_info_short:
  "short_enough sample_surroundings (fst (ask_thread sample_surroundings sample_world))
     (LogInfo_ctor level ''a.c'' 7 ''f'') ''true''"
proof -
  have "fst (ask_thread sample_surroundings sample_world) = None"
    by (simp add: ask_thread_def sample_world_def process_init_def)
  moreover have "suffix_text None (LogInfo_ctor level ''a.c'' 7 ''f'') = '' | a.c:7 ''"
    by (simp add: suffix_text_def location_text_def LogInfo_ctor_def getFileName_def Let_def
        dec_text_def printf_eval)
  ultimately show ?thesis by (simp add: short_enough_def sample_surroundings_def)
qed

lemma plain_isEnabled: "console_isEnabled console_globals_init plain_ctx LvInfo"
  by (simp add: console_isEnabled_def stream_isEnabled_def getLogLevel_def plain_ctx_def
      console_globals_init_def less_eq_LogLevel_def)

lemma plain_enabled: "ctx_isEnabled sr sample_world LvInfo (ConsoleCtx plain_ctx)"
  "ctx_isEnabled sr sample_world LvFatal (ConsoleCtx plain_ctx)"
  by (simp_all add: console_isEnabled_def stream_isEnabled_def getLogLevel_def plain_ctx_def
      sample_world_def console_globals_init_def less_eq_LogLevel_def)

theorem console_statement_end_to_end_witness:
  "\<exists>w'. log_with_context sample_surroundings LvFatal ''a.c'' 7 ''f'' (pure_items [CallWrite (VBool True)])
      (sample_log_ctx [NullCtx, ConsoleCtx plain_ctx] True) sample_world =
    Some (sample_log_ctx [NullCtx, ConsoleCtx plain_ctx] True, w') \<and>
    length (w_printed w') = 2 \<and> w_aborted w'"
  using console_statement_end_to_end[of "sample_log_ctx [NullCtx, ConsoleCtx plain_ctx] True"
      sample_surroundings sample_world LvFatal "[CallWrite (VBool True)]" "''true''" "''a.c''" 7 "''f''",
      OF _ _ _ _ sample_info_short] plain_enabled(2)
  by (auto simp: sample_log_ctx_def fatal_message_def sample_world_def)

text \<open>
  C31. Registration happens once: the first statement of a context gives the application its
  identifiers and puts each DLT back end into the daemon connection's vector, in the order of the
  tuple; no later statement registers anything again.
\<close>

theorem contexts_register_once:
  assumes "\<not> m_bRegistered ctx" and "checkContext sr ctx w = Some (ctx', w')"
  shows "m_contexts (w_daemon w') = m_contexts (w_daemon w) @ dlt_addresses (lc_contexts ctx) \<and>
    s_pAppLogContext (w_process w') \<noteq> None \<and> lc_contexts ctx' = lc_contexts ctx \<and>
    checkContext sr' ctx' w'' = Some (ctx', w'')"
proof -
  from assms obtain p where p: "setDefaultAPPIDSIfNeeded (sr_platform sr) (w_process w) = Some p"
    "ctx_register_all sr (lc_contexts ctx) (w\<lparr>w_process := p\<rparr>) = Some w'" "ctx' = ctx\<lparr>m_bRegistered := True\<rparr>"
    by (auto simp: checkContext_def split: bind_splits)
  have "\<exists>app. s_pAppLogContext p = Some app"
  proof (cases "s_pAppLogContext (w_process w)")
    case None
    from setDefaultAPPIDS_some[OF None, of "sr_platform sr"] p(1) show ?thesis by auto
  next
    case (Some app)
    with p(1) show ?thesis by (simp add: setDefaultAPPIDSIfNeeded_def)
  qed
  then obtain app where "s_pAppLogContext (w_process (w\<lparr>w_process := p\<rparr>)) = Some app" by auto
  from ctx_register_all_contexts[OF p(2) this] p(3) show ?thesis
    by (simp add: checkContext_registered)
qed

theorem contexts_register_once_witness:
  "\<exists>ctx' w'. checkContext sample_surroundings (sample_log_ctx [NullCtx, DltCtx 3] False)
      (sample_world\<lparr>w_process := process_init\<lparr>s_pAppLogContext := Some sample_app\<rparr>\<rparr>) = Some (ctx', w') \<and>
    m_contexts (w_daemon w') = [3] \<and> checkContext sample_surroundings ctx' w' = Some (ctx', w')"
proof -
  let ?ctx = "sample_log_ctx [NullCtx, DltCtx 3] False"
  let ?w = "sample_world\<lparr>w_process := process_init\<lparr>s_pAppLogContext := Some sample_app\<rparr>\<rparr>"
  have "\<exists>ctx' w'. checkContext sample_surroundings ?ctx ?w = Some (ctx', w')"
    using sample_register_step
    by (simp add: checkContext_def setDefaultAPPIDSIfNeeded_def sample_log_ctx_def sample_surroundings_def
        sample_world_def process_init_def)
  then obtain ctx' w' where r: "checkContext sample_surroundings ?ctx ?w = Some (ctx', w')" by blast
  have "\<not> m_bRegistered ?ctx" by (simp add: sample_log_ctx_def)
  from contexts_register_once[OF this r, of sample_surroundings w'] r show ?thesis
    by (auto simp: sample_log_ctx_def sample_world_def daemon_new_def)
qed

text \<open>
  C18. Fan-out: streaming into an entry gives every back end of the tuple exactly the calls of the
  statement, in order and with the state of \<open>std::hex\<close> at each of them; what one back end holds
  depends on no other, and a disabled one is left as it was.
\<close>

theorem fan_out_is_independent:
  assumes "length (lc_contexts ctx) = length (le_data e)"
    and "stream_items sr ctx (pure_items calls) e w = Some (e', w')" and "i < length (le_data e)"
  shows "w' = w \<and> length (le_data e') = length (le_data e) \<and>
    (let c = lc_contexts ctx ! i; d = le_data e ! i; d' = le_data e' ! i;
         ops = calls_ops (m_hexEnabled (le_li e)) calls
     in if data_isEnabled w (m_level (le_li e)) (c, d)
        then (case d of
            ConsoleData x \<Rightarrow> map_option ConsoleData (puts (sd_do True) ops x) = Some d'
          | FileData x \<Rightarrow> map_option FileData (puts (sd_do True) ops x) = Some d'
          | DltData x \<Rightarrow> map_option DltData (dlt_run (sr_api sr) ops x) = Some d'
          | NullData \<Rightarrow> False)
        else d' = d)"
proof -
  let ?c = "lc_contexts ctx ! i" and ?d = "le_data e ! i" and ?lvl = "m_level (le_li e)"
  let ?ops = "calls_ops (m_hexEnabled (le_li e)) calls"
  from stream_items_pure[OF assms(1,2)] assms(3)
  have r: "w' = w" "length (le_data e') = length (le_data e)"
    "puts (data_step sr w ?lvl ?c) ?ops ?d = Some (le_data e' ! i)" by auto
  have off: "puts (data_step sr w ?lvl ?c) ops ?d = Some ?d" if "\<not> data_isEnabled w ?lvl (?c, ?d)" for ops
    using that by (induction ops) (simp_all add: data_step_def)
  show ?thesis
  proof (cases "data_isEnabled w ?lvl (?c, ?d)")
    case False
    with off[OF False, of ?ops] r show ?thesis by (simp add: Let_def)
  next
    case True
    then show ?thesis
      using r puts_enabled[OF True, of sr ?ops] by (cases ?d; cases ?c) (simp_all add: Let_def)
  qed
qed

theorem fan_out_is_independent_witness:
  "\<exists>e' w'. stream_items sample_surroundings (sample_log_ctx [ConsoleCtx plain_ctx, DltCtx 3] True)
      (pure_items [CallSetHex True, CallWrite (VUShort 31)])
      \<lparr>le_li = sample_info, le_data = [ConsoleData (console_data_new []), DltData (dlt_data_new\<lparr>dd_enabled := True\<rparr>)]\<rparr>
      (sample_world\<lparr>w_console := \<lparr>s_defaultLogLevel = LvNone, s_envVarCheckDone = True\<rparr>\<rparr>) = Some (e', w') \<and>
    le_data e' ! 0 = ConsoleData (console_data_new []) \<and>
    map_option DltData (dlt_run dlt_documented [OpWrite True (VUShort 31)]
      (dlt_data_new\<lparr>dd_enabled := True\<rparr>)) = Some (le_data e' ! 1)"
proof -
  let ?ctx = "sample_log_ctx [ConsoleCtx plain_ctx, DltCtx 3] True"
  let ?d = "[ConsoleData (console_data_new []), DltData (dlt_data_new\<lparr>dd_enabled := True\<rparr>)]"
  let ?e = "\<lparr>le_li = sample_info, le_data = ?d\<rparr>"
  let ?w = "sample_world\<lparr>w_console := \<lparr>s_defaultLogLevel = LvNone, s_envVarCheckDone = True\<rparr>\<rparr>"
  let ?calls = "[CallSetHex True, CallWrite (VUShort 31)]"
  have lvl: "m_level sample_info = LvError" "m_hexEnabled sample_info = False" by (simp_all add: sample_info_def)
  have off: "\<not> console_isEnabled \<lparr>s_defaultLogLevel = LvNone, s_envVarCheckDone = True\<rparr> plain_ctx LvError"
    by (simp add: console_isEnabled_def less_eq_LogLevel_def)
  have len: "length (lc_contexts ?ctx) = length (le_data ?e)" by (simp add: sample_log_ctx_def)
  obtain e' where r: "stream_items sample_surroundings ?ctx (pure_items ?calls) ?e ?w = Some (e', ?w)"
    using off lvl by (simp add: sample_log_ctx_def)
  from fan_out_is_independent[OF len r, of 0] fan_out_is_independent[OF len r, of 1] off lvl r
  show ?thesis by (simp add: sample_log_ctx_def sample_surroundings_def Let_def)
qed

end
