(* ===== verification/Log_Macros.thy ===== *)
theory Log_Macros
  imports Log_Context
begin

text \<open>
  What a program uses of \<open>include/ivi-logging.h\<close>: the construction of a context over its back ends,
  the severity macros \<open>log_fatal()\<close> to \<open>log_verbose()\<close>, and the null context of
  \<open>include/ivi-logging-null.h\<close>. Which context \<open>getDefaultContext()\<close> names is a matter of C++ scopes
  and an argument here.
\<close>

section \<open>Constructing a context\<close>

fun ctx_setParentContext :: "LogContextCommon \<Rightarrow> backend_ctx \<Rightarrow> world \<Rightarrow> backend_ctx \<times> world" where
  "ctx_setParentContext common (ConsoleCtx c) w = (ConsoleCtx (c\<lparr>sc_context := common\<rparr>), w)"
| "ctx_setParentContext common (FileCtx c) w = (FileCtx (c\<lparr>sc_context := common\<rparr>), w)"
| "ctx_setParentContext common (DltCtx k) w = (DltCtx k, w\<lparr>w_daemon := (w_daemon w)\<lparr>dm_store :=
     (dm_store (w_daemon w))(k := (dm_store (w_daemon w) k)\<lparr>dc_context := common\<rparr>)\<rparr>\<rparr>)"
| "ctx_setParentContext common NullCtx w = (NullCtx, w)"

fun set_parents :: "LogContextCommon \<Rightarrow> backend_ctx list \<Rightarrow> world \<Rightarrow> backend_ctx list \<times> world" where
  "set_parents common [] w = ([], w)"
| "set_parents common (c # cs) w =
     (let (c, w) = ctx_setParentContext common c w; (cs, w) = set_parents common cs w in (c # cs, w))"

definition LogContextT_ctor :: "string \<Rightarrow> string \<Rightarrow> backend_ctx list \<Rightarrow> world \<Rightarrow> log_ctx \<times> world" where
  "LogContextT_ctor ident contextDescription contexts w = (
     let (common, p) = LogContextCommon_ctor ident contextDescription (w_process w);
         (contexts, w) = set_parents common contexts (w\<lparr>w_process := p\<rparr>)
     in (\<lparr>lc_common = common, lc_contexts = contexts, m_bRegistered = False\<rparr>, w))"

section \<open>The macros\<close>

datatype severity_macro = log_fatal | log_error | log_verbose | log_info | log_warn | log_debug

fun macro_severity :: "severity_macro \<Rightarrow> LogLevel" where
  "macro_severity log_fatal = LvFatal"
| "macro_severity log_error = LvError"
| "macro_severity log_verbose = LvVerbose"
| "macro_severity log_info = LvInfo"
| "macro_severity log_warn = LvWarning"
| "macro_severity log_debug = LvDebug"

definition log_macro :: "surroundings \<Rightarrow> severity_macro \<Rightarrow> string \<Rightarrow> int \<Rightarrow> string \<Rightarrow>
    (world \<Rightarrow> (entry_call \<times> world) option) list \<Rightarrow> log_ctx \<Rightarrow> world \<Rightarrow> (log_ctx \<times> world) option" where
  "log_macro sr m file_name line function items ctx w =
     log_with_context sr (macro_severity m) file_name line function items ctx w"

section \<open>The null context\<close>

definition getNullContext :: "world \<Rightarrow> log_ctx \<times> world" where
  "getNullContext w = LogContextT_ctor ''NULL'' [] [NullCtx] w"

section \<open>Fresh contexts\<close>

fun has_parent :: "LogContextCommon \<Rightarrow> world \<Rightarrow> backend_ctx \<Rightarrow> bool" where
  "has_parent common w (ConsoleCtx c) = (sc_context c = common)"
| "has_parent common w (FileCtx c) = (sc_context c = common)"
| "has_parent common w (DltCtx k) = (dc_context (dm_store (w_daemon w) k) = common)"
| "has_parent common w NullCtx = True"

lemma set_parents_keep:
  "dc_context (dm_store (w_daemon w) k) = common \<Longrightarrow> set_parents common cs w = (cs', w') \<Longrightarrow>
     dc_context (dm_store (w_daemon w') k) = common"
proof (induction cs arbitrary: w cs')
  case (Cons c cs)
  obtain c1 w1 where s: "ctx_setParentContext common c w = (c1, w1)" by force
  obtain cs1 where r: "set_parents common cs w1 = (cs1, w')"
    using Cons.prems(2) s by (auto simp: Let_def split: prod.splits)
  have "dc_context (dm_store (w_daemon w1) k) = common"
    using Cons.prems(1) s by (cases c) auto
  from Cons.IH[OF this r] show ?case .
qed simp

lemma set_parents_has:
  "set_parents common cs w = (cs', w') \<Longrightarrow> w_process w' = w_process w \<and> length cs' = length cs \<and>
     dlt_addresses cs' = dlt_addresses cs \<and> list_all (has_parent common w') cs'"
proof (induction cs arbitrary: w cs')
  case (Cons c cs)
  obtain c1 w1 where s: "ctx_setParentContext common c w = (c1, w1)" by force
  obtain cs1 where r: "set_parents common cs w1 = (cs1, w')" "cs' = c1 # cs1"
    using Cons.prems s by (auto simp: Let_def split: prod.splits)
  show ?case
    using Cons.IH[OF r(1)] s r(2) set_parents_keep[OF _ r(1)] by (cases c) auto
qed simp

text \<open>
  A statement on a fresh context whose back ends are all null evaluates nothing and prints nothing;
  all it leaves behind are the identifiers of the application.
\<close>

lemma null_register [simp]: "ctx_register_all sr (replicate n NullCtx) w = Some w"
  by (induction n) simp_all

lemma null_context_silent:
  assumes "setDefaultAPPIDSIfNeeded (sr_platform sr) (w_process (snd (getNullContext w))) = Some p"
  shows "\<exists>ctx'. log_macro sr m file_name line function items (fst (getNullContext w)) (snd (getNullContext w)) =
    Some (ctx', (snd (getNullContext w))\<lparr>w_process := p\<rparr>) \<and> m_bRegistered ctx'"
  using assms
  by (auto simp: getNullContext_def LogContextT_ctor_def log_macro_def log_with_context_def
      log_isEnabled_def checkContext_def Let_def split: prod.splits)

text \<open>Among the macros, only \<open>log_fatal()\<close> ends the process.\<close>

lemma macro_fatal [simp]: "macro_severity m = LvFatal \<longleftrightarrow> m = log_fatal"
  by (cases m) simp_all

lemma only_fatal_aborts:
  assumes "m_bRegistered ctx" and "\<exists>c \<in> set (lc_contexts ctx). ctx_isEnabled sr w (macro_severity m) c"
    and "\<forall>c \<in> set (lc_contexts ctx). terminal_only c"
    and "op_texts (calls_ops False calls) = Some u"
    and "short_enough sr (fst (ask_thread sr w)) (LogInfo_ctor (macro_severity m) path line function) u"
  shows "\<exists>w'. log_macro sr m path line function (pure_items calls) ctx w = Some (ctx, w') \<and>
    (w_aborted w' \<longleftrightarrow> w_aborted w \<or> m = log_fatal)"
proof -
  from statement_total[OF assms(3-5)] obtain e e' w' where
    r: "createLog sr (macro_severity m) path line function ctx w = Some (e, w)"
    "stream_items sr ctx (pure_items calls) e w = Some (e', w)" "entry_dtor sr ctx e' w = Some w'" by blast
  with enabled_statement[OF assms(1,2)] statement_prints[OF r assms(4,5) terminal_only_dlt[OF assms(3)]] show ?thesis
    by (simp add: log_macro_def)
qed

end
