(* ===== verification/Streaming.thy ===== *)
theory Streaming
  imports Log_Context
begin

text \<open>
  What can be streamed into a log entry besides the native types: the standard containers, tuples,
  optionals, variants, durations, exceptions (\<open>include/ivi-logging-stl.h\<close>,
  \<open>include/ivi-logging-types.h\<close>), the stream manipulators, \<open>StringBuilder\<close> and the no-fail mode
  of \<open>include/ivi-logging.h\<close>. Each \<open>operator<<\<close> becomes the list of values it hands to \<open>write\<close>, in
  order (\<open>stream_value\<close>, what an operator does once it is compiled). Whether it compiles is a matter of the
  static type of its operand alone: \<open>compiles\<close>, on types. A streamed operand is a value with its type, and
  \<open>stream_typed\<close> puts the two together.
\<close>

section \<open>Values and their types\<close>

datatype time_unit = Years | Months | Weeks | Days | Hours | Minutes | Seconds | Milliseconds
  | Microseconds | Nanoseconds

text \<open>
  One constructor per overload. A container is the sequence of its elements in iteration order, a
  map that of its pairs. \<open>SValue\<close> is a native value or a \<open>std::string\<close>; \<open>SVariant None\<close> a variant
  without a value (after an exception in an assignment); \<open>STimePoint\<close> counts nanoseconds and
  \<open>SDuration\<close> its unit; \<open>SException\<close> is the memory \<open>what()\<close> points to; \<open>SOther\<close> an object of a
  type without an \<open>operator<<\<close>, e.g. a \<open>std::pair\<close>.
\<close>

datatype streamable =
    SValue log_value
  | SBuilder string
  | SCharArray mem
  | SVector "streamable list"
  | SMap "(streamable \<times> streamable) list"
  | SUnorderedMap "(streamable \<times> streamable) list"
  | SSet "streamable list"
  | SStdArray "streamable list"
  | SCArray "streamable list"
  | SSpan "streamable list"
  | STuple "streamable list"
  | SVariant "streamable option"
  | SOptional "streamable option"
  | STimePoint "64 word"
  | SDuration time_unit "64 word"
  | SException mem
  | SOther

datatype cpp_type =
    TBool | TValue | TBuilder | TCharArray | TVector cpp_type | TMap cpp_type cpp_type
  | TUnorderedMap cpp_type cpp_type | TSet cpp_type | TStdArray cpp_type | TCArray cpp_type
  | TSpan cpp_type | TTuple "cpp_type list" | TVariant "cpp_type list" | TOptional cpp_type
  | TTimePoint | TDuration time_unit | TException | TOther

inductive has_type :: "streamable \<Rightarrow> cpp_type \<Rightarrow> bool" where
  "has_type (SValue (VBool b)) TBool"
| "\<forall>b. v \<noteq> VBool b \<Longrightarrow> has_type (SValue v) TValue"
| "has_type (SBuilder b) TBuilder"
| "has_type (SCharArray m) TCharArray"
| "\<forall>x \<in> set xs. has_type x t \<Longrightarrow> has_type (SVector xs) (TVector t)"
| "\<forall>(k, v) \<in> set kvs. has_type k tk \<and> has_type v tv \<Longrightarrow> has_type (SMap kvs) (TMap tk tv)"
| "\<forall>(k, v) \<in> set kvs. has_type k tk \<and> has_type v tv \<Longrightarrow> has_type (SUnorderedMap kvs) (TUnorderedMap tk tv)"
| "\<forall>x \<in> set xs. has_type x t \<Longrightarrow> has_type (SSet xs) (TSet t)"
| "\<forall>x \<in> set xs. has_type x t \<Longrightarrow> has_type (SStdArray xs) (TStdArray t)"
| "\<forall>x \<in> set xs. has_type x t \<Longrightarrow> has_type (SCArray xs) (TCArray t)"
| "\<forall>x \<in> set xs. has_type x t \<Longrightarrow> has_type (SSpan xs) (TSpan t)"
| "list_all2 has_type xs ts \<Longrightarrow> has_type (STuple xs) (TTuple ts)"
| "t \<in> set ts \<Longrightarrow> has_type x t \<Longrightarrow> has_type (SVariant (Some x)) (TVariant ts)"
| "ts \<noteq> [] \<Longrightarrow> has_type (SVariant None) (TVariant ts)"
| "has_type x t \<Longrightarrow> has_type (SOptional (Some x)) (TOptional t)"
| "has_type (SOptional None) (TOptional t)"
| "has_type (STimePoint p) TTimePoint"
| "has_type (SDuration u n) (TDuration u)"
| "has_type (SException m) TException"
| "has_type SOther TOther"

inductive_cases has_type_elims:
  "has_type v TBool" "has_type v TValue" "has_type v TBuilder" "has_type v TCharArray" "has_type v (TVector t)"
  "has_type v (TMap tk tv)" "has_type v (TUnorderedMap tk tv)" "has_type v (TSet t)"
  "has_type v (TStdArray t)" "has_type v (TCArray t)" "has_type v (TSpan t)" "has_type v (TTuple ts)"
  "has_type v (TVariant ts)" "has_type v (TOptional t)" "has_type v TTimePoint"
  "has_type v (TDuration u)" "has_type v TException" "has_type v TOther"

section \<open>Overload resolution\<close>

text \<open>
  \<open>nf\<close> is \<open>None\<close> for a \<open>LogEntry\<close> and the replacement text for its no-fail companion, on which
  every type compiles but one: the elements of a \<open>std::vector<bool>\<close> are no objects, so that the
  \<open>auto&\<close> of the loop in \<open>streamArrayType\<close> cannot bind to them, on either. \<open>TValue\<close> stands for the native
  types other than \<open>bool\<close> and \<open>std::string\<close>. An element of a \<open>std::unordered_map\<close> is a \<open>std::pair\<close>.
\<close>

primrec compiles :: "string option \<Rightarrow> cpp_type \<Rightarrow> bool" where
  "compiles nf TBool = True"
| "compiles nf TValue = True"
| "compiles nf TBuilder = True"
| "compiles nf TCharArray = True"
| "compiles nf (TVector t) = (t \<noteq> TBool \<and> compiles nf t)"
| "compiles nf (TMap tk tv) = (compiles nf tk \<and> compiles nf tv)"
| "compiles nf (TUnorderedMap tk tv) = (nf \<noteq> None)"
| "compiles nf (TSet t) = compiles nf t"
| "compiles nf (TStdArray t) = compiles nf t"
| "compiles nf (TCArray t) = compiles nf t"
| "compiles nf (TSpan t) = compiles nf t"
| "compiles nf (TTuple ts) = list_all id (map (compiles nf) ts)"
| "compiles nf (TVariant ts) = (if ts = [] then nf \<noteq> None else list_all id (map (compiles nf) ts))"
| "compiles nf (TOptional t) = compiles nf t"
| "compiles nf TTimePoint = True"
| "compiles nf (TDuration u) = True"
| "compiles nf TException = True"
| "compiles nf TOther = (nf \<noteq> None)"

section \<open>Outcomes\<close>

text \<open>
  Streaming writes its values, is left by an exception after some of them (\<open>bad_variant_access\<close>),
  reads past a character array, or has no overload, which the compiler reports whatever precedes.
\<close>

datatype 'a outcome = Streams "'a list" | Throws "'a list" | Undefined | NoOverload

fun and_then :: "'a outcome \<Rightarrow> 'a outcome \<Rightarrow> 'a outcome" where
  "and_then (Streams xs) (Streams ys) = Streams (xs @ ys)"
| "and_then (Streams xs) (Throws ys) = Throws (xs @ ys)"
| "and_then (Streams xs) Undefined = Undefined"
| "and_then (Throws xs) r = (case r of NoOverload \<Rightarrow> NoOverload | _ \<Rightarrow> Throws xs)"
| "and_then Undefined r = (case r of NoOverload \<Rightarrow> NoOverload | _ \<Rightarrow> Undefined)"
| "and_then NoOverload r = NoOverload"
| "and_then (Streams xs) NoOverload = NoOverload"

text \<open>A string literal reaches \<open>write\<close> as a \<open>string_view\<close> up to its NUL.\<close>

definition literal :: "string \<Rightarrow> log_value outcome" where
  "literal s = Streams [VView s]"

definition stream_chars :: "mem \<Rightarrow> log_value outcome" where
  "stream_chars m = (case c_string m of Some s \<Rightarrow> Streams [VView s] | None \<Rightarrow> Undefined)"

text \<open>Native values and \<open>std::string\<close> go straight to \<open>write\<close>, a \<open>StringBuilder\<close> as its text.\<close>

fun isNativeType :: "log_value \<Rightarrow> bool" where
  "isNativeType (VString v) = False"
| "isNativeType _ = True"

definition stream_native :: "log_value \<Rightarrow> log_value outcome" where
  "stream_native v = Streams [v]"

definition stream_string :: "log_value \<Rightarrow> log_value outcome" where
  "stream_string v = Streams [v]"

definition stream_builder :: "string \<Rightarrow> log_value outcome" where
  "stream_builder b = stream_string (VString b)"

definition stream_exception :: "mem \<Rightarrow> log_value outcome" where
  "stream_exception what = stream_native (VCStr (Some what))"

text \<open>A type without \<open>operator<<\<close>: no overload, or the replacement text of the no-fail mode.\<close>

definition stream_unsupported :: "string option \<Rightarrow> log_value outcome" where
  "stream_unsupported nf = (case nf of None \<Rightarrow> NoOverload | Some t \<Rightarrow> Streams [VView t])"

section \<open>The operators\<close>

fun array_loop :: "bool \<Rightarrow> log_value outcome list \<Rightarrow> log_value outcome" where
  "array_loop isFirst [] = Streams []"
| "array_loop isFirst (element # v) =
     and_then (if \<not> isFirst then literal '', '' else Streams [])
       (and_then element (array_loop False v))"

definition streamArrayType :: "log_value outcome list \<Rightarrow> log_value outcome" where
  "streamArrayType v =
     and_then (literal ''[ '') (and_then (array_loop True v) (literal '' ]''))"

fun map_loop :: "bool \<Rightarrow> (log_value outcome \<times> log_value outcome) list \<Rightarrow> log_value outcome" where
  "map_loop isFirst [] = Streams []"
| "map_loop isFirst (element # v) =
     and_then (if \<not> isFirst then literal '', '' else Streams [])
       (and_then (literal ''{ '') (and_then (fst element) (and_then (literal ''='')
         (and_then (snd element) (and_then (literal '' }'') (map_loop False v))))))"

definition streamMapType :: "(log_value outcome \<times> log_value outcome) list \<Rightarrow> log_value outcome" where
  "streamMapType v =
     and_then (literal '' [ '') (and_then (map_loop True v) (literal '' ] ''))"

text \<open>The separator of a tuple is a \<open>char const*\<close>; the first element's is empty.\<close>

fun tuple_loop :: "nat \<Rightarrow> log_value outcome list \<Rightarrow> log_value outcome" where
  "tuple_loop I [] = Streams []"
| "tuple_loop I (element # v) =
     and_then (Streams [VCStr (Some ((if I = 0 then [] else '', '') @ [NUL]))])
       (and_then element (tuple_loop (Suc I) v))"

definition printTuple :: "log_value outcome list \<Rightarrow> log_value outcome" where
  "printTuple v = and_then (literal ''{'') (and_then (tuple_loop 0 v) (literal ''}''))"

definition stream_variant :: "log_value outcome option \<Rightarrow> log_value outcome" where
  "stream_variant value = (case value of Some v \<Rightarrow> v | None \<Rightarrow> Throws [])"

definition stream_optional :: "log_value outcome option \<Rightarrow> log_value outcome" where
  "stream_optional value = (case value of Some v \<Rightarrow> v | None \<Rightarrow> literal ''{}'')"

text \<open>\<open>system_clock::to_time_t\<close>: nanoseconds to seconds, towards zero.\<close>

definition to_time_t :: "64 word \<Rightarrow> int" where
  "to_time_t t = sgn (sint t) * (\<bar>sint t\<bar> div 1000000000)"

fun unit_suffix :: "time_unit \<Rightarrow> string" where
  "unit_suffix Years = ''yr''"
| "unit_suffix Months = ''mo''"
| "unit_suffix Weeks = ''wk''"
| "unit_suffix Days = ''d''"
| "unit_suffix Hours = ''h''"
| "unit_suffix Minutes = ''min''"
| "unit_suffix Seconds = ''s''"
| "unit_suffix Milliseconds = ''ms''"
| "unit_suffix Microseconds = ''us''"
| "unit_suffix Nanoseconds = ''ns''"

definition stream_duration :: "time_unit \<Rightarrow> 64 word \<Rightarrow> log_value outcome" where
  "stream_duration u count = and_then (stream_native (VLong count)) (literal (unit_suffix u))"

definition stream_time_point :: "(int \<Rightarrow> string) \<Rightarrow> 64 word \<Rightarrow> log_value outcome" where
  "stream_time_point put_time timePoint = stream_string (VString (put_time (to_time_t timePoint)))"

text \<open>
  What the operator for a value does at run time. \<open>put_time\<close> gives the text of
  \<open>std::put_time(std::localtime(&t), "%Ec")\<close> in the process's locale and time zone.
\<close>

primrec stream_value :: "(int \<Rightarrow> string) \<Rightarrow> string option \<Rightarrow> streamable \<Rightarrow> log_value outcome" where
  "stream_value put_time nf (SValue v) = (if isNativeType v then stream_native v else stream_string v)"
| "stream_value put_time nf (SBuilder b) = stream_builder b"
| "stream_value put_time nf (SCharArray m) = stream_chars m"
| "stream_value put_time nf (SVector v) = streamArrayType (map (stream_value put_time nf) v)"
| "stream_value put_time nf (SMap v) =
     streamMapType (map (map_prod (stream_value put_time nf) (stream_value put_time nf)) v)"
| "stream_value put_time nf (SUnorderedMap v) = (case nf of None \<Rightarrow> NoOverload
     | Some t \<Rightarrow> streamArrayType (map (\<lambda>_. stream_unsupported nf) v))"
| "stream_value put_time nf (SSet v) = streamArrayType (map (stream_value put_time nf) v)"
| "stream_value put_time nf (SStdArray v) = streamArrayType (map (stream_value put_time nf) v)"
| "stream_value put_time nf (SCArray v) = streamArrayType (map (stream_value put_time nf) v)"
| "stream_value put_time nf (SSpan v) = streamArrayType (map (stream_value put_time nf) v)"
| "stream_value put_time nf (STuple value) = printTuple (map (stream_value put_time nf) value)"
| "stream_value put_time nf (SVariant value) = stream_variant (map_option (stream_value put_time nf) value)"
| "stream_value put_time nf (SOptional value) = stream_optional (map_option (stream_value put_time nf) value)"
| "stream_value put_time nf (STimePoint timePoint) =
     stream_time_point put_time timePoint"
| "stream_value put_time nf (SDuration u count) = stream_duration u count"
| "stream_value put_time nf (SException what) = stream_exception what"
| "stream_value put_time nf SOther = stream_unsupported nf"

text \<open>An operand of the static type \<open>t\<close>: the value decides nothing about the overload.\<close>

definition stream_typed :: "(int \<Rightarrow> string) \<Rightarrow> string option \<Rightarrow> cpp_type \<Rightarrow> streamable \<Rightarrow> log_value outcome" where
  "stream_typed put_time nf t v = (if compiles nf t then stream_value put_time nf v else NoOverload)"

text \<open>
  \<open>StringBuilder\<close>: the text collected so far. \<open>ostream\<close> is the text the standard library's
  \<open>operator<<\<close> gives for a value of the remaining types.
\<close>

datatype 'a builder_item = BuildUInt8 "8 word" | BuildInt8 "8 word" | BuildOther 'a

fun builder_put :: "('a \<Rightarrow> string) \<Rightarrow> 'a builder_item \<Rightarrow> string \<Rightarrow> string" where
  "builder_put ostream (BuildUInt8 v) m_stream = m_stream @ dec_text (uint v)"
| "builder_put ostream (BuildInt8 v) m_stream = m_stream @ dec_text (sint v)"
| "builder_put ostream (BuildOther v) m_stream = m_stream @ ostream v"

section \<open>Statements\<close>

text \<open>
  A statement streams values and manipulators into the entry, or, after \<open>noFail(text)\<close>, values into
  its companion, which takes no manipulators.
\<close>

datatype manipulator = Endl | Hex | Dec | Ends | Flush

fun manipulate :: "manipulator \<Rightarrow> entry_call list" where
  "manipulate Endl = [CallWrite (VView [LF])]"
| "manipulate Hex = [CallSetHex True]"
| "manipulate Dec = [CallSetHex False]"
| "manipulate Ends = []"
| "manipulate Flush = []"

datatype item = Value cpp_type streamable | Manipulator manipulator

fun map_outcome_calls :: "log_value outcome \<Rightarrow> entry_call outcome" where
  "map_outcome_calls (Streams vs) = Streams (map CallWrite vs)"
| "map_outcome_calls (Throws vs) = Throws (map CallWrite vs)"
| "map_outcome_calls Undefined = Undefined"
| "map_outcome_calls NoOverload = NoOverload"

fun item_calls :: "(int \<Rightarrow> string) \<Rightarrow> string option \<Rightarrow> item \<Rightarrow> entry_call outcome" where
  "item_calls put_time nf (Value t v) = map_outcome_calls (stream_typed put_time nf t v)"
| "item_calls put_time nf (Manipulator m) = (if nf = None then Streams (manipulate m) else NoOverload)"

fun statement_calls :: "(int \<Rightarrow> string) \<Rightarrow> string option \<Rightarrow> item list \<Rightarrow> entry_call outcome" where
  "statement_calls put_time nf [] = Streams []"
| "statement_calls put_time nf (x # xs) =
     and_then (item_calls put_time nf x) (statement_calls put_time nf xs)"

text \<open>\<open>noFail\<close> hands out the companion with the replacement text, \<open>XXX\<close> when none is given.\<close>

definition enableUnsupportedTypes :: "string \<Rightarrow> string option" where
  "enableUnsupportedTypes unsupportedText = Some unsupportedText"

definition noFail :: "string option \<Rightarrow> string option" where
  "noFail unsupportedText =
     enableUnsupportedTypes (case unsupportedText of Some t \<Rightarrow> t | None \<Rightarrow> ''XXX'')"

section \<open>Laws of outcomes\<close>

lemma stream_direct [simp]: "stream_native v = Streams [v]" "stream_string v = Streams [v]"
  "stream_builder b = Streams [VString b]" "stream_exception m = Streams [VCStr (Some m)]"
  "stream_time_point tm p = Streams [VString (tm (to_time_t p))]"
  by (simp_all add: stream_native_def stream_string_def stream_builder_def stream_exception_def
      stream_time_point_def)

lemma and_then_Streams:
  "and_then a b = Streams zs \<longleftrightarrow> (\<exists>xs ys. a = Streams xs \<and> b = Streams ys \<and> zs = xs @ ys)"
  by (cases a; cases b) auto

lemma and_then_NoOverload: "and_then a b = NoOverload \<longleftrightarrow> a = NoOverload \<or> b = NoOverload"
  by (cases a; cases b) auto

lemma and_then_unit [simp]: "and_then (Streams []) r = r" "and_then r (Streams []) = r"
  by (cases r; simp)+

lemma and_then_assoc: "and_then (and_then a b) c = and_then a (and_then b c)"
  by (cases a; cases b; cases c) simp_all

lemma literal_neq [simp]: "literal s \<noteq> NoOverload" "literal s \<noteq> Undefined" "literal s \<noteq> Throws xs"
  by (simp_all add: literal_def)

lemma unsupported_NoOverload [simp]: "stream_unsupported nf = NoOverload \<longleftrightarrow> nf = None"
  "NoOverload = stream_unsupported nf \<longleftrightarrow> nf = None"
  by (simp_all add: stream_unsupported_def split: option.split)

lemma chars_overload [simp]: "stream_chars m \<noteq> NoOverload"
  by (simp add: stream_chars_def split: option.split)

text \<open>An operator has an overload exactly when its elements have.\<close>

lemma array_loop_NoOverload: "array_loop f os = NoOverload \<longleftrightarrow> NoOverload \<in> set os"
  by (induction os arbitrary: f) (auto simp: and_then_NoOverload)

lemma array_NoOverload: "streamArrayType os = NoOverload \<longleftrightarrow> NoOverload \<in> set os"
  by (simp add: streamArrayType_def and_then_NoOverload array_loop_NoOverload)

lemma map_loop_NoOverload:
  "map_loop f os = NoOverload \<longleftrightarrow> NoOverload \<in> fst ` set os \<union> snd ` set os"
  by (induction os arbitrary: f) (auto simp: and_then_NoOverload)

lemma map_NoOverload: "streamMapType os = NoOverload \<longleftrightarrow> NoOverload \<in> fst ` set os \<union> snd ` set os"
  by (simp add: streamMapType_def and_then_NoOverload map_loop_NoOverload)

lemma tuple_loop_NoOverload: "tuple_loop n os = NoOverload \<longleftrightarrow> NoOverload \<in> set os"
  by (induction os arbitrary: n) (auto simp: and_then_NoOverload)

lemma tuple_NoOverload: "printTuple os = NoOverload \<longleftrightarrow> NoOverload \<in> set os"
  by (simp add: printTuple_def and_then_NoOverload tuple_loop_NoOverload)

lemma NoOverload_image: "NoOverload \<in> f ` S \<longleftrightarrow> (\<exists>x \<in> S. f x = NoOverload)"
  by (force simp: image_iff)

lemmas overload_simps = NoOverload_image array_NoOverload map_NoOverload tuple_NoOverload stream_variant_def
  stream_optional_def stream_duration_def and_then_NoOverload

section \<open>The text of a value\<close>

fun join :: "string \<Rightarrow> string list \<Rightarrow> string" where
  "join sep [] = []"
| "join sep [x] = x"
| "join sep (x # xs) = x @ sep @ join sep xs"

primrec preceded :: "string \<Rightarrow> string list \<Rightarrow> string" where
  "preceded sep [] = []"
| "preceded sep (x # xs) = sep @ x @ preceded sep xs"

lemma join_Cons: "join sep (x # xs) = x @ preceded sep xs"
  by (induction xs arbitrary: x) simp_all

text \<open>The specification: what a reader of the log sees for a value.\<close>

primrec shown :: "(int \<Rightarrow> string) \<Rightarrow> string option \<Rightarrow> bool \<Rightarrow> streamable \<Rightarrow> string" where
  "shown tm nf hex (SValue v) = value_text hex v"
| "shown tm nf hex (SBuilder b) = cstr b"
| "shown tm nf hex (SCharArray m) = cstr m"
| "shown tm nf hex (SVector xs) = ''[ '' @ join '', '' (map (shown tm nf hex) xs) @ '' ]''"
| "shown tm nf hex (SMap kvs) = '' [ '' @ join '', '' (map (\<lambda>(k, v). ''{ '' @ k @ ''='' @ v @ '' }'')
     (map (map_prod (shown tm nf hex) (shown tm nf hex)) kvs)) @ '' ] ''"
| "shown tm nf hex (SUnorderedMap kvs) =
     ''[ '' @ join '', '' (map (\<lambda>_. case nf of None \<Rightarrow> [] | Some t \<Rightarrow> cstr t) kvs) @ '' ]''"
| "shown tm nf hex (SSet xs) = ''[ '' @ join '', '' (map (shown tm nf hex) xs) @ '' ]''"
| "shown tm nf hex (SStdArray xs) = ''[ '' @ join '', '' (map (shown tm nf hex) xs) @ '' ]''"
| "shown tm nf hex (SCArray xs) = ''[ '' @ join '', '' (map (shown tm nf hex) xs) @ '' ]''"
| "shown tm nf hex (SSpan xs) = ''[ '' @ join '', '' (map (shown tm nf hex) xs) @ '' ]''"
| "shown tm nf hex (STuple xs) = ''{'' @ join '', '' (map (shown tm nf hex) xs) @ ''}''"
| "shown tm nf hex (SVariant x) = (case map_option (shown tm nf hex) x of Some t \<Rightarrow> t | None \<Rightarrow> [])"
| "shown tm nf hex (SOptional x) = (case map_option (shown tm nf hex) x of Some t \<Rightarrow> t | None \<Rightarrow> ''{}'')"
| "shown tm nf hex (STimePoint p) = cstr (tm (to_time_t p))"
| "shown tm nf hex (SDuration u n) = int_value_text 64 hex (sint n) @ unit_suffix u"
| "shown tm nf hex (SException m) = cstr m"
| "shown tm nf hex SOther = (case nf of None \<Rightarrow> [] | Some t \<Rightarrow> cstr t)"

definition texts :: "bool \<Rightarrow> log_value list \<Rightarrow> string" where
  "texts hex vs = concat (map (value_text hex) vs)"

lemma texts_simps [simp]: "texts hex [] = []" "texts hex (v # vs) = value_text hex v @ texts hex vs"
  "texts hex (us @ vs) = texts hex us @ texts hex vs"
  by (simp_all add: texts_def)

text \<open>An outcome that has the given text whenever it streams.\<close>

definition has_text :: "bool \<Rightarrow> log_value outcome \<Rightarrow> string \<Rightarrow> bool" where
  "has_text hex r t \<longleftrightarrow> (\<forall>vs. r = Streams vs \<longrightarrow> texts hex vs = t)"

lemma has_text_and_then [intro]:
  "has_text hex a s \<Longrightarrow> has_text hex b t \<Longrightarrow> has_text hex (and_then a b) (s @ t)"
  by (auto simp: has_text_def and_then_Streams)

lemma has_text_literal: "nul_free s \<Longrightarrow> has_text hex (literal s) s"
  by (simp add: has_text_def literal_def)

lemma has_text_Streams [simp]: "has_text hex (Streams vs) t \<longleftrightarrow> texts hex vs = t"
  by (auto simp: has_text_def)

lemma array_loop_text:
  "list_all2 (has_text hex) os ts \<Longrightarrow>
     has_text hex (array_loop f os) (if f then join '', '' ts else preceded '', '' ts)"
proof (induction os ts arbitrary: f rule: list_all2_induct)
  case (Cons r os t ts)
  have "has_text hex (and_then r (array_loop False os)) (t @ preceded '', '' ts)"
    using Cons.hyps(1) Cons.IH[of False] by auto
  moreover from this
  have "has_text hex (and_then (literal '', '') (and_then r (array_loop False os)))
      ('', '' @ t @ preceded '', '' ts)"
    by (intro has_text_and_then[of hex "literal '', ''"] has_text_literal) simp_all
  ultimately show ?case by (simp add: join_Cons)
qed simp

lemma array_text:
  assumes "list_all2 (has_text hex) os ts"
  shows "has_text hex (streamArrayType os) (''[ '' @ join '', '' ts @ '' ]'')"
  unfolding streamArrayType_def using array_loop_text[OF assms, of True]
  by (intro has_text_and_then has_text_literal) simp_all

lemma tuple_loop_text:
  "list_all2 (has_text hex) os ts \<Longrightarrow> has_text hex (tuple_loop n os)
     (if n = 0 then join '', '' ts else preceded '', '' ts)"
proof (induction os ts arbitrary: n rule: list_all2_induct)
  case (Cons r os t ts)
  have "has_text hex (and_then r (tuple_loop (Suc n) os)) (t @ preceded '', '' ts)"
    using Cons.hyps(1) Cons.IH[of "Suc n"] by auto
  then have "has_text hex (and_then (Streams [VCStr (Some ((if n = 0 then [] else '', '') @ [NUL]))])
      (and_then r (tuple_loop (Suc n) os)))
      ((if n = 0 then [] else '', '') @ t @ preceded '', '' ts)"
    by (intro has_text_and_then[of hex "Streams us" for us]) simp_all
  then show ?case by (cases "n = 0") (simp_all add: join_Cons)
qed simp

lemma tuple_text:
  assumes "list_all2 (has_text hex) os ts"
  shows "has_text hex (printTuple os) (''{'' @ join '', '' ts @ ''}'')"
  unfolding printTuple_def using tuple_loop_text[OF assms, of 0]
  by (intro has_text_and_then has_text_literal) simp_all

lemma array_map_text:
  assumes "\<And>x. x \<in> set xs \<Longrightarrow> has_text hex (f x) (g x)"
  shows "has_text hex (streamArrayType (map f xs)) (''[ '' @ join '', '' (map g xs) @ '' ]'')"
  using assms by (intro array_text) (auto simp: list.rel_map intro: list.rel_refl_strong)

lemma tuple_map_text:
  assumes "\<And>x. x \<in> set xs \<Longrightarrow> has_text hex (f x) (g x)"
  shows "has_text hex (printTuple (map f xs)) (''{'' @ join '', '' (map g xs) @ ''}'')"
  using assms by (intro tuple_text) (auto simp: list.rel_map intro: list.rel_refl_strong)

abbreviation pair_text :: "string \<times> string \<Rightarrow> string" where
  "pair_text \<equiv> \<lambda>(k, v). ''{ '' @ k @ ''='' @ v @ '' }''"

lemma map_loop_text:
  "list_all2 (rel_prod (has_text hex) (has_text hex)) os ts \<Longrightarrow> has_text hex (map_loop f os)
     (if f then join '', '' (map pair_text ts) else preceded '', '' (map pair_text ts))"
proof (induction os ts arbitrary: f rule: list_all2_induct)
  case (Cons r os t ts)
  let ?rest = "preceded '', '' (map pair_text ts)"
  obtain k v where t: "t = (k, v)" by force
  have "has_text hex (and_then (literal ''{ '') (and_then (fst r) (and_then (literal ''='')
      (and_then (snd r) (and_then (literal '' }'') (map_loop False os))))))
      (''{ '' @ k @ ''='' @ v @ '' }'' @ ?rest)"
    using Cons.hyps(1) Cons.IH[of False] t
    by (intro has_text_and_then has_text_literal) (auto simp: rel_prod_sel)
  moreover from this
  have "has_text hex (and_then (literal '', '') (and_then (literal ''{ '') (and_then (fst r)
      (and_then (literal ''='') (and_then (snd r) (and_then (literal '' }'') (map_loop False os)))))))
      ('', '' @ ''{ '' @ k @ ''='' @ v @ '' }'' @ ?rest)"
    by (intro has_text_and_then[of hex "literal '', ''"] has_text_literal) simp_all
  ultimately show ?case by (simp add: t join_Cons)
qed simp

lemma map_text:
  assumes "list_all2 (rel_prod (has_text hex) (has_text hex)) os ts"
  shows "has_text hex (streamMapType os) ('' [ '' @ join '', '' (map pair_text ts) @ '' ] '')"
  unfolding streamMapType_def using map_loop_text[OF assms, of True]
  by (intro has_text_and_then has_text_literal) simp_all

lemma has_text_unsupported:
  "has_text hex (stream_unsupported nf) (case nf of None \<Rightarrow> [] | Some t \<Rightarrow> cstr t)"
  by (auto simp: has_text_def stream_unsupported_def split: option.split)

lemma streamed_text: "has_text hex (stream_value tm nf v) (shown tm nf hex v)"
proof (induction v)
  case (SCharArray m)
  show ?case by (auto simp: has_text_def stream_chars_def c_string_def split: option.splits)
next
  case (SMap kvs)
  have "list_all2 (rel_prod (has_text hex) (has_text hex))
      (map (map_prod (stream_value tm nf) (stream_value tm nf)) kvs)
      (map (map_prod (shown tm nf hex) (shown tm nf hex)) kvs)"
    using SMap by (auto simp: list.rel_map intro!: list.rel_refl_strong) 
  then show ?case by (simp only: stream_value.simps shown.simps) (rule map_text)
next
  case (SUnorderedMap kvs)
  show ?case
  proof (cases nf)
    case (Some t)
    then show ?thesis
      using array_map_text[of kvs hex "\<lambda>_. stream_unsupported nf" "\<lambda>_. cstr t"] has_text_unsupported[of hex nf] by simp
  qed (simp add: has_text_def)
next
  case (SDuration u n)
  have "nul_free (unit_suffix u)" by (cases u) simp_all
  then show ?case by (simp add: stream_duration_def literal_def)
next
  case (SVariant x)
  then show ?case by (cases x) (auto simp: stream_variant_def has_text_def)
next
  case (SOptional x)
  then show ?case by (cases x) (auto simp: stream_optional_def has_text_literal)
qed (unfold stream_value.simps shown.simps,
  auto intro!: array_map_text tuple_map_text simp: has_text_unsupported simp del: append.simps)

section \<open>Typing\<close>

text \<open>A value whose variants hold something and whose character arrays are terminated.\<close>

primrec healthy :: "streamable \<Rightarrow> bool" where
  "healthy (SValue v) = True"
| "healthy (SBuilder b) = True"
| "healthy (SCharArray m) = (NUL \<in> set m)"
| "healthy (SVector xs) = list_all id (map healthy xs)"
| "healthy (SMap kvs) = list_all (\<lambda>(a, b). a \<and> b) (map (map_prod healthy healthy) kvs)"
| "healthy (SUnorderedMap kvs) = True"
| "healthy (SSet xs) = list_all id (map healthy xs)"
| "healthy (SStdArray xs) = list_all id (map healthy xs)"
| "healthy (SCArray xs) = list_all id (map healthy xs)"
| "healthy (SSpan xs) = list_all id (map healthy xs)"
| "healthy (STuple xs) = list_all id (map healthy xs)"
| "healthy (SVariant x) = (case map_option healthy x of Some b \<Rightarrow> b | None \<Rightarrow> False)"
| "healthy (SOptional x) = (case map_option healthy x of Some b \<Rightarrow> b | None \<Rightarrow> True)"
| "healthy (STimePoint p) = True"
| "healthy (SDuration u n) = True"
| "healthy (SException m) = True"
| "healthy SOther = True"

lemma no_fail_overload: "nf \<noteq> None \<Longrightarrow> stream_value tm nf v \<noteq> NoOverload"
proof (induction v)
  case (SMap kvs)
  then show ?case by (simp add: overload_simps image_iff) (metis fst_conv fsts.intros prod.collapse snd_conv snds.intros)
next
  case (SVariant x)
  then show ?case by (cases x) (simp_all add: overload_simps)
next
  case (SOptional x)
  then show ?case by (cases x) (simp_all add: overload_simps)
qed (auto simp: overload_simps)

lemma typed_overload:
  "has_type v t \<Longrightarrow> compiles nf t \<Longrightarrow> stream_value tm nf v \<noteq> NoOverload"
proof (induction rule: has_type.induct)
  case (6 kvs tk tv)
  then show ?case by (fastforce simp: overload_simps)
next
  case (7 kvs tk tv)
  then show ?case by (auto simp: overload_simps stream_unsupported_def)
next
  case (12 xs ts)
  then have "list_all2 (\<lambda>x t. stream_value tm nf x \<noteq> NoOverload) xs ts"
    by (auto simp: list_all2_conv_all_nth list_all_length)
  then show ?case by (auto simp: overload_simps list_all2_conv_all_nth in_set_conv_nth)
next
  case (13 t ts x)
  then have "ts \<noteq> []" by auto
  with 13 show ?case by (simp add: overload_simps list_all_iff)
qed (auto simp: overload_simps)

text \<open>Types without a \<open>std::vector<bool>\<close> in them, which no mode can stream.\<close>

primrec no_bool_vector :: "cpp_type \<Rightarrow> bool" where
  "no_bool_vector TBool = True"
| "no_bool_vector TValue = True"
| "no_bool_vector TBuilder = True"
| "no_bool_vector TCharArray = True"
| "no_bool_vector (TVector t) = (t \<noteq> TBool \<and> no_bool_vector t)"
| "no_bool_vector (TMap tk tv) = (no_bool_vector tk \<and> no_bool_vector tv)"
| "no_bool_vector (TUnorderedMap tk tv) = True"
| "no_bool_vector (TSet t) = no_bool_vector t"
| "no_bool_vector (TStdArray t) = no_bool_vector t"
| "no_bool_vector (TCArray t) = no_bool_vector t"
| "no_bool_vector (TSpan t) = no_bool_vector t"
| "no_bool_vector (TTuple ts) = list_all id (map no_bool_vector ts)"
| "no_bool_vector (TVariant ts) = list_all id (map no_bool_vector ts)"
| "no_bool_vector (TOptional t) = no_bool_vector t"
| "no_bool_vector TTimePoint = True"
| "no_bool_vector (TDuration u) = True"
| "no_bool_vector TException = True"
| "no_bool_vector TOther = True"

lemma no_fail_compiles: "no_bool_vector t \<Longrightarrow> compiles (Some u) t"
  by (induction t) (auto simp: list_all_iff)

text \<open>Without a bad read and without an exception, what has an overload streams.\<close>

definition streams :: "'a outcome \<Rightarrow> bool" where
  "streams r \<longleftrightarrow> (\<exists>vs. r = Streams vs)"

lemma streams_simps [simp]:
  "streams (and_then a b) \<longleftrightarrow> streams a \<and> streams b" "streams (literal s)" "streams (Streams vs)"
  "\<not> streams NoOverload" "streams (stream_unsupported nf) \<longleftrightarrow> nf \<noteq> None"
  "streams (stream_chars m) \<longleftrightarrow> NUL \<in> set m"
  by (auto simp: streams_def and_then_Streams literal_def stream_unsupported_def
      stream_chars_def c_string_def split: option.splits)

lemma array_streams [simp]: "streams (streamArrayType os) \<longleftrightarrow> list_all streams os"
proof -
  have "streams (array_loop f os) \<longleftrightarrow> list_all streams os" for f
    by (induction os arbitrary: f) auto
  then show ?thesis by (simp add: streamArrayType_def)
qed

lemma tuple_streams [simp]: "streams (printTuple os) \<longleftrightarrow> list_all streams os"
proof -
  have "streams (tuple_loop n os) \<longleftrightarrow> list_all streams os" for n
    by (induction os arbitrary: n) auto
  then show ?thesis by (simp add: printTuple_def)
qed

lemma map_streams [simp]:
  "streams (streamMapType os) \<longleftrightarrow> list_all (\<lambda>(a, b). streams a \<and> streams b) os"
proof -
  have "streams (map_loop f os) \<longleftrightarrow> list_all (\<lambda>(a, b). streams a \<and> streams b) os" for f
    by (induction os arbitrary: f) auto
  then show ?thesis by (simp add: streamMapType_def)
qed

lemma healthy_streams:
  "healthy v \<Longrightarrow> stream_value tm nf v \<noteq> NoOverload \<Longrightarrow> streams (stream_value tm nf v)"
proof (induction v)
  case (SMap kvs)
  show ?case
    unfolding stream_value.simps map_streams list_all_iff
  proof (clarsimp simp: list_all_iff)
    fix k v assume kv: "(k, v) \<in> set kvs"
    with SMap.prems have "healthy k" "healthy v" "stream_value tm nf k \<noteq> NoOverload"
      "stream_value tm nf v \<noteq> NoOverload"
      by (force simp: overload_simps list_all_iff)+
    with SMap.IH[OF kv] show "streams (stream_value tm nf k) \<and> streams (stream_value tm nf v)"
      by (auto intro: fsts.intros snds.intros)
  qed
next
  case (SUnorderedMap kvs)
  then show ?case by (cases nf) (simp_all add: list_all_iff)
next
  case (SVariant x)
  then show ?case by (cases x) (auto simp: stream_variant_def)
next
  case (SOptional x)
  then show ?case by (cases x) (auto simp: stream_optional_def)
qed (auto simp: overload_simps list_all_iff image_iff)

section \<open>Statements\<close>

text \<open>What a statement shows, and the state of the hexadecimal switch along it.\<close>

fun shown_items :: "(int \<Rightarrow> string) \<Rightarrow> bool \<Rightarrow> item list \<Rightarrow> string" where
  "shown_items tm hex [] = []"
| "shown_items tm hex (Value t v # xs) = shown tm None hex v @ shown_items tm hex xs"
| "shown_items tm hex (Manipulator Endl # xs) = [LF] @ shown_items tm hex xs"
| "shown_items tm hex (Manipulator Hex # xs) = shown_items tm True xs"
| "shown_items tm hex (Manipulator Dec # xs) = shown_items tm False xs"
| "shown_items tm hex (Manipulator Ends # xs) = shown_items tm hex xs"
| "shown_items tm hex (Manipulator Flush # xs) = shown_items tm hex xs"

fun call_ok :: "entry_call \<Rightarrow> bool" where
  "call_ok (CallWrite v) = value_ok v"
| "call_ok _ = True"

lemma op_texts_writes:
  "list_all call_ok (map CallWrite vs) \<Longrightarrow> op_texts (calls_ops hex cs) = Some t \<Longrightarrow>
     op_texts (calls_ops hex (map CallWrite vs @ cs)) = Some (texts hex vs @ t)"
  by (induction vs) simp_all

lemma map_outcome_Streams:
  "map_outcome_calls r = Streams cs \<longleftrightarrow> (\<exists>vs. r = Streams vs \<and> cs = map CallWrite vs)"
  by (cases r) auto

lemma statement_text:
  "statement_calls tm None xs = Streams calls \<Longrightarrow> list_all call_ok calls \<Longrightarrow>
     op_texts (calls_ops hex calls) = Some (shown_items tm hex xs)"
proof (induction tm hex xs arbitrary: calls rule: shown_items.induct)
  case (2 tm hex ty v xs)
  then obtain vs cs where c: "stream_value tm None v = Streams vs" "calls = map CallWrite vs @ cs"
    "statement_calls tm None xs = Streams cs"
    by (auto simp: and_then_Streams map_outcome_Streams stream_typed_def split: if_splits)
  then have "texts hex vs = shown tm None hex v"
    using streamed_text[of hex tm None v] by (simp add: has_text_def)
  with 2 c op_texts_writes[of vs hex cs] show ?case by simp
qed (auto simp: and_then_Streams)

section \<open>Properties\<close>

text \<open>
  C20. A type-checked statement has a well-defined effect: a value of a type whose \<open>operator<<\<close>
  compiles never meets a missing overload, and if its variants hold a value and its character
  arrays are terminated, it is streamed to the end, showing exactly its text; a value of any other type
  does not compile, whatever it holds.
\<close>

theorem typed_values_stream:
  assumes "has_type v t" and "compiles nf t" and "healthy v"
  shows "(\<exists>vs. stream_value tm nf v = Streams vs \<and> texts hex vs = shown tm nf hex v \<and>
      stream_typed tm nf t v = Streams vs) \<and>
    (\<not> compiles nf' t' \<longrightarrow> stream_typed tm nf' t' v = NoOverload)"
  using healthy_streams[OF assms(3) typed_overload[OF assms(1,2)]] streamed_text[of hex tm nf v] assms(2)
  by (auto simp: streams_def has_text_def stream_typed_def)

theorem typed_values_stream_witness:
  "(\<exists>vs. stream_typed (\<lambda>_. []) None (TMap TValue (TOptional (TVector TValue)))
       (SMap [(SValue (VString ''k''), SOptional (Some (SVector [])))]) = Streams vs \<and>
     texts False vs = '' [ { k=[  ] } ] '') \<and>
   stream_typed (\<lambda>_. []) None (TUnorderedMap TValue TValue) (SMap [(SValue (VString ''k''), SOptional (Some (SVector [])))]) =
     NoOverload"
proof -
  have "has_type (SMap [(SValue (VString ''k''), SOptional (Some (SVector [])))])
      (TMap TValue (TOptional (TVector TValue)))"
    by (auto intro!: has_type.intros)
  from typed_values_stream[OF this, of None "\<lambda>_. []" False None "TUnorderedMap TValue TValue"] show ?thesis by auto
qed



text \<open>
  C19. What a statement with containers and manipulators prints: the terminal gets one line per
  enabled console with the text of every value in its turn, integers in hexadecimal exactly between
  \<open>std::hex\<close> and \<open>std::dec\<close>, also those inside containers.
\<close>

theorem streamed_statement_prints:
  assumes "m_bRegistered ctx" and "\<exists>c \<in> set (lc_contexts ctx). ctx_isEnabled sr w level c"
    and "\<forall>c \<in> set (lc_contexts ctx). terminal_only c"
    and "statement_calls put_time None xs = Streams calls" and "list_all call_ok calls"
    and "short_enough sr (fst (ask_thread sr w)) (LogInfo_ctor level path line function)
           (shown_items put_time False xs)"
  shows "\<exists>w'. log_with_context sr level path line function (pure_items calls) ctx w = Some (ctx, w') \<and>
    w_printed w' = w_printed w @ console_outputs sr w (fst (ask_thread sr w))
      (LogInfo_ctor level path line function) (shown_items put_time False xs) (lc_contexts ctx) @
      fatal_message level"
proof -
  note t = statement_text[OF assms(4,5), of False]
  from statement_total[OF assms(3) t assms(6)] obtain e e' w' where
    r: "createLog sr level path line function ctx w = Some (e, w)"
    "stream_items sr ctx (pure_items calls) e w = Some (e', w)" "entry_dtor sr ctx e' w = Some w'" by blast
  with enabled_statement[OF assms(1,2)] statement_prints[OF r t assms(6) terminal_only_dlt[OF assms(3)]] show ?thesis by simp
qed

lemma plain_suffix:
  "suffix_text None (LogInfo_ctor level ''a.c'' 7 ''f'') = '' | a.c:7 ''"
  by (simp add: suffix_text_def location_text_def LogInfo_ctor_def getFileName_def Let_def
      dec_text_def printf_eval)

theorem streamed_statement_prints_witness:
  "\<exists>calls w'. statement_calls (\<lambda>_. []) None
       [Manipulator Hex, Value (TTuple [TValue, TOptional TValue]) (STuple [SValue (VInt 31), SOptional None]), Manipulator Dec, Value TValue (SValue (VInt 31))] =
       Streams calls \<and>
     log_with_context sample_surroundings LvInfo ''a.c'' 7 ''f'' (pure_items calls)
       (sample_log_ctx [ConsoleCtx plain_ctx] True) sample_world = Some (sample_log_ctx [ConsoleCtx plain_ctx] True, w') \<and>
     w_printed w' = console_outputs sample_surroundings sample_world None (LogInfo_ctor LvInfo ''a.c'' 7 ''f'')
       ''{1F, {}}31'' [ConsoleCtx plain_ctx]"
proof -
  let ?xs = "[Manipulator Hex, Value (TTuple [TValue, TOptional TValue]) (STuple [SValue (VInt 31), SOptional None]), Manipulator Dec, Value TValue (SValue (VInt 31))]"
  let ?ctx = "sample_log_ctx [ConsoleCtx plain_ctx] True"
  obtain calls where c: "statement_calls (\<lambda>_. []) None ?xs = Streams calls" "list_all call_ok calls"
    by (simp add: printTuple_def literal_def stream_optional_def stream_typed_def)
  have th: "fst (ask_thread sample_surroundings sample_world) = None"
    by (simp add: ask_thread_def sample_world_def process_init_def)
  have sh: "shown_items (\<lambda>_. []) False ?xs = ''{1F, {}}31''"
    by (simp add: int_value_text_def dec_text_def hex_text_def to_unsigned_def printf_eval)
  have "short_enough sample_surroundings (fst (ask_thread sample_surroundings sample_world))
      (LogInfo_ctor LvInfo ''a.c'' 7 ''f'') (shown_items (\<lambda>_. []) False ?xs)"
    unfolding sh th by (simp add: short_enough_def sample_surroundings_def plain_suffix)
  from streamed_statement_prints[OF _ _ _ c this, of ?ctx] plain_enabled(1) th sh c show ?thesis
    by (auto simp: sample_log_ctx_def fatal_message_def sample_world_def)
qed

text \<open>A vector of \<open>int\<close> as the DLT back end sees it: the arguments, and how many bytes they take.\<close>

definition int_arg :: "32 word \<Rightarrow> dlt_arg" where
  "int_arg v = DltValue (DLT_TYPE_INFO_SINT dlt_documented OR DLT_TYLE_32BIT dlt_documented) (le_nat 4 (unat v))"

fun vector_args :: "32 word list \<Rightarrow> dlt_arg list" where
  "vector_args [] = [DltString ''[ '', DltString '' ]'']"
| "vector_args (v # vs) = [DltString ''[ '', int_arg v] @
     concat (map (\<lambda>v. [DltString '', '', int_arg v]) vs) @ [DltString '' ]'']"

fun vector_values :: "32 word list \<Rightarrow> log_value list" where
  "vector_values [] = [VView ''[ '', VView '' ]'']"
| "vector_values (v # vs) = [VView ''[ '', VInt v] @
     concat (map (\<lambda>v. [VView '', '', VInt v]) vs) @ [VView '' ]'']"

lemma vector_streams:
  "stream_value tm nf (SVector (map (SValue \<circ> VInt) vs)) = Streams (vector_values vs)"
proof -
  have loop: "array_loop False (map (\<lambda>v. Streams [VInt v]) vs) =
      Streams (concat (map (\<lambda>v. [VView '', '', VInt v]) vs))" for vs
    by (induction vs) (simp_all add: literal_def)
  then show ?thesis
    by (cases vs) (simp_all add: streamArrayType_def literal_def comp_def)
qed

lemma vector_args_of:
  "map (arg_of dlt_documented hex) (vector_values vs) = map Some (vector_args vs)"
proof -
  have "map (arg_of dlt_documented hex) (concat (map (\<lambda>v. [VView '', '', VInt v]) vs)) =
      map Some (concat (map (\<lambda>v. [DltString '', '', int_arg v]) vs))" for vs
    by (induction vs) (simp_all add: int_arg_def)
  then show ?thesis by (cases vs) (simp_all add: int_arg_def)
qed

lemma vector_args_size:
  assumes "vs \<noteq> []"
  shows "length (vector_args vs) = 2 * length vs + 1"
    and "length (enc_args dlt_documented (vector_args vs)) = 17 * length vs + 9"
    and "no_empty (vector_args vs) = vector_args vs"
proof -
  obtain v ws where vs: "vs = v # ws" using assms by (cases vs) auto
  let ?rest = "\<lambda>ws. concat (map (\<lambda>v. [DltString '', '', int_arg v]) ws)"
  have i: "length (enc_arg dlt_documented (int_arg w)) = 8" "int_arg w \<noteq> DltString []" for w
    by (simp_all add: int_arg_def length_enc_arg)
  have r: "length (?rest ws) = 2 * length ws"
    "length (enc_args dlt_documented (?rest ws)) = 17 * length ws" "no_empty (?rest ws) = ?rest ws" for ws
    by (induction ws) (simp_all add: enc_args_Cons enc_args_simps length_enc_arg i)
  show "length (vector_args vs) = 2 * length vs + 1"
    "length (enc_args dlt_documented (vector_args vs)) = 17 * length vs + 9"
    "no_empty (vector_args vs) = vector_args vs"
    by (simp_all add: vs r i enc_args_Cons enc_args_simps length_enc_arg)
qed

text \<open>
  C21. A vector in a DLT message: up to 962 integers, what is streamed is the bracket, every element in
  order with a separator between them, and the bracket, and a reader of the payload gets exactly these,
  two arguments per element and one more; but the argument count of the header has 8 bits and wraps: from
  128 elements on it no longer tells how many arguments the payload holds.
\<close>

theorem vector_argument_count_wraps:
  assumes "vs \<noteq> []" and "length vs \<le> 962"
  shows "stream_typed tm None (TVector TValue) (SVector (map (SValue \<circ> VInt) vs)) = Streams (vector_values vs) \<and>
    (\<exists>d. dlt_run dlt_documented (map (OpWrite hex) (vector_values vs)) dlt_data_new = Some d \<and> \<not> dd_isFull d \<and>
    dec_args (dd_content d) = Some (vector_args vs) \<and> length (vector_args vs) = 2 * length vs + 1 \<and>
    unat (dd_argsCount d) = (2 * length vs + 1) mod 256 \<and>
    (128 \<le> length vs \<longrightarrow> unat (dd_argsCount d) < 2 * length vs + 1))"
proof -
  have fits: "length (enc_args dlt_documented []) + length (enc_args dlt_documented (vector_args vs)) < maxContentSize"
    using assms by (simp add: vector_args_size size_constants enc_args_simps)
  have run: "spec_run dlt_documented (map (OpWrite hex) (vector_values vs)) ([], False) = Some (vector_args vs, False)"
    using spec_run_fits[OF vector_args_of fits] by (simp add: vector_args_size(3)[OF assms(1)])
  have "dlt_rel dlt_documented dlt_data_new ([], False)"
    by (rule dlt_new_rel) (simp_all add: dlt_data_new_def)
  from dlt_run_rel[OF this run] obtain d where
    d: "dlt_run dlt_documented (map (OpWrite hex) (vector_values vs)) dlt_data_new = Some d"
    "dlt_rel dlt_documented d (vector_args vs, False)" by blast
  have "dec_args (enc_args dlt_documented (vector_args vs)) = Some (vector_args vs)"
    using spec_run_wf[OF run] by (intro dec_enc_args) simp
  with d(2) have "dec_args (dd_content d) = Some (vector_args vs)" "\<not> dd_isFull d"
    "dd_argsCount d = word_of_nat (length (vector_args vs))"
    by (simp_all add: dlt_rel_def)
  moreover from this(3) have "unat (dd_argsCount d) = (2 * length vs + 1) mod 256"
    by (simp only: vector_args_size(1)[OF assms(1)] unat_of_nat) simp
  moreover have "n mod 256 < n" if "256 \<le> n" for n :: nat
    by (rule less_le_trans[OF mod_less_divisor that]) simp
  ultimately show ?thesis
    using d(1) vector_streams[of tm None vs] vector_args_size(1)[OF assms(1)]
    by (intro conjI exI[of _ d]) (auto simp: stream_typed_def)
qed

theorem vector_argument_count_wraps_witness:
  "stream_typed (\<lambda>_. []) None (TVector TValue) (SVector (map (SValue \<circ> VInt) (replicate 128 7))) =
     Streams (vector_values (replicate 128 7)) \<and>
   (\<exists>d. dlt_run dlt_documented (map (OpWrite False) (vector_values (replicate 128 7))) dlt_data_new = Some d \<and>
     dec_args (dd_content d) = Some (vector_args (replicate 128 7)) \<and> unat (dd_argsCount d) = 1)"
  using vector_argument_count_wraps[of "replicate 128 7" "\<lambda>_. []" False]
  by (auto simp del: vector_values.simps vector_args.simps map_replicate)

end
