(* ===== verification/Expressions.thy ===== *)
theory Expressions
  imports Log_Macros Streaming "HOL-Library.Multiset"
begin

text \<open>
  Streamed expressions with side effects: \<open>log_info() << f() << g()\<close> calls \<open>f\<close> and \<open>g\<close> while the
  entry is open, and they may print, change the application's state or log themselves. The chain of
  calls on an entry (\<open><<\<close>, \<open>write\<close>, \<open>writeFormatted\<close>, \<open>noFail\<close>) is the datatype \<open>part\<close>.
\<close>

section \<open>Running the expressions\<close>

type_synonym items = "(world \<Rightarrow> (entry_call \<times> world) option) list"

fun run_items :: "items \<Rightarrow> world \<Rightarrow> (entry_call list \<times> world) option" where
  "run_items [] w = Some ([], w)"
| "run_items (x # xs) w = do {
     (call, w) \<leftarrow> x w;
     (calls, w) \<leftarrow> run_items xs w;
     Some (call # calls, w) }"

text \<open>An expression that leaves the global level of the consoles alone.\<close>

definition keeps_console :: "(world \<Rightarrow> (entry_call \<times> world) option) \<Rightarrow> bool" where
  "keeps_console x \<longleftrightarrow> (\<forall>w c w'. x w = Some (c, w') \<longrightarrow> w_console w' = w_console w)"

lemma run_items_console:
  "list_all keeps_console xs \<Longrightarrow> run_items xs w = Some (calls, w') \<Longrightarrow> w_console w' = w_console w"
proof (induction xs arbitrary: w calls)
  case (Cons x xs)
  then obtain c w1 cs where "x w = Some (c, w1)" "run_items xs w1 = Some (cs, w')"
    by (auto split: bind_splits)
  with Cons show ?case by (auto simp: keeps_console_def)
qed simp

text \<open>Writing to an entry depends on the world only through that level.\<close>

lemma data_isEnabled_console:
  "w_console w' = w_console w \<Longrightarrow> data_isEnabled w' level cd = data_isEnabled w level cd"
  by (cases "(w, level, cd)" rule: data_isEnabled.cases) simp_all

lemma data_do_console:
  "w_console w' = w_console w \<Longrightarrow> data_do sr w' level op cd = data_do sr w level op cd"
  by (cases "(sr, w, level, op, cd)" rule: data_do.cases) simp_all

lemma for_each_do_console:
  "w_console w' = w_console w \<Longrightarrow> for_each_do sr w' level op cds = for_each_do sr w level op cds"
  by (induction cds) (auto simp: data_isEnabled_console[of w' w] data_do_console[of w' w])

lemma entry_do_console:
  "w_console w' = w_console w \<Longrightarrow> entry_do sr ctx w' call e = entry_do sr ctx w call e"
  by (cases call) (simp_all add: for_each_do_console[of w' w])

lemma stream_pure_console:
  "w_console w' = w_console w \<Longrightarrow> stream_items sr ctx (pure_items calls) e w' =
     map_option (\<lambda>(e, _). (e, w')) (stream_items sr ctx (pure_items calls) e w)"
proof (induction calls arbitrary: e)
  case (Cons call calls)
  then show ?case
    by (cases "entry_do sr ctx w call e") (simp_all add: entry_do_console[OF Cons.prems])
qed simp

lemma stream_items_effects:
  "list_all keeps_console xs \<Longrightarrow> stream_items sr ctx xs e w = do {
     (calls, w') \<leftarrow> run_items xs w;
     (e, _) \<leftarrow> stream_items sr ctx (pure_items calls) e w;
     Some (e, w') }"
proof (induction xs arbitrary: e w)
  case (Cons x xs)
  show ?case
  proof (cases "x w")
    case (Some r)
    then obtain c w1 where x: "x w = Some (c, w1)" by (cases r) auto
    with Cons.prems have w1: "w_console w1 = w_console w" by (auto simp: keeps_console_def)
    have ed: "entry_do sr ctx w1 c e = entry_do sr ctx w c e" by (rule entry_do_console[OF w1])
    show ?thesis
    proof (cases "entry_do sr ctx w c e")
      case None
      then show ?thesis by (cases "run_items xs w1") (auto simp: x ed)
    next
      case (Some e1)
      with Cons show ?thesis
        by (auto simp: x ed stream_pure_console[OF w1] split: bind_splits prod.splits)
    qed
  qed simp
qed simp

lemma data_init_terminal:
  "terminal_only c \<Longrightarrow> w_console w' = w_console w \<Longrightarrow>
     data_init sr li c w' = map_option (\<lambda>(d, _). (d, w')) (data_init sr li c w)"
  by (cases c) (auto simp: map_option_case split: option.splits bind_splits)

lemma data_init_terminal_same:
  "terminal_only c \<Longrightarrow> data_init sr li c w = Some (d, w') \<Longrightarrow> w' = w"
  by (cases c) (auto split: bind_splits)

lemma for_each_init_terminal:
  "\<forall>c \<in> set cs. terminal_only c \<Longrightarrow> w_console w' = w_console w \<Longrightarrow>
     for_each_init sr li cs w' = map_option (\<lambda>(d, _). (d, w')) (for_each_init sr li cs w)"
proof (induction cs)
  case (Cons c cs)
  show ?case
  proof (cases "data_init sr li c w")
    case (Some r)
    with data_init_terminal_same[of c sr li w "fst r" "snd r"] Cons.prems
    have "data_init sr li c w = Some (fst r, w)" by (cases r) auto
    with Cons show ?thesis
      by (cases "for_each_init sr li cs w") (simp_all add: data_init_terminal[of c w' w] split: prod.split)
  qed (use Cons.prems in \<open>simp add: data_init_terminal[of c w' w]\<close>)
qed simp

lemma createLog_terminal:
  assumes "\<forall>c \<in> set (lc_contexts ctx). terminal_only c" and "w_console w' = w_console w"
  shows "createLog sr level path line function ctx w' =
    map_option (\<lambda>(e, _). (e, w')) (createLog sr level path line function ctx w)"
  unfolding createLog_def LogEntry_ctor_def Let_def for_each_init_terminal[OF assms]
  by (cases "for_each_init sr (LogInfo_ctor level path line function) (lc_contexts ctx) w") auto

lemma ctx_isEnabled_terminal:
  "terminal_only c \<Longrightarrow> w_console w' = w_console w \<Longrightarrow>
     ctx_isEnabled sr w' level c = ctx_isEnabled sr w level c"
  by (cases c) simp_all

lemma any_terminal_enabled:
  assumes "\<forall>c \<in> set cs. terminal_only c" and "w_console w' = w_console w"
  shows "(\<exists>c \<in> set cs. ctx_isEnabled sr w' level c) = (\<exists>c \<in> set cs. ctx_isEnabled sr w level c)"
  using assms(1) ctx_isEnabled_terminal[OF _ assms(2)] by blast

text \<open>A log statement is itself such an expression, whatever its back ends.\<close>

lemma data_dtor_keeps:
  "data_dtor sr cd li w = Some (li', w') \<Longrightarrow> w_console w' = w_console w \<and> w_process w' = w_process w \<and>
     w_app w' = w_app w"
  by (cases "(sr, cd, li, w)" rule: data_dtor.cases)
     (auto simp: ask_thread_def Let_def split: bind_splits if_splits prod.splits option.splits)

lemma for_each_dtor_keeps:
  "for_each_dtor sr cds li w = Some (li', w') \<Longrightarrow> w_console w' = w_console w \<and> w_process w' = w_process w \<and>
     w_app w' = w_app w"
  by (induction cds arbitrary: li w) (auto split: bind_splits dest!: data_dtor_keeps)

lemma entry_dtor_keeps:
  "entry_dtor sr ctx e w = Some w' \<Longrightarrow> w_console w' = w_console w \<and> w_process w' = w_process w \<and>
     w_app w' = w_app w"
  by (auto simp: entry_dtor_def split: bind_splits option.splits dest!: for_each_dtor_keeps)

lemma data_init_keeps:
  "data_init sr li c w = Some (d, w') \<Longrightarrow> w_console w' = w_console w \<and> w_process w' = w_process w \<and>
     w_app w' = w_app w"
  by (cases c) (auto split: bind_splits prod.splits)

lemma for_each_init_keeps:
  "for_each_init sr li cs w = Some (ds, w') \<Longrightarrow> w_console w' = w_console w \<and> w_process w' = w_process w \<and>
     w_app w' = w_app w"
  by (induction cs arbitrary: w ds) (fastforce dest!: data_init_keeps split: bind_splits)+

lemma ctx_register_keeps: "ctx_register sr c w = Some w' \<Longrightarrow> w_console w' = w_console w"
  by (cases c) (auto simp: Let_def split: bind_splits)

lemma ctx_register_all_keeps: "ctx_register_all sr cs w = Some w' \<Longrightarrow> w_console w' = w_console w"
  by (induction cs arbitrary: w) (auto split: bind_splits dest!: ctx_register_keeps)

lemma statement_keeps:
  assumes "log_with_context sr level path line function xs ctx w = Some (ctx', w')"
    and "list_all keeps_console xs"
  shows "w_console w' = w_console w"
proof -
  from assms(1) obtain en ctx1 w1 where c: "log_isEnabled sr level ctx w = Some (en, ctx1, w1)"
    "(if en then do {
       (e, w) \<leftarrow> createLog sr level path line function ctx1 w1;
       (e, w) \<leftarrow> stream_items sr ctx1 xs e w;
       w \<leftarrow> entry_dtor sr ctx1 e w;
       Some (ctx1, w) } else Some (ctx1, w1)) = Some (ctx', w')"
    by (auto simp: log_with_context_def split: bind_splits)
  from c(1) have 1: "w_console w1 = w_console w"
    by (auto simp: log_isEnabled_def checkContext_def split: bind_splits if_splits
        dest!: ctx_register_all_keeps)
  show ?thesis
  proof (cases en)
    case True
    with c(2) obtain e w2 e' w3 where r: "createLog sr level path line function ctx1 w1 = Some (e, w2)"
      "stream_items sr ctx1 xs e w2 = Some (e', w3)" "entry_dtor sr ctx1 e' w3 = Some w'"
      by (auto split: bind_splits)
    have "w_console w2 = w_console w1"
      using r(1) by (auto simp: createLog_def LogEntry_ctor_def Let_def split: bind_splits dest!: for_each_init_keeps)
    moreover have "w_console w3 = w_console w2"
      using r(2) run_items_console[OF assms(2)]
      by (auto simp: stream_items_effects[OF assms(2)] split: bind_splits)
    moreover have "w_console w' = w_console w3"
      using entry_dtor_keeps[OF r(3)] by simp
    ultimately show ?thesis using 1 by simp
  qed (use c(2) 1 in simp)
qed

lemma nested_keeps_console:
  assumes "list_all keeps_console xs"
  shows "keeps_console (\<lambda>w. do {
    (_, w) \<leftarrow> log_with_context sr level path line function xs ctx w; Some (call, w) })"
  using statement_keeps[OF _ assms] by (auto simp: keeps_console_def split: bind_splits)

lemma sample_statement:
  assumes "w_console w = console_globals_init" and "w_process w = process_init" and "level \<in> {LvInfo, LvFatal}"
  shows "\<exists>w'. log_with_context sample_surroundings level ''a.c'' 7 fn (pure_items [CallWrite (VBool True)])
      (sample_log_ctx [ConsoleCtx plain_ctx] True) w = Some (sample_log_ctx [ConsoleCtx plain_ctx] True, w') \<and>
    w_console w' = console_globals_init \<and> w_process w' = process_init \<and>
    map fst (w_printed w') = map fst (w_printed w) @ Stdout # map fst (fatal_message level)"
proof -
  let ?ctx = "sample_log_ctx [ConsoleCtx plain_ctx] True" and ?sr = sample_surroundings
  let ?calls = "[CallWrite (VBool True)]" and ?li = "LogInfo_ctor level ''a.c'' 7 fn"
  have ctx: "m_bRegistered ?ctx" "\<forall>c \<in> set (lc_contexts ?ctx). terminal_only c"
    "\<exists>c \<in> set (lc_contexts ?ctx). ctx_isEnabled ?sr w level c"
    using plain_enabled assms by (auto simp: sample_log_ctx_def sample_world_def)
  have t: "op_texts (calls_ops False ?calls) = Some ''true''" by simp
  have th: "fst (ask_thread ?sr w) = None" using assms(2) by (simp add: ask_thread_def process_init_def)
  have short: "short_enough ?sr (fst (ask_thread ?sr w)) ?li ''true''"
    unfolding th by (simp add: short_enough_def sample_surroundings_def suffix_text_def location_text_def
        LogInfo_ctor_def getFileName_def Let_def dec_text_def printf_eval)
  obtain e e' w' where r: "createLog ?sr level ''a.c'' 7 fn ?ctx w = Some (e, w)"
    "stream_items ?sr ?ctx (pure_items ?calls) e w = Some (e', w)" "entry_dtor ?sr ?ctx e' w = Some w'"
    using statement_total[OF ctx(2) t short] by blast
  have "w_printed w' = w_printed w @ console_outputs ?sr w (fst (ask_thread ?sr w)) ?li ''true'' (lc_contexts ?ctx) @
      fatal_message level"
    using statement_prints[OF r t short terminal_only_dlt[OF ctx(2)]] by blast
  moreover have "console_outputs ?sr w None ?li ''true'' (lc_contexts ?ctx) = [console_output ?sr None ?li ''true'' plain_ctx]"
    using ctx(3) by (simp add: sample_log_ctx_def)
  moreover have "fst (console_output ?sr None ?li ''true'' plain_ctx) = Stdout"
    using assms(3) by (auto simp: console_output_def console_getFile_def)
  moreover have "log_with_context ?sr level ''a.c'' 7 fn (pure_items ?calls) ?ctx w = Some (?ctx, w')"
    unfolding enabled_statement[OF ctx(1,3)] using r by (simp del: stream_items.simps list.map)
  ultimately show ?thesis using th assms(1,2) entry_dtor_keeps[OF r(3)] by (auto simp del: stream_items.simps)
qed

section \<open>Chains of calls\<close>

text \<open>
  What follows \<open>log_info()\<close> in a program, part by part: \<open><<\<close> with a value or a manipulator, \<open><<\<close> with a
  call of a function of the application (which reads and changes the application's variables and may
  print to the standard output), \<open>write\<close> of several values, \<open>writeFormatted\<close>, and \<open>noFail\<close>. The
  values of one \<open>write\<close> are written by calls that are the arguments of another call (\<open>for_each_argument\<close>),
  whose order the language leaves to the compiler: \<open>WriteArgs\<close> carries that order as the rank of each
  argument, and \<open>in_order\<close> is the order in which the writes happen, always a permutation of the values (one
  call of \<open>write\<close> is taken to have the same order for each of its back ends). The companion that \<open>noFail\<close> hands out has no \<open>writeFormatted\<close>, and its \<open>write\<close> takes one value and
  returns nothing.
\<close>

type_synonym app_call = "(string \<Rightarrow> int) \<Rightarrow> log_value \<times> string \<times> (string \<Rightarrow> int)"

datatype part = Put item | PutCall app_call | WriteArgs "nat \<Rightarrow> nat" "log_value list"
  | WriteFormatted string "c_arg list" | NoFail string

definition in_order :: "(nat \<Rightarrow> nat) \<Rightarrow> 'a list \<Rightarrow> 'a list" where
  "in_order rank vs = map snd (sort_key (rank \<circ> fst) (enumerate 0 vs))"

definition app_item :: "app_call \<Rightarrow> world \<Rightarrow> (entry_call \<times> world) option" where
  "app_item f w = (let (v, out, vars) = f (w_app w)
     in Some (CallWrite v, w\<lparr>w_app := vars,
          w_printed := w_printed w @ (if out = [] then [] else [(Stdout, out)])\<rparr>))"

abbreviation pure_item :: "entry_call \<Rightarrow> world \<Rightarrow> (entry_call \<times> world) option" where
  "pure_item call \<equiv> \<lambda>w. Some (call, w)"

fun chain :: "(int \<Rightarrow> string) \<Rightarrow> string option \<Rightarrow> part list \<Rightarrow>
    (world \<Rightarrow> (entry_call \<times> world) option) outcome" where
  "chain put_time nf [] = Streams []"
| "chain put_time nf (Put x # ps) =
     and_then (map_outcome pure_item (item_calls put_time nf x)) (chain put_time nf ps)"
| "chain put_time nf (PutCall f # ps) = and_then (Streams [app_item f]) (chain put_time nf ps)"
| "chain put_time nf (WriteArgs rank vs # ps) =
     (if nf = None \<or> length vs = 1 \<and> ps = []
      then and_then (Streams (map (\<lambda>v. pure_item (CallWrite v)) (in_order rank vs))) (chain put_time nf ps)
      else NoOverload)"
| "chain put_time nf (WriteFormatted f args # ps) =
     (if nf = None then and_then (Streams [pure_item (CallFormatted f args)]) (chain put_time nf ps)
      else NoOverload)"
| "chain put_time nf (NoFail t # ps) =
     (if nf = None then chain put_time (noFail (Some t)) ps else NoOverload)"

text \<open>
  The specification: the text a chain shows, what its functions print meanwhile, and the
  application's variables afterwards; \<open>None\<close> when a text is undefined.
\<close>

fun part_hex :: "bool \<Rightarrow> part \<Rightarrow> bool" where
  "part_hex hex (Put (Manipulator Hex)) = True"
| "part_hex hex (Put (Manipulator Dec)) = False"
| "part_hex hex _ = hex"

fun part_mode :: "string option \<Rightarrow> part \<Rightarrow> string option" where
  "part_mode nf (NoFail t) = Some t"
| "part_mode nf _ = nf"

definition within :: "log_value list \<Rightarrow> string \<Rightarrow> string option" where
  "within vs t = (if list_all value_ok vs then Some t else None)"

fun part_text :: "(int \<Rightarrow> string) \<Rightarrow> string option \<Rightarrow> bool \<Rightarrow> (string \<Rightarrow> int) \<Rightarrow> part \<Rightarrow> string option" where
  "part_text tm nf hex vars (Put (Value ty v)) = (case stream_typed tm nf ty v of
     Streams vs \<Rightarrow> within vs (shown tm nf hex v) | _ \<Rightarrow> None)"
| "part_text tm nf hex vars (Put (Manipulator m)) = Some (if m = Endl then [LF] else [])"
| "part_text tm nf hex vars (PutCall f) = within [fst (f vars)] (value_text hex (fst (f vars)))"
| "part_text tm nf hex vars (WriteArgs rank vs) = within vs (texts hex (in_order rank vs))"
| "part_text tm nf hex vars (WriteFormatted f args) = op_text (OpFormatted f args)"
| "part_text tm nf hex vars (NoFail t) = Some []"

fun part_prints :: "(string \<Rightarrow> int) \<Rightarrow> part \<Rightarrow> string list" where
  "part_prints vars (PutCall f) = (let (v, out, vars) = f vars in if out = [] then [] else [out])"
| "part_prints vars _ = []"

fun part_vars :: "(string \<Rightarrow> int) \<Rightarrow> part \<Rightarrow> string \<Rightarrow> int" where
  "part_vars vars (PutCall f) = snd (snd (f vars))"
| "part_vars vars _ = vars"

fun chain_text :: "(int \<Rightarrow> string) \<Rightarrow> string option \<Rightarrow> bool \<Rightarrow> (string \<Rightarrow> int) \<Rightarrow> part list \<Rightarrow> string option" where
  "chain_text tm nf hex vars [] = Some []"
| "chain_text tm nf hex vars (p # ps) = do {
     t \<leftarrow> part_text tm nf hex vars p;
     u \<leftarrow> chain_text tm (part_mode nf p) (part_hex hex p) (part_vars vars p) ps;
     Some (t @ u) }"

fun chain_prints :: "(string \<Rightarrow> int) \<Rightarrow> part list \<Rightarrow> string list" where
  "chain_prints vars [] = []"
| "chain_prints vars (p # ps) = part_prints vars p @ chain_prints (part_vars vars p) ps"

fun chain_vars :: "(string \<Rightarrow> int) \<Rightarrow> part list \<Rightarrow> string \<Rightarrow> int" where
  "chain_vars vars [] = vars"
| "chain_vars vars (p # ps) = chain_vars (part_vars vars p) ps"

text \<open>Whatever the compiler's order is, every argument is written once.\<close>

lemma mset_in_order [simp]: "mset (in_order rank vs) = mset vs"
proof -
  have "mset (in_order rank vs) = image_mset snd (mset (enumerate 0 vs))" by (simp add: in_order_def)
  also have "\<dots> = mset (map snd (enumerate 0 vs))" by (simp only: mset_map)
  finally show ?thesis by simp
qed

lemma set_in_order [simp]: "set (in_order rank vs) = set vs"
  by (metis mset_in_order set_mset_mset)

lemma length_in_order [simp]: "length (in_order rank vs) = length vs"
  by (metis mset_in_order size_mset)

lemma in_order_single [simp]: "in_order rank [v] = [v]"
  by (simp add: in_order_def)

lemma insort_key_map: "insort_key k (g x) (map g xs) = map g (insort_key (\<lambda>x. k (g x)) x xs)"
  by (induction xs) simp_all

lemma sort_key_map: "sort_key k (map g xs) = map g (sort_key (k \<circ> g) xs)"
  by (induction xs) (simp_all add: insort_key_map comp_def)

lemma map_in_order: "map f (in_order rank vs) = in_order rank (map f vs)"
proof -
  have "enumerate 0 (map f vs) = map (apsnd f) (enumerate 0 vs)"
    by (intro nth_equalityI) (simp_all add: nth_enumerate_eq)
  then show ?thesis by (simp add: in_order_def sort_key_map comp_def)
qed

lemma length_concat_in_order: "length (concat (in_order rank ts)) = length (concat ts)"
proof -
  have "mset (map length (in_order rank ts)) = mset (map length ts)" by (simp only: mset_map mset_in_order)
  then show ?thesis unfolding length_concat by (metis sum_mset_sum_list)
qed

lemma texts_in_order: "texts hex (in_order rank vs) = concat (in_order rank (map (value_text hex) vs))"
  by (simp add: texts_def map_in_order)

lemma within_in_order [simp]: "within (in_order rank vs) t = within vs t"
  by (simp add: within_def list_all_iff)

lemma pure_outcome_Streams [simp]: "map_outcome f r = Streams ys \<longleftrightarrow> (\<exists>xs. r = Streams xs \<and> ys = map f xs)"
  by (cases r) auto

lemma run_pure [simp]: "run_items (pure_items cs @ xs) w =
    map_option (\<lambda>(calls, w'). (cs @ calls, w')) (run_items xs w)"
  by (induction cs) (auto simp: map_option_case split: option.splits prod.splits)

lemma run_writes [simp]: "run_items (map (pure_item \<circ> CallWrite) vs @ xs) w =
    map_option (\<lambda>(calls, w'). (map CallWrite vs @ calls, w')) (run_items xs w)"
  using run_pure[of "map CallWrite vs" xs w] by simp

lemma chain_keeps_console: "chain tm nf ps = Streams xs \<Longrightarrow> list_all keeps_console xs"
proof (induction tm nf ps arbitrary: xs rule: chain.induct)
  case (3 tm nf f ps)
  then show ?case
    by (auto simp: and_then_Streams keeps_console_def app_item_def Let_def split: prod.splits)
qed (auto simp: and_then_Streams list_all_iff keeps_console_def split: if_splits)

definition after_parts :: "part list \<Rightarrow> world \<Rightarrow> world" where
  "after_parts ps w = w\<lparr>w_app := chain_vars (w_app w) ps,
     w_printed := w_printed w @ map (Pair Stdout) (chain_prints (w_app w) ps)\<rparr>"

lemma after_parts_simps [simp]:
  "after_parts [] w = w"
  "w_console (after_parts ps w) = w_console w" "w_process (after_parts ps w) = w_process w"
  "w_aborted (after_parts ps w) = w_aborted w" "w_app (after_parts ps w) = chain_vars (w_app w) ps"
  by (simp_all add: after_parts_def)

lemma after_parts_Cons: "after_parts (p # ps) w = after_parts ps (after_parts [p] w)"
  by (simp add: after_parts_def)

lemma op_texts_append: "op_texts (xs @ ys) = do { t \<leftarrow> op_texts xs; u \<leftarrow> op_texts ys; Some (t @ u) }"
  by (induction xs) (auto split: bind_splits)

lemma calls_ops_writes: "calls_ops hex (map CallWrite vs @ cs) = map (OpWrite hex) vs @ calls_ops hex cs"
  by (induction vs) simp_all

lemma op_texts_within: "op_texts (map (OpWrite hex) vs) = within vs (texts hex vs)"
  by (induction vs) (auto simp: within_def)

text \<open>One part: the calls it makes, and the world it leaves.\<close>

lemma part_runs:
  assumes "chain tm nf (p # ps) = Streams xs" and "part_text tm nf hex (w_app w) p = Some t"
  shows "\<exists>cs zs. chain tm (part_mode nf p) ps = Streams zs \<and>
    run_items xs w = map_option (\<lambda>(calls, w'). (cs @ calls, w')) (run_items zs (after_parts [p] w)) \<and>
    (\<forall>calls u. op_texts (calls_ops (part_hex hex p) calls) = Some u \<longrightarrow>
       op_texts (calls_ops hex (cs @ calls)) = Some (t @ u))"
proof (cases p)
  case (Put x)
  then obtain cs zs where x: "item_calls tm nf x = Streams cs" "chain tm nf ps = Streams zs"
    "xs = pure_items cs @ zs"
    using assms(1) by (auto simp: and_then_Streams)
  show ?thesis
  proof (cases x)
    case (Value ty v)
    with x(1) obtain vs where vs: "stream_typed tm nf ty v = Streams vs" "stream_value tm nf v = Streams vs"
      "cs = map CallWrite vs"
      by (auto simp: map_outcome_Streams stream_typed_def split: if_splits)
    have "op_texts (map (OpWrite hex) vs) = Some t"
      using assms(2) Put Value vs streamed_text[of hex tm nf v]
      by (simp add: op_texts_within has_text_def)
    with x Put Value vs show ?thesis
      by (intro exI[of _ cs] exI[of _ zs]) (simp add: after_parts_def calls_ops_writes op_texts_append)
  next
    case (Manipulator m)
    with x Put assms(2) show ?thesis
      by (intro exI[of _ cs] exI[of _ zs]) (cases m; auto simp: after_parts_def split: if_splits)
  qed
next
  case (PutCall f)
  obtain v out vars where f: "f (w_app w) = (v, out, vars)" by (cases "f (w_app w)") auto
  with PutCall assms show ?thesis
    by (auto simp: and_then_Streams app_item_def after_parts_def within_def map_option_case
        split: if_splits option.splits intro!: exI[of _ "[CallWrite v]"])
next
  case (WriteArgs rank vs)
  with assms(1) obtain zs where zs: "chain tm nf ps = Streams zs" "xs = pure_items (map CallWrite (in_order rank vs)) @ zs"
    by (auto simp: and_then_Streams comp_def split: if_splits)
  with WriteArgs assms(2) show ?thesis
    by (intro exI[of _ "map CallWrite (in_order rank vs)"] exI[of _ zs])
       (simp add: after_parts_def calls_ops_writes op_texts_append op_texts_within del: map_map)
next
  case (WriteFormatted f args)
  with assms(1) obtain zs where "chain tm nf ps = Streams zs" "xs = pure_item (CallFormatted f args) # zs"
    by (auto simp: and_then_Streams split: if_splits)
  with WriteFormatted assms(2) show ?thesis
    by (intro exI[of _ "[CallFormatted f args]"] exI[of _ zs])
       (auto simp: after_parts_def map_option_case split: option.splits)
next
  case (NoFail u)
  with assms show ?thesis
    by (auto simp: noFail_def enableUnsupportedTypes_def after_parts_def map_option_case split: if_splits option.splits
        intro!: exI[of _ "[]"])
qed

lemma chain_runs:
  "chain tm nf ps = Streams xs \<Longrightarrow> chain_text tm nf hex (w_app w) ps = Some t \<Longrightarrow>
     \<exists>calls. run_items xs w = Some (calls, after_parts ps w) \<and> op_texts (calls_ops hex calls) = Some t"
proof (induction ps arbitrary: nf hex w xs t)
  case (Cons p ps)
  from Cons.prems(2) obtain t1 t2 where t: "part_text tm nf hex (w_app w) p = Some t1"
    "chain_text tm (part_mode nf p) (part_hex hex p) (part_vars (w_app w) p) ps = Some t2" "t = t1 @ t2"
    by (auto split: bind_splits)
  from part_runs[OF Cons.prems(1) t(1)] obtain cs zs where p: "chain tm (part_mode nf p) ps = Streams zs"
    "run_items xs w = map_option (\<lambda>(calls, w'). (cs @ calls, w')) (run_items zs (after_parts [p] w))"
    "\<forall>calls u. op_texts (calls_ops (part_hex hex p) calls) = Some u \<longrightarrow>
       op_texts (calls_ops hex (cs @ calls)) = Some (t1 @ u)" by blast
  have "chain_text tm (part_mode nf p) (part_hex hex p) (w_app (after_parts [p] w)) ps = Some t2"
    using t(2) by simp
  from Cons.IH[OF p(1) this] p(2,3) t(3) show ?case by (auto simp: after_parts_Cons[of p ps])
qed simp

lemma run_first:
  assumes "m_bRegistered ctx" and "\<exists>c \<in> set (lc_contexts ctx). ctx_isEnabled sr w level c"
    and "\<forall>c \<in> set (lc_contexts ctx). terminal_only c" and "list_all keeps_console xs"
  shows "log_with_context sr level path line function xs ctx w = do {
    (calls, w') \<leftarrow> run_items xs w;
    log_with_context sr level path line function (pure_items calls) ctx w' }"
proof -
  let ?create = "createLog sr level path line function ctx"
  have late: "log_with_context sr level path line function (pure_items calls) ctx w' = do {
      (e, _) \<leftarrow> ?create w;
      (e, _) \<leftarrow> stream_items sr ctx (pure_items calls) e w;
      w'' \<leftarrow> entry_dtor sr ctx e w';
      Some (ctx, w'') }" if "run_items xs w = Some (calls, w')" for calls w'
  proof -
    have c: "w_console w' = w_console w"
      by (rule run_items_console[OF assms(4) that])
    have en: "\<exists>c \<in> set (lc_contexts ctx). ctx_isEnabled sr w' level c"
      using assms(2) any_terminal_enabled[OF assms(3) c] by blast
    show ?thesis
      unfolding enabled_statement[OF assms(1) en] createLog_terminal[OF assms(3) c]
      by (cases "?create w") (auto simp: stream_pure_console[OF c] bind_eq_Some_conv map_option_case
          split: prod.splits option.splits)
  qed
  have early: "?create w = Some (e, w1) \<Longrightarrow> w1 = w" for e w1
    using createLog_terminal[OF assms(3) refl, of sr level path line "function" w] by auto
  show ?thesis
  proof (cases "?create w")
    case None
    with late show ?thesis
      by (cases "run_items xs w") (auto simp: enabled_statement[OF assms(1,2)])
  next
    case (Some r)
    then obtain e where e: "?create w = Some (e, w)" using early by (cases r) auto
    show ?thesis
      unfolding enabled_statement[OF assms(1,2)]
      by (cases "run_items xs w") (auto simp: e late stream_items_effects[OF assms(4)] split: bind_splits)
  qed
qed

text \<open>A whole statement on consoles, with a chain of calls.\<close>

lemma chain_statement:
  assumes "m_bRegistered ctx" and "\<exists>c \<in> set (lc_contexts ctx). ctx_isEnabled sr w level c"
    and "\<forall>c \<in> set (lc_contexts ctx). terminal_only c"
    and "chain tm None ps = Streams xs" and "chain_text tm None False (w_app w) ps = Some t"
    and "short_enough sr (fst (ask_thread sr w)) (LogInfo_ctor level path line function) t"
  shows "\<exists>w'. log_with_context sr level path line function xs ctx w = Some (ctx, w') \<and>
    w_printed w' = w_printed w @ map (Pair Stdout) (chain_prints (w_app w) ps) @
      console_outputs sr w (fst (ask_thread sr w)) (LogInfo_ctor level path line function) t (lc_contexts ctx) @
      fatal_message level \<and>
    (w_aborted w' \<longleftrightarrow> w_aborted w \<or> level = LvFatal) \<and> w_app w' = chain_vars (w_app w) ps \<and>
    w_console w' = w_console w \<and> w_process w' = w_process w"
proof -
  let ?w1 = "after_parts ps w" and ?li = "LogInfo_ctor level path line function"
  from chain_runs[OF assms(4,5)] obtain calls where calls: "run_items xs w = Some (calls, ?w1)"
    "op_texts (calls_ops False calls) = Some t" by blast
  have same: "same_world sr w ?w1" by (simp add: same_world_def after_parts_def ask_thread_def split: prod.split)
  then have th: "fst (ask_thread sr ?w1) = fst (ask_thread sr w)" by (simp add: same_world_def)
  have en: "\<exists>c \<in> set (lc_contexts ctx). ctx_isEnabled sr ?w1 level c"
    using assms(2) any_terminal_enabled[OF assms(3), of ?w1 w] by simp
  from statement_total[OF assms(3) calls(2), of sr ?w1 level path line "function"] assms(6) obtain e e' w' where
    r: "createLog sr level path line function ctx ?w1 = Some (e, ?w1)"
    "stream_items sr ctx (pure_items calls) e ?w1 = Some (e', ?w1)" "entry_dtor sr ctx e' ?w1 = Some w'"
    unfolding th by blast
  have "log_with_context sr level path line function xs ctx w = Some (ctx, w')"
    using run_first[OF assms(1-3) chain_keeps_console[OF assms(4)]] calls(1) r
    by (simp add: enabled_statement[OF assms(1) en])
  moreover have "w_printed w' = w_printed ?w1 @
      console_outputs sr ?w1 (fst (ask_thread sr w)) ?li t (lc_contexts ctx) @ fatal_message level \<and>
    (w_aborted w' \<longleftrightarrow> w_aborted ?w1 \<or> level = LvFatal)"
    using statement_prints[OF r calls(2) _ terminal_only_dlt[OF assms(3)]] assms(6) unfolding th by blast
  moreover have "console_outputs sr ?w1 th ?li t cs = console_outputs sr w th ?li t cs" for th cs
    using same_outputs[OF same_info_refl same] .
  moreover have "w_printed ?w1 = w_printed w @ map (Pair Stdout) (chain_prints (w_app w) ps)"
    by (simp add: after_parts_def)
  ultimately show ?thesis using entry_dtor_keeps[OF r(3)] by simp
qed

section \<open>Properties\<close>

text \<open>
  The expressions of an enabled statement on consoles run first, left to right, each once, and
  the line is printed after all of them: the statement equals running the expressions and then
  logging their values in the world they left. In particular a statement inside an expression
  prints its own line before the one it is part of.
\<close>

lemma expressions_run_first:
  assumes "m_bRegistered ctx" and "\<exists>c \<in> set (lc_contexts ctx). ctx_isEnabled sr w level c"
    and "\<forall>c \<in> set (lc_contexts ctx). terminal_only c" and "list_all keeps_console xs"
  shows "log_with_context sr level path line function xs ctx w = do {
    (calls, w') \<leftarrow> run_items xs w;
    log_with_context sr level path line function (pure_items calls) ctx w' }"
  using assms by (rule run_first)

lemma expressions_run_first_witness:
  "\<exists>w'. log_with_context sample_surroundings LvFatal ''a.c'' 7 ''f'' [\<lambda>w. do {
        (_, w) \<leftarrow> log_with_context sample_surroundings LvInfo ''a.c'' 7 ''g'' (pure_items [CallWrite (VBool True)])
          (sample_log_ctx [ConsoleCtx plain_ctx] True) w;
        Some (CallWrite (VBool True), w) }]
      (sample_log_ctx [ConsoleCtx plain_ctx] True) sample_world =
      Some (sample_log_ctx [ConsoleCtx plain_ctx] True, w') \<and>
    map fst (w_printed w') = [Stdout, Stdout, Stderr]"
proof -
  let ?ctx = "sample_log_ctx [ConsoleCtx plain_ctx] True" and ?calls = "[CallWrite (VBool True)]"
  let ?log = "\<lambda>level fn. log_with_context sample_surroundings level ''a.c'' 7 fn"
  obtain w1 where w1: "?log LvInfo ''g'' (pure_items ?calls) ?ctx sample_world = Some (?ctx, w1)"
    "map fst (w_printed w1) = [Stdout]" "w_console w1 = console_globals_init" "w_process w1 = process_init"
    using sample_statement[of sample_world LvInfo "''g''"] by (auto simp: sample_world_def fatal_message_def)
  obtain w2 where w2: "?log LvFatal ''f'' (pure_items ?calls) ?ctx w1 = Some (?ctx, w2)"
    "map fst (w_printed w2) = [Stdout, Stdout, Stderr]"
    using sample_statement[of w1 LvFatal "''f''"] w1 by (auto simp: fatal_message_def)
  have ctx: "m_bRegistered ?ctx" "\<forall>c \<in> set (lc_contexts ?ctx). terminal_only c"
    "\<exists>c \<in> set (lc_contexts ?ctx). ctx_isEnabled sample_surroundings sample_world LvFatal c"
    using plain_enabled by (simp_all add: sample_log_ctx_def)
  let ?xs = "[\<lambda>w. do { (_, w) \<leftarrow> ?log LvInfo ''g'' (pure_items ?calls) ?ctx w; Some (CallWrite (VBool True), w) }]"
  have "list_all keeps_console ?xs"
    using nested_keeps_console[of "pure_items ?calls"] by (simp add: keeps_console_def)
  from expressions_run_first[OF ctx(1,3,2) this] w1(1) w2 show ?thesis
    by simp
qed

end
