(* ===== verification/Program.thy ===== *)
theory Program
  imports Expressions
begin

text \<open>
  Programs that log. The macros of \<open>include/ivi-logging.h\<close> that declare contexts and select the
  default one of a scope, the construction of a context over the tuple of back ends its type names,
  and runs of several statements. Contexts live in a store by name; a context that is a static of a
  function comes into being when its \<open>getDefaultContext()\<close> is called for the first time. On consoles
  a run refines a small specification, \<open>spec_run\<close>, which only knows levels, identifiers and texts.
\<close>

section \<open>Declaring and selecting contexts\<close>

datatype context_macro =
    LOG_DEFINE_APP_IDS string string
  | LOG_DECLARE_CONTEXT string string string
  | LOG_DECLARE_DEFAULT_CONTEXT string string string
  | LOG_IMPORT_CONTEXT string
  | LOG_SET_DEFAULT_CONTEXT string
  | LOG_IMPORT_DEFAULT_CONTEXT string
  | LOG_SET_CLASS_CONTEXT string
  | LOG_DECLARE_DEFAULT_LOCAL_CONTEXT string string
  | LOG_DECLARE_CLASS_CONTEXT string string

text \<open>
  Objects with static storage that a macro defines, and what the \<open>getDefaultContext\<close> it defines
  returns: a global context, or the static of that \<open>getDefaultContext\<close> itself, which is named after
  its scope. \<open>NullContext\<close> is \<open>logging::getNullContext()\<close>.
\<close>

datatype static_object = AppIds string string | ContextObject string string string

datatype context_ref = GlobalContext string | LocalStatic string string string | NullContext

fun macro_expansion :: "context_macro \<Rightarrow> context_macro list" where
  "macro_expansion (LOG_DECLARE_DEFAULT_CONTEXT context contextID description) =
     [LOG_DECLARE_CONTEXT context contextID description, LOG_SET_DEFAULT_CONTEXT context]"
| "macro_expansion (LOG_IMPORT_DEFAULT_CONTEXT context) =
     [LOG_IMPORT_CONTEXT context, LOG_SET_DEFAULT_CONTEXT context]"
| "macro_expansion m = [m]"

fun macro_objects :: "context_macro \<Rightarrow> static_object list" where
  "macro_objects (LOG_DEFINE_APP_IDS appID appDescription) = [AppIds appID appDescription]"
| "macro_objects (LOG_DECLARE_CONTEXT contextName shortID description) =
     [ContextObject contextName shortID description]"
| "macro_objects _ = []"

fun macro_default :: "string \<Rightarrow> context_macro \<Rightarrow> context_ref option" where
  "macro_default scope (LOG_SET_DEFAULT_CONTEXT context) = Some (GlobalContext context)"
| "macro_default scope (LOG_SET_CLASS_CONTEXT context) = Some (GlobalContext context)"
| "macro_default scope (LOG_DECLARE_DEFAULT_LOCAL_CONTEXT shortID description) =
     Some (LocalStatic scope shortID description)"
| "macro_default scope (LOG_DECLARE_CLASS_CONTEXT shortID description) =
     Some (LocalStatic scope shortID description)"
| "macro_default scope _ = None"

text \<open>
  Name lookup of \<open>getDefaultContext\<close>: a scope is its name and the macros visible in it at the point
  of the statement; the innermost scope that defines the name decides.
\<close>

type_synonym scope = "string \<times> context_macro list"

fun first_default :: "string \<Rightarrow> context_macro list \<Rightarrow> context_ref option" where
  "first_default scope [] = None"
| "first_default scope (m # ms) =
     (case macro_default scope m of Some r \<Rightarrow> Some r | None \<Rightarrow> first_default scope ms)"

definition scope_default :: "string \<Rightarrow> context_macro list \<Rightarrow> context_ref option" where
  "scope_default scope ms = first_default scope (concat (map macro_expansion ms))"

fun getDefaultContext :: "scope list \<Rightarrow> context_ref option" where
  "getDefaultContext [] = None"
| "getDefaultContext ((scope, ms) # scopes) =
     (case scope_default scope ms of Some r \<Rightarrow> Some r | None \<Rightarrow> getDefaultContext scopes)"

section \<open>Types of contexts\<close>

text \<open>The classes a \<open>LogContextT\<close> can be made of, and the configured types.\<close>

datatype backend_class = ConsoleLogContext | DltCppContextClass | FileLogContext | NullLogContext

type_synonym context_type = "backend_class list"

definition Extension :: "context_type \<Rightarrow> backend_class \<Rightarrow> context_type" where
  "Extension types extra = types @ [extra]"

definition NoLoggingLogContext :: context_type where
  "NoLoggingLogContext = []"

definition DefaultLogContext :: "bool \<Rightarrow> bool \<Rightarrow> context_type" where
  "DefaultLogContext dltcpp console =
     (if dltcpp then [DltCppContextClass] else []) @ (if console then [ConsoleLogContext] else [])"

section \<open>The state of a program\<close>

record program =
  pr_world :: world
  pr_store :: "string \<Rightarrow> log_ctx option"
  pr_next :: nat

definition no_parent :: LogContextCommon where
  "no_parent = \<lparr>ctx_id = [], ctx_description = []\<rparr>"

text \<open>
  Default construction of the elements of the tuple; a DLT context takes the next free address in
  the connection's store.
\<close>

fun construct_backend :: "surroundings \<Rightarrow> backend_class \<Rightarrow> world \<times> nat \<Rightarrow> backend_ctx \<times> world \<times> nat" where
  "construct_backend sr ConsoleLogContext (w, n) =
     (let (c, g) = ConsoleLogContext_ctor (sr_platform sr) (sr_winsize sr) no_parent (w_console w)
      in (ConsoleCtx c, w\<lparr>w_console := g\<rparr>, n))"
| "construct_backend sr DltCppContextClass (w, n) =
     (DltCtx n, w\<lparr>w_daemon := (w_daemon w)\<lparr>dm_store :=
        (dm_store (w_daemon w))(n := dlt_ctx_new (sr_api sr) no_parent)\<rparr>\<rparr>, n + 1)"
| "construct_backend sr FileLogContext (w, n) = (FileCtx (stream_ctx_new no_parent), w, n)"
| "construct_backend sr NullLogContext (w, n) = (NullCtx, w, n)"

fun construct_backends :: "surroundings \<Rightarrow> context_type \<Rightarrow> world \<times> nat \<Rightarrow> backend_ctx list \<times> world \<times> nat" where
  "construct_backends sr [] s = ([], s)"
| "construct_backends sr (t # ts) s =
     (let (c, s) = construct_backend sr t s; (cs, s) = construct_backends sr ts s in (c # cs, s))"

definition new_context :: "surroundings \<Rightarrow> context_type \<Rightarrow> string \<Rightarrow> string \<Rightarrow> string \<Rightarrow> program \<Rightarrow> program" where
  "new_context sr types name ident description p =
     (let (cs, w, n) = construct_backends sr types (pr_world p, pr_next p);
          (ctx, w) = LogContextT_ctor ident description cs w
      in \<lparr>pr_world = w, pr_store = (pr_store p)(name \<mapsto> ctx), pr_next = n\<rparr>)"

fun construct_object :: "surroundings \<Rightarrow> context_type \<Rightarrow> static_object \<Rightarrow> program \<Rightarrow> program" where
  "construct_object sr types (AppIds appID appDescription) p =
     p\<lparr>pr_world := (pr_world p)\<lparr>w_process := AppLogContext_ctor appID appDescription (w_process (pr_world p))\<rparr>\<rparr>"
| "construct_object sr types (ContextObject name ident description) p =
     new_context sr types name ident description p"

text \<open>Static initialisation of a translation unit: its objects in the order of their definitions.\<close>

definition static_init :: "surroundings \<Rightarrow> context_type \<Rightarrow> context_macro list \<Rightarrow> program \<Rightarrow> program" where
  "static_init sr types macros p =
     fold (construct_object sr types) (concat (map macro_objects (concat (map macro_expansion macros)))) p"

text \<open>Evaluating a reference: statics of functions are constructed at the first call.\<close>

fun ref_name :: "context_ref \<Rightarrow> string" where
  "ref_name (GlobalContext name) = name"
| "ref_name (LocalStatic scope ident description) = scope @ ''::getDefaultContext''"
| "ref_name NullContext = ''logging::getNullContext''"

definition get_context :: "surroundings \<Rightarrow> context_type \<Rightarrow> context_ref \<Rightarrow> program \<Rightarrow> program option" where
  "get_context sr types ref p = (if pr_store p (ref_name ref) \<noteq> None then Some p else
     case ref of
       GlobalContext name \<Rightarrow> None
     | LocalStatic scope ident description \<Rightarrow> Some (new_context sr types (ref_name ref) ident description p)
     | NullContext \<Rightarrow> Some (new_context sr [NullLogContext] (ref_name ref) ''NULL'' [] p))"

section \<open>Runs\<close>

text \<open>
  The steps of a program: a log statement on the default context of its scopes or on a given one
  (\<open>log_info_with_context(context)\<close>), \<open>ConsoleLogContext::setGlobalLogLevel\<close>, and \<open>sleep\<close>,
  which only lets time pass. A statement that does not compile is \<open>None\<close>; one whose chain throws or
  reads past an array is only defined while it is disabled.
\<close>

datatype target = DefaultContext "scope list" | WithContext context_ref

fun resolve :: "target \<Rightarrow> context_ref option" where
  "resolve (DefaultContext scopes) = getDefaultContext scopes"
| "resolve (WithContext ref) = Some ref"

datatype action =
    Statement target severity_macro string int string "part list"
  | SetGlobalLogLevel LogLevel
  | Sleep nat

definition chain_items :: "(int \<Rightarrow> string) \<Rightarrow> part list \<Rightarrow> (world \<Rightarrow> (entry_call \<times> world) option) list option" where
  "chain_items tm parts = (case chain tm None parts of
     NoOverload \<Rightarrow> None | Streams xs \<Rightarrow> Some xs | _ \<Rightarrow> Some [\<lambda>w. None])"

definition run_statement :: "surroundings \<Rightarrow> (int \<Rightarrow> string) \<Rightarrow> context_type \<Rightarrow> context_ref \<Rightarrow> severity_macro \<Rightarrow>
    string \<Rightarrow> int \<Rightarrow> string \<Rightarrow> part list \<Rightarrow> program \<Rightarrow> program option" where
  "run_statement sr tm types ref m path line function parts p = do {
     xs \<leftarrow> chain_items tm parts;
     p \<leftarrow> get_context sr types ref p;
     ctx \<leftarrow> pr_store p (ref_name ref);
     (ctx, w) \<leftarrow> log_macro sr m path line function xs ctx (pr_world p);
     Some (p\<lparr>pr_world := w, pr_store := (pr_store p)(ref_name ref \<mapsto> ctx)\<rparr>) }"

fun run_action :: "surroundings \<Rightarrow> (int \<Rightarrow> string) \<Rightarrow> context_type \<Rightarrow> action \<Rightarrow> program \<Rightarrow> program option" where
  "run_action sr tm types (Statement target m path line function parts) p = do {
     ref \<leftarrow> resolve target;
     run_statement sr tm types ref m path line function parts p }"
| "run_action sr tm types (SetGlobalLogLevel level) p =
     Some (p\<lparr>pr_world := (pr_world p)\<lparr>w_console := setGlobalLogLevel level (w_console (pr_world p))\<rparr>\<rparr>)"
| "run_action sr tm types (Sleep seconds) p = Some p"

text \<open>\<open>clock i\<close> is the time at which step \<open>i\<close> runs. Nothing runs after a fatal statement.\<close>

fun run :: "surroundings \<Rightarrow> (nat \<Rightarrow> int) \<Rightarrow> (int \<Rightarrow> string) \<Rightarrow> context_type \<Rightarrow> nat \<Rightarrow> action list \<Rightarrow>
    program \<Rightarrow> program option" where
  "run sr clock tm types i [] p = Some p"
| "run sr clock tm types i (a # as) p = (if w_aborted (pr_world p) then Some p else do {
     p \<leftarrow> run_action (sr\<lparr>sr_elapsed := clock i\<rparr>) tm types a p;
     run sr clock tm types (i + 1) as p })"

section \<open>What a run shows on the terminal\<close>

record terminal =
  t_level :: LogLevel
  t_contexts :: "string \<Rightarrow> (string \<times> LogLevel option) option"
  t_vars :: "string \<Rightarrow> int"
  t_stopped :: bool

datatype event = Printed string | Line string LogLevel string int string | Stopped

text \<open>
  The specification of a context: its identifier and level, \<open>None\<close> for the null context. One that is
  constructed now gets the global level.
\<close>

fun spec_context :: "context_ref \<Rightarrow> terminal \<Rightarrow> (string \<times> LogLevel option) option" where
  "spec_context ref t = (case t_contexts t (ref_name ref) of Some c \<Rightarrow> Some c | None \<Rightarrow>
     (case ref of
        GlobalContext name \<Rightarrow> None
      | LocalStatic scope ident description \<Rightarrow> Some (ident, Some (t_level t))
      | NullContext \<Rightarrow> Some (''NULL'', None)))"

definition line_fits :: "string \<Rightarrow> int \<Rightarrow> string \<Rightarrow> bool" where
  "line_fits path line text \<longleftrightarrow>
     length (suffix_text None (LogInfo_ctor LvNone path line [])) < 2 ^ 27 \<and> length text < 2 ^ 29"

definition spec_enabled :: "LogLevel \<Rightarrow> LogLevel option \<Rightarrow> terminal \<Rightarrow> bool" where
  "spec_enabled level c t \<longleftrightarrow> (case c of None \<Rightarrow> False | Some l \<Rightarrow> level \<le> l \<and> level \<le> t_level t)"

definition spec_statement :: "(int \<Rightarrow> string) \<Rightarrow> string \<Rightarrow> LogLevel \<Rightarrow> string \<Rightarrow> int \<Rightarrow> part list \<Rightarrow> terminal \<Rightarrow>
    (event list \<times> terminal) option" where
  "spec_statement tm ident level path line parts t = (case chain tm None parts of
     Streams xs \<Rightarrow> do {
       u \<leftarrow> chain_text tm None False (t_vars t) parts;
       if line_fits path line u then
         Some (map Printed (chain_prints (t_vars t) parts) @ [Line ident level path line u] @
                 (if level = LvFatal then [Stopped] else []),
               t\<lparr>t_vars := chain_vars (t_vars t) parts, t_stopped := (level = LvFatal)\<rparr>)
       else None }
   | _ \<Rightarrow> None)"

definition spec_log :: "(int \<Rightarrow> string) \<Rightarrow> context_ref \<Rightarrow> LogLevel \<Rightarrow> string \<Rightarrow> int \<Rightarrow> part list \<Rightarrow> terminal \<Rightarrow>
    (event list \<times> terminal) option" where
  "spec_log tm ref level path line parts t = do {
     _ \<leftarrow> chain_items tm parts;
     c \<leftarrow> spec_context ref t;
     let t = t\<lparr>t_contexts := (t_contexts t)(ref_name ref \<mapsto> c)\<rparr>;
     if spec_enabled level (snd c) t then spec_statement tm (fst c) level path line parts t
     else Some ([], t) }"

fun spec_action :: "(int \<Rightarrow> string) \<Rightarrow> action \<Rightarrow> terminal \<Rightarrow> (event list \<times> terminal) option" where
  "spec_action tm (Statement target m path line function parts) t = do {
     ref \<leftarrow> resolve target;
     spec_log tm ref (macro_severity m) path line parts t }"
| "spec_action tm (SetGlobalLogLevel level) t = Some ([], t\<lparr>t_level := level\<rparr>)"
| "spec_action tm (Sleep seconds) t = Some ([], t)"

fun spec_run :: "(int \<Rightarrow> string) \<Rightarrow> nat \<Rightarrow> action list \<Rightarrow> terminal \<Rightarrow> ((nat \<times> event) list \<times> terminal) option" where
  "spec_run tm i [] t = Some ([], t)"
| "spec_run tm i (a # as) t = (if t_stopped t then Some ([], t) else do {
     (es, t) \<leftarrow> spec_action tm a t;
     (fs, t) \<leftarrow> spec_run tm (i + 1) as t;
     Some (map (Pair i) es @ fs, t) })"

text \<open>How an event looks on the terminal.\<close>

definition plain_console :: "surroundings \<Rightarrow> string \<Rightarrow> console_ctx" where
  "plain_console sr ident = \<lparr>sc_context = \<lparr>ctx_id = ident, ctx_description = []\<rparr>, sc_level = LvDebug,
     m_colorSupport = (getConsoleWidth (sr_winsize sr) \<noteq> 0)\<rparr>"

fun render :: "surroundings \<Rightarrow> (nat \<Rightarrow> int) \<Rightarrow> nat \<times> event \<Rightarrow> out_file \<times> string" where
  "render sr clock (i, Printed s) = (Stdout, s)"
| "render sr clock (i, Line ident level path line text) =
     console_output (sr\<lparr>sr_elapsed := clock i\<rparr>) None (LogInfo_ctor level path line []) text (plain_console sr ident)"
| "render sr clock (i, Stopped) = (Stderr, ''Exiting process due to fatal log'' @ [LF])"

section \<open>The model refines the specification\<close>

fun ctx_rel :: "surroundings \<Rightarrow> log_ctx option \<Rightarrow> (string \<times> LogLevel option) option \<Rightarrow> bool" where
  "ctx_rel sr None None = True"
| "ctx_rel sr (Some ctx) (Some (ident, Some l)) = (\<exists>d. lc_contexts ctx =
     [ConsoleCtx \<lparr>sc_context = \<lparr>ctx_id = ident, ctx_description = d\<rparr>, sc_level = l,
        m_colorSupport = (getConsoleWidth (sr_winsize sr) \<noteq> 0)\<rparr>])"
| "ctx_rel sr (Some ctx) (Some (ident, None)) = (lc_contexts ctx = [NullCtx])"
| "ctx_rel sr _ _ = False"

text \<open>The names of threads are not switched on, neither yet nor by a later registration.\<close>

definition no_threads :: "surroundings \<Rightarrow> process \<Rightarrow> bool" where
  "no_threads sr p \<longleftrightarrow> \<not> m_enableThreadInfo p \<and>
     \<not> readEnvVarAsBool (sr_platform sr) ''LOGGING_ENABLE_THREAD_INFORMATION'' False"

definition program_rel :: "surroundings \<Rightarrow> program \<Rightarrow> terminal \<Rightarrow> bool" where
  "program_rel sr p t \<longleftrightarrow> (let w = pr_world p in
     w_console w = \<lparr>s_defaultLogLevel = t_level t, s_envVarCheckDone = True\<rparr> \<and>
     no_threads sr (w_process w) \<and> w_app w = t_vars t \<and> w_aborted w = t_stopped t \<and>
     (\<forall>name. ctx_rel sr (pr_store p name) (t_contexts t name)))"

lemma ctx_rel_Some:
  "ctx_rel sr x (Some c) \<Longrightarrow> \<exists>ctx. x = Some ctx"
  by (cases x) auto

lemma ctx_rel_None: "ctx_rel sr x None \<longleftrightarrow> x = None"
  by (cases x) auto

lemma ctx_rel_contexts:
  "ctx_rel sr (Some ctx) c \<Longrightarrow> lc_contexts ctx' = lc_contexts ctx \<Longrightarrow> ctx_rel sr (Some ctx') c"
  by (cases "(sr, Some ctx, c)" rule: ctx_rel.cases) auto

lemma checkContext_check:
  "checkContext sr ctx w = Some (ctx', w') \<Longrightarrow> m_bRegistered ctx' \<and> lc_contexts ctx' = lc_contexts ctx"
  by (auto simp: checkContext_def split: bind_splits if_splits)

lemma check_first:
  assumes "checkContext sr ctx w = Some (ctx', w')"
  shows "log_with_context sr level path line function items ctx w =
    log_with_context sr level path line function items ctx' w'"
  using assms checkContext_check[OF assms]
  by (simp add: log_with_context_def log_isEnabled_def checkContext_registered)

lemma setDefaultAPPIDS_flags:
  "\<exists>p'. setDefaultAPPIDSIfNeeded os p = Some p' \<and> m_enableThreadInfo p' = m_enableThreadInfo p"
proof (cases "s_pAppLogContext p")
  case None
  from setDefaultAPPIDS_some[OF this, of os] show ?thesis by auto
qed (simp add: setDefaultAPPIDSIfNeeded_def)

lemma checkContext_console:
  assumes "ctx_rel sr (Some ctx) c" and "no_threads sr (w_process w)"
  shows "\<exists>ctx' p. checkContext (sr\<lparr>sr_elapsed := e\<rparr>) ctx w = Some (ctx', w\<lparr>w_process := p\<rparr>) \<and>
    m_bRegistered ctx' \<and> lc_contexts ctx' = lc_contexts ctx \<and> no_threads sr p"
proof (cases "m_bRegistered ctx")
  case True
  then show ?thesis using assms(2) by (intro exI[of _ ctx] exI[of _ "w_process w"]) (simp add: checkContext_def)
next
  case False
  from setDefaultAPPIDS_flags[of "sr_platform sr" "w_process w"] obtain p where
    p: "setDefaultAPPIDSIfNeeded (sr_platform sr) (w_process w) = Some p"
    "m_enableThreadInfo p = m_enableThreadInfo (w_process w)" by blast
  have "no_threads sr (registerContextBase (sr_platform sr) p)" "no_threads sr p"
    using assms(2) p(2) by (simp_all add: no_threads_def registerContextBase_def)
  with False p(1) assms(1) show ?thesis
    by (cases "(sr, Some ctx, c)" rule: ctx_rel.cases) (auto simp: checkContext_def)
qed

lemma get_context_rel:
  assumes "program_rel sr p t" and "spec_context ref t = Some c"
  shows "\<exists>p'. get_context (sr\<lparr>sr_elapsed := e\<rparr>) [ConsoleLogContext] ref p = Some p' \<and>
    program_rel sr p' (t\<lparr>t_contexts := (t_contexts t)(ref_name ref \<mapsto> c)\<rparr>) \<and>
    w_printed (pr_world p') = w_printed (pr_world p)"
proof (cases "t_contexts t (ref_name ref)")
  case (Some d)
  have rel: "ctx_rel sr (pr_store p (ref_name ref)) (t_contexts t (ref_name ref))"
    using assms(1) by (simp add: program_rel_def Let_def)
  from Some assms(2) have "c = d" by simp
  with Some rel ctx_rel_Some[of sr "pr_store p (ref_name ref)" d] assms(1) show ?thesis
    by (auto simp: get_context_def program_rel_def Let_def)
next
  case None
  with assms(1) have none: "pr_store p (ref_name ref) = None"
    by (auto simp: program_rel_def Let_def ctx_rel_None dest: spec[of _ "ref_name ref"])
  show ?thesis
  proof (cases ref)
    case (GlobalContext name)
    with assms(2) None show ?thesis by simp
  next
    case (LocalStatic scope ident description)
    with assms None none show ?thesis
      by (auto simp: get_context_def new_context_def ConsoleLogContext_ctor_def console_env_check_def
          LogContextT_ctor_def LogContextCommon_ctor_def program_rel_def no_threads_def Let_def)
  next
    case NullContext
    with assms None none show ?thesis
      by (auto simp: get_context_def new_context_def LogContextT_ctor_def LogContextCommon_ctor_def
          program_rel_def no_threads_def Let_def)
  qed
qed

lemma same_short_name:
  "short_enough sr None (LogInfo_ctor level path line function) u \<longleftrightarrow>
     length (sr_junk sr) = STATIC_SIZE \<and> line_fits path line u"
proof -
  have "suffix_text None (LogInfo_ctor level path line function) =
      suffix_text None (LogInfo_ctor LvNone path line [])"
    by (simp add: suffix_text_def location_text_def LogInfo_ctor_def getFileName_def Let_def)
  then show ?thesis by (auto simp: short_enough_def line_fits_def)
qed

lemma console_output_plain:
  assumes "lc_context_id = ident"
  shows "console_output (sr\<lparr>sr_elapsed := e\<rparr>) None (LogInfo_ctor level path line function) u
      \<lparr>sc_context = \<lparr>ctx_id = lc_context_id, ctx_description = d\<rparr>, sc_level = l,
        m_colorSupport = (getConsoleWidth (sr_winsize sr) \<noteq> 0)\<rparr> =
    console_output (sr\<lparr>sr_elapsed := e\<rparr>) None (LogInfo_ctor level path line []) u (plain_console sr ident)"
  using assms
  by (simp add: console_output_def console_header_def console_header_text_def console_suffix_text_def
      header_invisible_def color_text_def reset_text_def getShortID_def plain_console_def console_getFile_def
      suffix_text_def location_text_def LogInfo_ctor_def getFileName_def Let_def)

lemma ctx_rel_enabled:
  assumes "ctx_rel sr (Some ctx) c" and "w_console w = \<lparr>s_defaultLogLevel = t_level t, s_envVarCheckDone = True\<rparr>"
    and "c = Some (ident, l)"
  shows "(\<exists>c \<in> set (lc_contexts ctx). ctx_isEnabled sr' w level c) \<longleftrightarrow> spec_enabled level l t"
    and "\<forall>c \<in> set (lc_contexts ctx). terminal_only c"
  using assms
  by (cases l; auto simp: console_isEnabled_def stream_isEnabled_def getLogLevel_def spec_enabled_def)+

lemma spec_enabled_update [simp]:
  "spec_enabled level l (t\<lparr>t_contexts := f\<rparr>) = spec_enabled level l t"
  by (simp add: spec_enabled_def split: option.split)

text \<open>One statement.\<close>

lemma statement_rel:
  assumes rel: "program_rel sr p t" and junk: "length (sr_junk sr) = STATIC_SIZE"
    and step_spec: "spec_log tm ref (macro_severity m) path line parts t = Some (es, t')"
    and running: "\<not> t_stopped t"
  shows "\<exists>p'. run_statement (sr\<lparr>sr_elapsed := clock i\<rparr>) tm [ConsoleLogContext] ref m path line function parts p =
      Some p' \<and> program_rel sr p' t' \<and>
    w_printed (pr_world p') = w_printed (pr_world p) @ map (render sr clock) (map (Pair i) es)"
proof -
  let ?sr = "sr\<lparr>sr_elapsed := clock i\<rparr>" and ?lvl = "macro_severity m"
  from step_spec obtain xs ident l where xs: "chain_items tm parts = Some xs" "spec_context ref t = Some (ident, l)"
    by (auto simp: spec_log_def split: bind_splits)
  let ?t1 = "t\<lparr>t_contexts := (t_contexts t)(ref_name ref \<mapsto> (ident, l))\<rparr>"
  from get_context_rel[OF rel xs(2), of "clock i"] obtain p1 where p1: "get_context ?sr [ConsoleLogContext] ref p = Some p1"
    "program_rel sr p1 ?t1" "w_printed (pr_world p1) = w_printed (pr_world p)" by blast
  let ?w1 = "pr_world p1"
  have "ctx_rel sr (pr_store p1 (ref_name ref)) (Some (ident, l))"
    using p1(2) by (auto simp: program_rel_def Let_def dest: spec[of _ "ref_name ref"])
  then obtain ctx where ctx: "pr_store p1 (ref_name ref) = Some ctx" "ctx_rel sr (Some ctx) (Some (ident, l))"
    using ctx_rel_Some by metis
  have w1: "w_console ?w1 = \<lparr>s_defaultLogLevel = t_level t, s_envVarCheckDone = True\<rparr>"
    "no_threads sr (w_process ?w1)" "w_app ?w1 = t_vars t" "\<not> w_aborted ?w1"
    using p1(2) running by (simp_all add: program_rel_def Let_def)
  from checkContext_console[OF ctx(2) w1(2), of "clock i"] obtain ctx1 pr where
    c1: "checkContext ?sr ctx ?w1 = Some (ctx1, ?w1\<lparr>w_process := pr\<rparr>)" "m_bRegistered ctx1"
    "lc_contexts ctx1 = lc_contexts ctx" "no_threads sr pr" by blast
  let ?w2 = "?w1\<lparr>w_process := pr\<rparr>"
  have rel1: "ctx_rel sr (Some ctx1) (Some (ident, l))" by (rule ctx_rel_contexts[OF ctx(2) c1(3)])
  note en = ctx_rel_enabled[OF rel1, of ?w2 t ident l]
  have step: "run_statement ?sr tm [ConsoleLogContext] ref m path line function parts p =
      do { (ctx, w) \<leftarrow> log_with_context ?sr ?lvl path line function xs ctx1 ?w2;
           Some (p1\<lparr>pr_world := w, pr_store := (pr_store p1)(ref_name ref \<mapsto> ctx)\<rparr>) }"
    using xs(1) p1(1) ctx(1) by (simp add: run_statement_def log_macro_def check_first[OF c1(1)])
  have keep: "program_rel sr (p1\<lparr>pr_world := w, pr_store := (pr_store p1)(ref_name ref \<mapsto> ctx1)\<rparr>)
      T" if "w_console w = w_console ?w2" "w_process w = w_process ?w2" "t_level T = t_level t"
      "t_contexts T = t_contexts ?t1" "t_vars T = w_app w" "t_stopped T \<longleftrightarrow> w_aborted w" for w T
    using p1(2) that c1(4) rel1 by (auto simp: program_rel_def Let_def split: if_splits)
  show ?thesis
  proof (cases "spec_enabled ?lvl l ?t1")
    case False
    then have "log_with_context ?sr ?lvl path line function xs ctx1 ?w2 = Some (ctx1, ?w2)"
      using en w1(1) c1(2)
      by (simp add: log_with_context_def log_isEnabled_def checkContext_registered any_enabled_iff)
    moreover have "es = []" "t' = ?t1" using step_spec xs False by (auto simp: spec_log_def split: bind_splits)
    ultimately show ?thesis using step keep[of ?w2 ?t1] p1(3) w1 running by simp
  next
    case True
    with step_spec xs have st: "spec_statement tm ident ?lvl path line parts ?t1 = Some (es, t')" by (auto simp: spec_log_def split: bind_splits)
    then obtain ys u where u: "chain tm None parts = Streams ys" "chain_text tm None False (t_vars t) parts = Some u"
      "line_fits path line u" "es = map Printed (chain_prints (t_vars t) parts) @ [Line ident ?lvl path line u] @
         (if ?lvl = LvFatal then [Stopped] else [])"
      "t' = ?t1\<lparr>t_vars := chain_vars (t_vars t) parts, t_stopped := (?lvl = LvFatal)\<rparr>"
      by (auto simp: spec_statement_def split: outcome.splits bind_splits if_splits)
    have "ys = xs" using u(1) xs(1) by (simp add: chain_items_def)
    have th: "fst (ask_thread ?sr ?w2) = None" using c1(4) by (simp add: ask_thread_def no_threads_def)
    have "\<exists>c \<in> set (lc_contexts ctx1). ctx_isEnabled ?sr ?w2 ?lvl c"
      using en w1(1) True by simp
    from chain_statement[OF c1(2) this en(2) _ _, of tm parts xs u path line "function"] u(1,2,3) w1 \<open>ys = xs\<close> junk th
    obtain w' where w': "log_with_context ?sr ?lvl path line function xs ctx1 ?w2 = Some (ctx1, w')"
      "w_printed w' = w_printed ?w1 @ map (Pair Stdout) (chain_prints (t_vars t) parts) @
        console_outputs ?sr ?w2 None (LogInfo_ctor ?lvl path line function) u (lc_contexts ctx1) @ fatal_message ?lvl"
      "w_aborted w' \<longleftrightarrow> ?lvl = LvFatal" "w_app w' = chain_vars (t_vars t) parts"
      "w_console w' = w_console ?w2" "w_process w' = w_process ?w2"
      by (auto simp: same_short_name)
    have "console_outputs ?sr ?w2 None (LogInfo_ctor ?lvl path line function) u (lc_contexts ctx1) =
        [render sr clock (i, Line ident ?lvl path line u)]"
      using rel1 en w1(1) True
      by (cases l) (auto simp: spec_enabled_def console_output_plain console_isEnabled_def stream_isEnabled_def getLogLevel_def)
    then have "w_printed w' = w_printed (pr_world p) @ map (render sr clock) (map (Pair i) es)"
      using w'(2) p1(3) u(4) by (simp add: fatal_message_def comp_def)
    with step w' keep[OF w'(5,6), of t'] u(5) show ?thesis by simp
  qed
qed

lemma action_rel:
  assumes "program_rel sr p t" and "length (sr_junk sr) = STATIC_SIZE"
    and "spec_action tm a t = Some (es, t')" and "\<not> t_stopped t"
  shows "\<exists>p'. run_action (sr\<lparr>sr_elapsed := clock i\<rparr>) tm [ConsoleLogContext] a p = Some p' \<and> program_rel sr p' t' \<and>
    w_printed (pr_world p') = w_printed (pr_world p) @ map (render sr clock) (map (Pair i) es)"
proof (cases a)
  case (Statement target m path line fn parts)
  with assms(3) obtain ref where "resolve target = Some ref"
    "spec_log tm ref (macro_severity m) path line parts t = Some (es, t')" by (auto split: bind_splits)
  with statement_rel[OF assms(1,2) _ assms(4)] Statement show ?thesis by simp
next
  case (SetGlobalLogLevel level)
  with assms show ?thesis by (auto simp: program_rel_def setGlobalLogLevel_def Let_def)
next
  case (Sleep n)
  with assms show ?thesis by auto
qed

lemma run_refines:
  "program_rel sr p t \<Longrightarrow> length (sr_junk sr) = STATIC_SIZE \<Longrightarrow> spec_run tm i as t = Some (es, t') \<Longrightarrow>
     \<exists>p'. run sr clock tm [ConsoleLogContext] i as p = Some p' \<and> program_rel sr p' t' \<and>
       w_printed (pr_world p') = w_printed (pr_world p) @ map (render sr clock) es"
proof (induction as arbitrary: p t i es)
  case (Cons a as)
  show ?case
  proof (cases "t_stopped t")
    case True
    with Cons.prems show ?thesis by (auto simp: program_rel_def Let_def)
  next
    case False
    with Cons.prems(3) obtain fs t1 gs where s: "spec_action tm a t = Some (fs, t1)"
      "spec_run tm (i + 1) as t1 = Some (gs, t')" "es = map (Pair i) fs @ gs" by (auto split: bind_splits)
    from action_rel[OF Cons.prems(1,2) s(1) False, of clock i] obtain p1 where
      p1: "run_action (sr\<lparr>sr_elapsed := clock i\<rparr>) tm [ConsoleLogContext] a p = Some p1" "program_rel sr p1 t1"
      "w_printed (pr_world p1) = w_printed (pr_world p) @ map (render sr clock) (map (Pair i) fs)" by blast
    moreover have "\<not> w_aborted (pr_world p)" using Cons.prems(1) False by (simp add: program_rel_def Let_def)
    ultimately show ?thesis using Cons.IH[OF p1(2) Cons.prems(2) s(2)] s(3) by auto
  qed
qed auto

section \<open>Static initialisation\<close>

definition program_start :: "world \<Rightarrow> program" where
  "program_start w = \<lparr>pr_world = w, pr_store = (\<lambda>_. None), pr_next = 0\<rparr>"

fun spec_object :: "static_object \<Rightarrow> terminal \<Rightarrow> terminal" where
  "spec_object (AppIds appID appDescription) t = t"
| "spec_object (ContextObject name ident description) t =
     t\<lparr>t_contexts := (t_contexts t)(name \<mapsto> (ident, Some (t_level t)))\<rparr>"

definition is_context :: "static_object \<Rightarrow> bool" where
  "is_context ob \<longleftrightarrow> (case ob of AppIds a d \<Rightarrow> False | _ \<Rightarrow> True)"

text \<open>Before the first context exists the environment has not been looked at.\<close>

definition init_rel :: "surroundings \<Rightarrow> program \<Rightarrow> terminal \<Rightarrow> bool" where
  "init_rel sr p t \<longleftrightarrow> program_rel sr (p\<lparr>pr_world := (pr_world p)\<lparr>w_console :=
     console_env_check (sr_platform sr) (w_console (pr_world p))\<rparr>\<rparr>) t"

lemma env_check_again [simp]:
  "console_env_check os (console_env_check os g) = console_env_check os g"
  "s_envVarCheckDone g \<Longrightarrow> console_env_check os g = g" "s_envVarCheckDone (console_env_check os g)"
  by (auto simp: console_env_check_def Let_def)

lemma init_rel_checked:
  "init_rel sr p t \<Longrightarrow> s_envVarCheckDone (w_console (pr_world p)) \<Longrightarrow> program_rel sr p t"
  by (simp add: init_rel_def program_rel_def Let_def)

lemma construct_object_rel:
  assumes "init_rel sr p t"
  shows "init_rel sr (construct_object sr [ConsoleLogContext] ob p) (spec_object ob t) \<and>
    (is_context ob \<or> s_envVarCheckDone (w_console (pr_world p)) \<longrightarrow>
       s_envVarCheckDone (w_console (pr_world (construct_object sr [ConsoleLogContext] ob p)))) \<and>
    w_printed (pr_world (construct_object sr [ConsoleLogContext] ob p)) = w_printed (pr_world p)"
proof (cases ob)
  case (AppIds a d)
  with assms show ?thesis
    by (simp add: init_rel_def program_rel_def no_threads_def AppLogContext_ctor_def is_context_def Let_def)
next
  case (ContextObject name ident description)
  have "s_defaultLogLevel (console_env_check (sr_platform sr) (w_console (pr_world p))) = t_level t"
    using assms by (simp add: init_rel_def program_rel_def Let_def)
  with assms ContextObject show ?thesis
    by (auto simp: init_rel_def program_rel_def no_threads_def new_context_def ConsoleLogContext_ctor_def
        LogContextT_ctor_def LogContextCommon_ctor_def is_context_def Let_def)
qed

lemma construct_objects_rel:
  "init_rel sr p t \<Longrightarrow> init_rel sr (fold (construct_object sr [ConsoleLogContext]) obs p) (fold spec_object obs t) \<and>
     ((\<exists>ob \<in> set obs. is_context ob) \<or> s_envVarCheckDone (w_console (pr_world p)) \<longrightarrow>
        s_envVarCheckDone (w_console (pr_world (fold (construct_object sr [ConsoleLogContext]) obs p)))) \<and>
     w_printed (pr_world (fold (construct_object sr [ConsoleLogContext]) obs p)) = w_printed (pr_world p)"
proof (induction obs arbitrary: p t)
  case (Cons ob obs)
  note c = construct_object_rel[OF Cons.prems, of ob]
  from c Cons.IH[of "construct_object sr [ConsoleLogContext] ob p" "spec_object ob t"] show ?case by auto
qed simp

text \<open>The terminal before \<open>main\<close>: nothing constructed, the level that the environment asks for.\<close>

definition terminal_start :: "platform \<Rightarrow> world \<Rightarrow> terminal" where
  "terminal_start os w = \<lparr>t_level = s_defaultLogLevel (console_env_check os (w_console w)),
     t_contexts = (\<lambda>_. None), t_vars = w_app w, t_stopped = w_aborted w\<rparr>"

definition spec_static :: "context_macro list \<Rightarrow> terminal \<Rightarrow> terminal" where
  "spec_static macros t = fold spec_object (concat (map macro_objects (concat (map macro_expansion macros)))) t"

lemma static_init_rel:
  assumes "no_threads sr (w_process w)"
    and "\<exists>ob \<in> set (concat (map macro_objects (concat (map macro_expansion macros)))). is_context ob"
  shows "program_rel sr (static_init sr [ConsoleLogContext] macros (program_start w))
      (spec_static macros (terminal_start (sr_platform sr) w)) \<and>
    w_printed (pr_world (static_init sr [ConsoleLogContext] macros (program_start w))) = w_printed w"
proof -
  let ?g = "console_env_check (sr_platform sr) (w_console w)"
  have "?g = \<lparr>s_defaultLogLevel = s_defaultLogLevel ?g, s_envVarCheckDone = True\<rparr>"
    using env_check_again(3)[of "sr_platform sr" "w_console w"] by (cases ?g) simp
  then have "init_rel sr (program_start w) (terminal_start (sr_platform sr) w)"
    using assms(1) by (simp add: init_rel_def program_rel_def program_start_def terminal_start_def Let_def)
  note r = construct_objects_rel[OF this, of "concat (map macro_objects (concat (map macro_expansion macros)))"]
  show ?thesis
    unfolding static_init_def spec_static_def
    using init_rel_checked[OF conjunct1[OF r]] r assms(2) by (simp only: simp_thms) (simp add: program_start_def)
qed

text \<open>
  C6. A program on the console back end, with the thread names off, refines the terminal: whenever
  the specification of the run is defined (every statement compiles and its text fits), the program
  ends, prints exactly the specified events, each line complete and in the order of the statements,
  what the streamed calls print before the line they belong to, stops exactly at a fatal statement,
  and leaves the application's variables as specified. The order in which the values of one \<open>write\<close> are
  written is the compiler's, and any order will do: it is part of the program (\<open>WriteArgs\<close>).
\<close>

theorem program_refines_terminal:
  assumes "no_threads sr (w_process w)" and "length (sr_junk sr) = STATIC_SIZE"
    and "\<exists>ob \<in> set (concat (map macro_objects (concat (map macro_expansion macros)))). is_context ob"
    and "spec_run tm 0 as (spec_static macros (terminal_start (sr_platform sr) w)) = Some (evs, t)"
  shows "\<exists>p. run sr clock tm [ConsoleLogContext] 0 as
      (static_init sr [ConsoleLogContext] macros (program_start w)) = Some p \<and>
    w_printed (pr_world p) = w_printed w @ map (render sr clock) evs \<and>
    w_aborted (pr_world p) = t_stopped t \<and> w_app (pr_world p) = t_vars t"
proof -
  note start = static_init_rel[OF assms(1,3)]
  from run_refines[OF conjunct1[OF start] assms(2,4), of clock] start show ?thesis
    by (auto simp: program_rel_def Let_def)
qed

definition sample_actions :: "action list" where
  "sample_actions = (
     let log = (\<lambda>m line. Statement (DefaultContext [(''f'', []), (''file'', [LOG_DECLARE_DEFAULT_CONTEXT ''c'' ''CTX'' ''d''])])
                 m ''a.cpp'' line ''f'')
     in [log log_verbose 1 [PutCall (\<lambda>v. (VBool True, ''called'', v(''x'' := 1)))],
         log log_warn 2 [PutCall (\<lambda>v. (VBool True, ''called'', v(''x'' := 2))),
           WriteArgs (\<lambda>i. 1 - i) [VString ''b'', VString ''a'']],
         log log_fatal 3 [Put (Value TBool (SValue (VBool False)))],
         log log_info 4 []])"

text \<open>
  A disabled statement, one whose expression prints and whose two arguments are written from right to left,
  a fatal one, and one that is not reached.
\<close>

theorem program_refines_terminal_witness:
  "\<exists>p. run sample_surroundings (\<lambda>i. 0) (\<lambda>t. []) [ConsoleLogContext] 0 sample_actions
      (static_init sample_surroundings [ConsoleLogContext] [LOG_DECLARE_DEFAULT_CONTEXT ''c'' ''CTX'' ''d'']
         (program_start sample_world)) = Some p \<and>
    w_printed (pr_world p) = map (render sample_surroundings (\<lambda>i. 0))
      [(1, Printed ''called''), (1, Line ''CTX'' LvWarning ''a.cpp'' 2 ''trueab''),
       (2, Line ''CTX'' LvFatal ''a.cpp'' 3 ''false''), (2, Stopped)] \<and>
    w_aborted (pr_world p) \<and> w_app (pr_world p) ''x'' = 2"
proof -
  let ?ms = "[LOG_DECLARE_DEFAULT_CONTEXT ''c'' ''CTX'' ''d'']"
  let ?t = "spec_static ?ms (terminal_start (sr_platform sample_surroundings) sample_world)"
  have t: "?t = \<lparr>t_level = LvDebug, t_contexts = [''c'' \<mapsto> (''CTX'', Some LvDebug)], t_vars = (\<lambda>_. 0), t_stopped = False\<rparr>"
    by (simp add: spec_static_def terminal_start_def sample_surroundings_def sample_world_def sample_platform_def
        readEnvVarAsBool_def console_env_check_def console_globals_init_def)
  have evs: "\<exists>t. spec_run (\<lambda>t. []) 0 sample_actions ?t = Some ([(1, Printed ''called''), (1, Line ''CTX'' LvWarning ''a.cpp'' 2 ''trueab''),
       (2, Line ''CTX'' LvFatal ''a.cpp'' 3 ''false''), (2, Stopped)], t) \<and> t_stopped t \<and> t_vars t ''x'' = 2"
    unfolding t by (simp add: sample_actions_def Let_def spec_log_def chain_items_def spec_enabled_def less_eq_LogLevel_def
        spec_statement_def within_def in_order_def stream_typed_def scope_default_def line_fits_def suffix_text_def location_text_def LogInfo_ctor_def
        getFileName_def dec_text_def printf_eval)
  then obtain t where t: "spec_run (\<lambda>t. []) 0 sample_actions ?t = Some ([(1, Printed ''called''), (1, Line ''CTX'' LvWarning ''a.cpp'' 2 ''trueab''),
       (2, Line ''CTX'' LvFatal ''a.cpp'' 3 ''false''), (2, Stopped)], t)" "t_stopped t" "t_vars t ''x'' = 2" by blast
  have "no_threads sample_surroundings (w_process sample_world)" "length (sr_junk sample_surroundings) = STATIC_SIZE"
    "\<exists>ob \<in> set (concat (map macro_objects (concat (map macro_expansion ?ms)))). is_context ob" "w_printed sample_world = []"
    by (simp_all add: no_threads_def sample_surroundings_def sample_world_def process_init_def sample_platform_def
        readEnvVarAsBool_def is_context_def)
  with program_refines_terminal[OF this(1,2,3) t(1), of "\<lambda>i. 0"] t(2,3) show ?thesis by auto
qed

end
