(* ===== verification/Example_Basic.thy ===== *)
theory Example_Basic
  imports Program
begin

text \<open>
  The example program of the repository (\<open>examples/basic\<close>), translated function by function, and what
  it prints on a terminal: every way of declaring a context and nearly every way of logging occurs
  in it. \<open>dir\<close> is the directory the compiler puts into \<open>__FILE__\<close>; \<open>h\<close>, \<open>p1\<close>, \<open>p2\<close> are the addresses
  of an array and of two objects, whose values the program prints.
\<close>

section \<open>Scopes\<close>

definition example_header :: "context_macro list" where
  "example_header = [LOG_IMPORT_CONTEXT ''mainContext'', LOG_IMPORT_CONTEXT ''anotherContext'']"

definition main_file :: "context_macro list" where
  "main_file = example_header @
     [LOG_DEFINE_APP_IDS ''MyAp'' ''This is a small application showing how to use ivi-logging'',
      LOG_DECLARE_DEFAULT_CONTEXT ''mainContext'' ''MAIN'' ''This is a description of that logging context'',
      LOG_DECLARE_CONTEXT ''anotherContext'' ''CXT2'' ''Another context'']"

definition MyNamespace :: "context_macro list" where
  "MyNamespace = [LOG_DECLARE_DEFAULT_CONTEXT ''MyNamespace::defaultContextForSpecificNamespace'' ''MAI2''
     ''This is a description of that logging context'']"

definition MyClass :: "context_macro list" where
  "MyClass = [LOG_DECLARE_CLASS_CONTEXT ''CCTX'' ''This is a class-specific context'']"

definition MySubClass :: "context_macro list" where
  "MySubClass = [LOG_DECLARE_CLASS_CONTEXT ''CC'' ''This is a class-specific context for our sub-class'']"

definition MyClassWithImportedContext :: "context_macro list" where
  "MyClassWithImportedContext = [LOG_SET_CLASS_CONTEXT ''anotherContext'']"

definition SecondClassWithImportedContext :: "context_macro list" where
  "SecondClassWithImportedContext = [LOG_SET_CLASS_CONTEXT ''anotherContext'']"

definition other_file :: "context_macro list" where
  "other_file = example_header @ [LOG_SET_DEFAULT_CONTEXT ''anotherContext'']"

definition MyClass2 :: "context_macro list" where
  "MyClass2 = [LOG_SET_CLASS_CONTEXT ''anotherContext'']"

definition main_cpp :: "string \<Rightarrow> string" where
  "main_cpp dir = dir @ ''/exampleLoggingMain.cpp''"

definition other_cpp :: "string \<Rightarrow> string" where
  "other_cpp dir = dir @ ''/exampleLoggingOtherFile.cpp''"

section \<open>Functions\<close>

text \<open>The parts of a statement: a string literal, a native value or string, a value of another type, a manipulator.\<close>

abbreviation str :: "string \<Rightarrow> part" where
  "str s \<equiv> Put (Value TCharArray (SCharArray (s @ [NUL])))"

abbreviation val :: "log_value \<Rightarrow> part" where
  "val v \<equiv> Put (Value TValue (SValue v))"

abbreviation put :: "cpp_type \<Rightarrow> streamable \<Rightarrow> part" where
  "put t v \<equiv> Put (Value t v)"

abbreviation manip :: "manipulator \<Rightarrow> part" where
  "manip m \<equiv> Put (Manipulator m)"

definition MyFunction :: "string \<Rightarrow> 64 word \<Rightarrow> action list" where
  "MyFunction dir h = (
     let log = (\<lambda>m line. Statement (DefaultContext [(''MyNamespace'', MyNamespace), (''main'', main_file)])
                 m (main_cpp dir) line ''void MyNamespace::MyFunction()'')
     in [log log_debug 25 [put (TCArray TValue) (SCArray (map (SValue \<circ> VSChar) [1, 2, 3, 4, 5, 6, 7, 8, 9]))],
         log log_debug 26 [NoFail ''XXX'', put (TTuple [TOther, TValue, TValue]) (STuple [SOther, SValue (VInt 8), SValue (VPtr h)])],
         log log_info 27 [str ''My function called'']])"

definition MyClass_doSomething :: "string \<Rightarrow> action list" where
  "MyClass_doSomething dir =
     [Statement (DefaultContext [(''MyClass'', MyClass), (''main'', main_file)])
        log_debug (main_cpp dir) 38 ''void MyClass::doSomething()'' [str ''We are doing something'']]"

definition MySubClass_doSomethingElse :: "string \<Rightarrow> action list" where
  "MySubClass_doSomethingElse dir = (
     let log = (\<lambda>m line. Statement (DefaultContext [(''MySubClass'', MySubClass), (''MyClass'', MyClass), (''main'', main_file)])
                 m (main_cpp dir) line ''void MySubClass::doSomethingElse()'')
     in [log log_debug 48 [str ''We are doing something else''],
         log log_verbose 49 [str ''This is a verbose log'']])"

definition Imported_doSomething :: "string \<Rightarrow> action list" where
  "Imported_doSomething dir =
     [Statement (DefaultContext [(''MyClassWithImportedContext'', MyClassWithImportedContext), (''main'', main_file)])
        log_debug (main_cpp dir) 59 ''void MyClassWithImportedContext::doSomething()''
        [str ''We are doing something. Imported context'']]"

definition Second_doSomething :: "string \<Rightarrow> action list" where
  "Second_doSomething dir =
     [Statement (DefaultContext [(''SecondClassWithImportedContext'', SecondClassWithImportedContext), (''main'', main_file)])
        log_debug (main_cpp dir) 69 ''void SecondClassWithImportedContext::doSomething()''
        [str ''We are doing something. Imported context'']]"

text \<open>The local context of \<open>myFunction\<close> is visible from its declaration on.\<close>

definition myFunction :: "string \<Rightarrow> action list" where
  "myFunction dir = (
     let func = ''void myFunction()'';
         before = DefaultContext [(''myFunction'', []), (''main'', main_file)];
         after = DefaultContext [(''myFunction'',
           [LOG_DECLARE_DEFAULT_LOCAL_CONTEXT ''CXT3'' ''Function-specific logging context'']), (''main'', main_file)];
         log = (\<lambda>m line. Statement after m (main_cpp dir) line func);
         i = VInt 555; dd = VLong 0x123456789;
         myArray = map (SValue \<circ> VUChar) [1, 2, 3];
         myMap = [(SValue (VUChar 1), SValue (VString ''aa'')), (SValue (VUChar 3), SValue (VString ''bb''))]
     in [Statement before log_debug (main_cpp dir) 75 func [val (VSChar 255)],
         Statement before log_debug (main_cpp dir) 76 func [val (VUChar 255)],
         log log_info 81 [str ''myFunction log 1''],
         log log_warn 82 [str ''myFunction log 2''],
         log log_debug 86 [str ''array: '', put (TSpan TValue) (SSpan myArray)],
         log log_debug 87 [str ''span: '', put (TStdArray TValue) (SStdArray myArray)],
         log log_debug 90 [str ''map: '', put (TMap TValue TValue) (SMap myMap)],
         log log_debug 93 [manip Hex, val i, manip Dec, str '' / '', val i],
         log log_debug 94 [val i, manip Endl],
         log log_info 96 [manip Hex, val i, manip Endl],
         log log_info 99 [val dd],
         log log_info 100 [manip Hex, val dd],
         log log_info 102 [put (TVariant [TValue, TValue]) (SVariant (Some (SValue (VString ''This is a variant''))))],
         log log_info 103 [str ''Not defined optional: '', put (TOptional TValue) (SOptional None)],
         log log_info 104 [str ''Defined optional: '', put (TOptional TValue) (SOptional (Some (SValue (VString ''optional value''))))],
         log log_info 106 [str ''Chrono duration in microseconds: '', put (TDuration Microseconds) (SDuration Microseconds 123)],
         log log_info 107 [str ''Chrono duration in milliseconds: '', put (TDuration Milliseconds) (SDuration Milliseconds 123)],
         log log_info 108 [str ''Chrono duration in seconds: '', put (TDuration Seconds) (SDuration Seconds 12)]])"

definition generateDataForLogging :: app_call where
  "generateDataForLogging vars = (let count = vars ''count'' + 1
     in (VInt 100, ''generateDataForLogging called '' @ dec_text count @ '' time(s)'' @ [LF], vars(''count'' := count)))"

text \<open>\<open>exampleLoggingOtherFile.cpp\<close>\<close>

definition MyClass2_doSomething :: "string \<Rightarrow> action list" where
  "MyClass2_doSomething dir =
     [Statement (DefaultContext [(''MyClass2'', MyClass2), (''other'', other_file)])
        log_debug (other_cpp dir) 11 ''void MyClass2::doSomething()'' [str ''We are doing something in an other file'']]"

definition myFunction2 :: "string \<Rightarrow> action list" where
  "myFunction2 dir =
     [Statement (DefaultContext [(''other'', other_file)])
        log_info (other_cpp dir) 17 ''void myFunction2()'' [str (''Using this file'' @ CHR 0x27 # ''s default context'')]] @
     MyClass2_doSomething dir"

definition disableConsoleLogging :: "action list" where
  "disableConsoleLogging = [SetGlobalLogLevel LvNone]"

definition DURATION :: nat where "DURATION = 1000"

fun countdown :: "string \<Rightarrow> nat \<Rightarrow> action list" where
  "countdown dir 0 = []"
| "countdown dir (Suc i) =
     [Statement (DefaultContext [(''main'', main_file)]) log_info (main_cpp dir) 173 ''int main(int, const char**)''
        [val (VInt (word_of_nat (Suc i))), str '' seconds before termination''],
      Sleep 1] @ countdown dir i"

text \<open>\<open>main\<close>, up to the loop, the loop, and what follows it.\<close>

definition main_log :: "string \<Rightarrow> severity_macro \<Rightarrow> int \<Rightarrow> part list \<Rightarrow> action" where
  "main_log dir m line = Statement (DefaultContext [(''main'', main_file)]) m (main_cpp dir) line
     ''int main(int, const char**)''"

definition main_formats :: "string \<Rightarrow> action list" where
  "main_formats dir =
     [Statement (WithContext NullContext) log_debug (main_cpp dir) 119 ''int main(int, const char**)''
        [manip Hex, str ''This log should not never be seen''],
      main_log dir log_debug 121 [WriteFormatted
        ''This log is using a format string, similar to the printf syntax. This is an int : %i'' [AInt 345]],
      main_log dir log_error 122 [WriteFormatted ''Another way to use the printf variant %i'' [AInt 7345],
        WriteFormatted ''. Done'' []],
      main_log dir log_error 124 [WriteFormatted ''This one is mixed. Here is a float : '' [], val (VFloat 0x40B66666)],
      main_log dir log_warn 125 [val (VDouble 0x4016CCCCCCCCCCCD)],
      main_log dir log_warn 126 [str ''Test string''],
      main_log dir log_error 128 [val (VView (take 41
        ''This is a string used via a string_view. XXXXX. This content should not be visible''))]]"

text \<open>\<open>rank\<close> is the order in which the compiler lets the four writes of line 145 happen.\<close>

definition main_arguments :: "string \<Rightarrow> (nat \<Rightarrow> nat) \<Rightarrow> action list" where
  "main_arguments dir rank =
     [main_log dir log_error 145 [WriteArgs rank [VCStr (Some (''Values can be passed at once to the write method. '' @ [NUL])),
        VString ''That is a std::string'', VCStr (Some ('' / '' @ [NUL])), VInt 1234]],
      main_log dir log_warn 151 [str ''This is a vector of chars : '',
        put (TVector TValue) (SVector (map (\<lambda>i. SValue (VChar (word_of_nat i))) [48..<48 + 40 + 1]))]]"

definition main_values :: "string \<Rightarrow> 64 word \<Rightarrow> 64 word \<Rightarrow> action list" where
  "main_values dir p1 p2 =
     [main_log dir log_debug 159 [put (TVector TValue) (SVector [SValue (VPtr p1), SValue (VPtr p2)])],
      main_log dir log_warn 161 [PutCall generateDataForLogging],
      main_log dir log_verbose 162 [PutCall generateDataForLogging],
      main_log dir log_info 164 [str ''A log with std::endl'', manip Endl],
      main_log dir log_info 165 [str ''A log with std::ends'', manip Ends],
      main_log dir log_info 166 [str ''A log with std::flush'', manip Flush],
      main_log dir log_info 170 [str ''Waiting '', val (VInt (word_of_nat DURATION)), str '' seconds'']]"

definition main_end :: "string \<Rightarrow> action list" where
  "main_end dir = disableConsoleLogging @
     [main_log dir log_error 178 [str ''This log should not visible in the console''],
      main_log dir log_info 180 [str ''We are done. Bye'']]"

definition main_actions :: "string \<Rightarrow> (nat \<Rightarrow> nat) \<Rightarrow> 64 word \<Rightarrow> 64 word \<Rightarrow> 64 word \<Rightarrow> action list" where
  "main_actions dir rank h p1 p2 = main_formats dir @ myFunction dir @ myFunction2 dir @
     MyClass_doSomething dir @ MySubClass_doSomethingElse dir @ Imported_doSomething dir @ Second_doSomething dir @
     main_arguments dir rank @ MyFunction dir h @ main_values dir p1 p2 @ countdown dir DURATION @ main_end dir"

definition logging_example :: "surroundings \<Rightarrow> (nat \<Rightarrow> int) \<Rightarrow> (int \<Rightarrow> string) \<Rightarrow> context_type \<Rightarrow> string \<Rightarrow>
    (nat \<Rightarrow> nat) \<Rightarrow> 64 word \<Rightarrow> 64 word \<Rightarrow> 64 word \<Rightarrow> world \<Rightarrow> program option" where
  "logging_example sr clock tm types dir rank h p1 p2 w =
     run sr clock tm types 0 (main_actions dir rank h p1 p2)
       (static_init sr types (main_file @ MyNamespace) (program_start w))"

section \<open>What each function prints\<close>

text \<open>The events of a run without the times.\<close>

fun spec_events :: "(int \<Rightarrow> string) \<Rightarrow> action list \<Rightarrow> terminal \<Rightarrow> (event list \<times> terminal) option" where
  "spec_events tm [] t = Some ([], t)"
| "spec_events tm (a # as) t = (if t_stopped t then Some ([], t) else do {
     (es, t) \<leftarrow> spec_action tm a t;
     (fs, t) \<leftarrow> spec_events tm as t;
     Some (es @ fs, t) })"

lemma spec_events_run:
  "spec_events tm as t = Some (es, t') \<Longrightarrow> \<exists>fs. spec_run tm i as t = Some (fs, t') \<and> map snd fs = es"
proof (induction as arbitrary: i t es)
  case (Cons a as)
  show ?case
  proof (cases "t_stopped t")
    case False
    with Cons.prems obtain fs t1 gs where "spec_action tm a t = Some (fs, t1)"
      "spec_events tm as t1 = Some (gs, t')" "es = fs @ gs" by (auto split: bind_splits)
    with False Cons.IH[of t1 gs "i + 1"] show ?thesis by (auto simp: comp_def)
  qed (use Cons.prems in auto)
qed simp

lemma spec_events_stopped: "t_stopped t \<Longrightarrow> spec_events tm as t = Some ([], t)"
  by (cases as) auto

lemma spec_events_append:
  "spec_events tm (as @ bs) t = do {
     (es, t) \<leftarrow> spec_events tm as t; (fs, t) \<leftarrow> spec_events tm bs t; Some (es @ fs, t) }"
proof (induction as arbitrary: t)
  case (Cons a as)
  show ?case
  proof (cases "t_stopped t")
    case True
    then show ?thesis by (simp add: spec_events_stopped)
  next
    case False
    then show ?thesis by (cases "spec_action tm a t") (auto simp: Cons.IH split: bind_splits)
  qed
qed (simp add: case_prod_beta)



lemma getDefault_main:
  "getDefaultContext [(''main'', main_file)] = Some (GlobalContext ''mainContext'')"
  "getDefaultContext [(''myFunction'', []), (''main'', main_file)] = Some (GlobalContext ''mainContext'')"
  "getDefaultContext [(''myFunction'', [LOG_DECLARE_DEFAULT_LOCAL_CONTEXT i d]), (''main'', main_file)] =
     Some (LocalStatic ''myFunction'' i d)"
  "getDefaultContext [(''MyNamespace'', MyNamespace), (''main'', main_file)] =
     Some (GlobalContext ''MyNamespace::defaultContextForSpecificNamespace'')"
  "getDefaultContext [(''MyClass'', MyClass), (''main'', main_file)] =
     Some (LocalStatic ''MyClass'' ''CCTX'' ''This is a class-specific context'')"
  "getDefaultContext [(''MySubClass'', MySubClass), (''MyClass'', MyClass), (''main'', main_file)] =
     Some (LocalStatic ''MySubClass'' ''CC'' ''This is a class-specific context for our sub-class'')"
  "getDefaultContext [(''MyClassWithImportedContext'', MyClassWithImportedContext), (''main'', main_file)] =
     Some (GlobalContext ''anotherContext'')"
  "getDefaultContext [(''SecondClassWithImportedContext'', SecondClassWithImportedContext), (''main'', main_file)] =
     Some (GlobalContext ''anotherContext'')"
  "getDefaultContext [(''other'', other_file)] = Some (GlobalContext ''anotherContext'')"
  "getDefaultContext [(''MyClass2'', MyClass2), (''other'', other_file)] = Some (GlobalContext ''anotherContext'')"
  by (simp_all add: scope_default_def main_file_def example_header_def MyNamespace_def MyClass_def MySubClass_def
      MyClassWithImportedContext_def SecondClassWithImportedContext_def other_file_def MyClass2_def)

declare getDefaultContext.simps [simp del]

lemma known_context: "t_contexts t n = Some c \<Longrightarrow> t\<lparr>t_contexts := (t_contexts t)(n \<mapsto> c)\<rparr> = t"
  by (cases t) (simp add: fun_upd_idem)

lemma spec_log_known:
  "t_contexts t (ref_name ref) = Some c \<Longrightarrow> spec_log tm ref level path line parts t = do {
     _ \<leftarrow> chain_items tm parts;
     if spec_enabled level (snd c) t then spec_statement tm (fst c) level path line parts t else Some ([], t) }"
  by (simp add: spec_log_def known_context Let_def)

text \<open>The first use of a static constructs it; otherwise it is like any other.\<close>

lemma spec_log_first:
  assumes "spec_context ref t = Some c"
  shows "spec_log tm ref level path line parts t =
    spec_log tm ref level path line parts (t\<lparr>t_contexts := (t_contexts t)(ref_name ref \<mapsto> c)\<rparr>)"
  using assms by (simp add: spec_log_def Let_def)

lemma same_terminal:
  "\<not> t_stopped t \<Longrightarrow> t\<lparr>t_vars := t_vars t, t_stopped := False\<rparr> = t"
  "\<not> t_stopped t \<Longrightarrow> t\<lparr>t_stopped := False\<rparr> = t"
  by (cases t; simp)+

lemma short_location:
  "fst (getFileName (LogInfo_ctor l (main_cpp dir) n f)) = ''exampleLoggingMain.cpp''"
  "fst (getFileName (LogInfo_ctor l (other_cpp dir) n f)) = ''exampleLoggingOtherFile.cpp''"
  using getFileName_basename[of l "main_cpp dir" n f] getFileName_basename[of l "other_cpp dir" n f]
  by (simp_all add: main_cpp_def other_cpp_def)

lemma length_dec_text: "length (dec_text (to_signed 32 n)) \<le> 11"
proof -
  have "- (2 ^ 31) \<le> to_signed 32 n" "to_signed 32 n < 2 ^ 31"
    using to_signed_range[of 32 n] by simp_all
  then have "nat \<bar>to_signed 32 n\<bar> < 10 ^ Suc 9" by simp
  then have "length (radix 10 (nat \<bar>to_signed 32 n\<bar>)) \<le> Suc 9" by (subst length_radix_le) auto
  then show ?thesis by (auto simp: dec_text_def)
qed

lemma ctor_line: "m_lineNumber (LogInfo_ctor l path n f) = n"
  by (simp add: LogInfo_ctor_def)

lemma fits_example:
  "line_fits (main_cpp dir) n u \<longleftrightarrow> length u < 2 ^ 29" "line_fits (other_cpp dir) n u \<longleftrightarrow> length u < 2 ^ 29"
  using length_dec_text[of n]
  by (auto simp: line_fits_def suffix_text_def location_text_def short_location ctor_line)

lemma spec_events_lines:
  "\<not> t_stopped t \<Longrightarrow> list_all2 (\<lambda>a e. spec_action tm a t = Some ([e], t)) as es \<Longrightarrow>
     spec_events tm as t = Some (es, t)"
  by (induction as arbitrary: es) (auto simp: list_all2_Cons1)

lemmas example_eval = getDefault_main spec_log_known chain_items_def
  spec_enabled_def less_eq_LogLevel_def spec_statement_def within_def fits_example same_terminal

lemma example_floats:
  "fp_text 6 (fp_of_f32 0x40B66666) = ''5.700000''" "fp_text 6 (fp_of_f64 0x4016CCCCCCCCCCCD) = ''5.700000''"
  by (simp_all add: fp_of_f32_def fp_of_f64_def fp_decode_def fixed_text_def round_div_def pad_left_def Let_def printf_eval)

definition ready :: "terminal \<Rightarrow> bool" where
  "ready t \<longleftrightarrow> t_level t = LvDebug \<and> \<not> t_stopped t \<and>
     t_contexts t ''mainContext'' = Some (''MAIN'', Some LvDebug) \<and>
     t_contexts t ''anotherContext'' = Some (''CXT2'', Some LvDebug) \<and>
     t_contexts t ''MyNamespace::defaultContextForSpecificNamespace'' = Some (''MAI2'', Some LvDebug)"

lemma main_formats_shown:
  assumes "ready t"
  shows "spec_events tm (tl (main_formats dir)) t = Some (map (\<lambda>(level, line, u). Line ''MAIN'' level (main_cpp dir) line u)
    [(LvDebug, 121, ''This log is using a format string, similar to the printf syntax. This is an int : 345''),
     (LvError, 122, ''Another way to use the printf variant 7345. Done''),
     (LvError, 124, ''This one is mixed. Here is a float : 5.700000''),
     (LvWarning, 125, ''5.700000''),
     (LvWarning, 126, ''Test string''),
     (LvError, 128, ''This is a string used via a string_view. '')], t)"
  unfolding main_formats_def main_log_def list.sel
  using assms by (intro spec_events_lines) (simp_all add: example_eval ready_def dec_text_def printf_eval example_floats stream_typed_def stream_chars_def c_string_def)

lemma spec_events_step:
  "\<not> t_stopped t \<Longrightarrow> spec_action tm a t = Some (es, t1) \<Longrightarrow> spec_events tm as t1 = Some (fs, t2) \<Longrightarrow>
     spec_events tm (a # as) t = Some (es @ fs, t2)"
  by simp

lemmas text_eval = stream_typed_def dec_text_def printf_eval example_floats stream_chars_def c_string_def int_value_text_def
  literal_def to_unsigned_def stream_duration_def stream_variant_def stream_optional_def streamArrayType_def streamMapType_def printTuple_def stream_unsupported_def noFail_def
  enableUnsupportedTypes_def

lemma null_statement_shown:
  assumes "ready t" and "t_contexts t ''logging::getNullContext'' = None"
  shows "spec_action tm (hd (main_formats dir)) t =
    Some ([], t\<lparr>t_contexts := (t_contexts t)(''logging::getNullContext'' \<mapsto> (''NULL'', None))\<rparr>)"
  using assms
  by (simp add: main_formats_def spec_log_def chain_items_def spec_enabled_def text_eval ready_def)

lemma myFunction_shown:
  assumes "ready t" and "t_contexts t ''myFunction::getDefaultContext'' = None"
  shows "spec_events tm (myFunction dir) t = Some (map (\<lambda>(ident, level, line, u). Line ident level (main_cpp dir) line u)
    [(''MAIN'', LvDebug, 75, ''-1''),
     (''MAIN'', LvDebug, 76, ''255''),
     (''CXT3'', LvInfo, 81, ''myFunction log 1''),
     (''CXT3'', LvWarning, 82, ''myFunction log 2''),
     (''CXT3'', LvDebug, 86, ''array: [ 1, 2, 3 ]''),
     (''CXT3'', LvDebug, 87, ''span: [ 1, 2, 3 ]''),
     (''CXT3'', LvDebug, 90, ''map:  [ { 1=aa }, { 3=bb } ] ''),
     (''CXT3'', LvDebug, 93, ''22B / 555''),
     (''CXT3'', LvDebug, 94, ''555'' @ [LF]),
     (''CXT3'', LvInfo, 96, ''22B'' @ [LF]),
     (''CXT3'', LvInfo, 99, ''4886718345''),
     (''CXT3'', LvInfo, 100, ''123456789''),
     (''CXT3'', LvInfo, 102, ''This is a variant''),
     (''CXT3'', LvInfo, 103, ''Not defined optional: {}''),
     (''CXT3'', LvInfo, 104, ''Defined optional: optional value''),
     (''CXT3'', LvInfo, 106, ''Chrono duration in microseconds: 123us''),
     (''CXT3'', LvInfo, 107, ''Chrono duration in milliseconds: 123ms''),
     (''CXT3'', LvInfo, 108, ''Chrono duration in seconds: 12s'')],
    t\<lparr>t_contexts := (t_contexts t)(''myFunction::getDefaultContext'' \<mapsto> (''CXT3'', Some LvDebug))\<rparr>)"
proof -
  let ?t1 = "t\<lparr>t_contexts := (t_contexts t)(''myFunction::getDefaultContext'' \<mapsto> (''CXT3'', Some LvDebug))\<rparr>"
  let ?rest = "tl (tl (myFunction dir))"
  have run: "\<not> t_stopped t" "\<not> t_stopped ?t1" using assms by (simp_all add: ready_def)
  have split: "myFunction dir = hd (myFunction dir) # hd (tl (myFunction dir)) # ?rest"
    by (simp add: myFunction_def Let_def)
  have one: "spec_action tm (hd (myFunction dir)) t = Some ([Line ''MAIN'' LvDebug (main_cpp dir) 75 ''-1''], t)"
    "spec_action tm (hd (tl (myFunction dir))) t = Some ([Line ''MAIN'' LvDebug (main_cpp dir) 76 ''255''], t)"
    using assms by (simp_all add: myFunction_def Let_def example_eval ready_def text_eval)
  have two: "spec_events tm ?rest ?t1 = Some (map (\<lambda>(level, line, u). Line ''CXT3'' level (main_cpp dir) line u)
    [(LvInfo, 81, ''myFunction log 1''),
     (LvWarning, 82, ''myFunction log 2''),
     (LvDebug, 86, ''array: [ 1, 2, 3 ]''),
     (LvDebug, 87, ''span: [ 1, 2, 3 ]''),
     (LvDebug, 90, ''map:  [ { 1=aa }, { 3=bb } ] ''),
     (LvDebug, 93, ''22B / 555''),
     (LvDebug, 94, ''555'' @ [LF]),
     (LvInfo, 96, ''22B'' @ [LF]),
     (LvInfo, 99, ''4886718345''),
     (LvInfo, 100, ''123456789''),
     (LvInfo, 102, ''This is a variant''),
     (LvInfo, 103, ''Not defined optional: {}''),
     (LvInfo, 104, ''Defined optional: optional value''),
     (LvInfo, 106, ''Chrono duration in microseconds: 123us''),
     (LvInfo, 107, ''Chrono duration in milliseconds: 123ms''),
     (LvInfo, 108, ''Chrono duration in seconds: 12s'')], ?t1)"
    unfolding myFunction_def Let_def list.sel
    using assms by (intro spec_events_lines) (simp_all add: example_eval ready_def text_eval hex_text_def)
  have "spec_action tm (hd ?rest) t = spec_action tm (hd ?rest) ?t1"
    using assms by (simp add: myFunction_def Let_def getDefault_main ready_def
        spec_log_first[of _ t "(''CXT3'', Some LvDebug)"])
  then have "spec_events tm ?rest t = spec_events tm ?rest ?t1"
    using run by (simp add: myFunction_def Let_def del: spec_action.simps)
  with one two run show ?thesis by (subst split) (simp del: spec_action.simps)
qed

text \<open>The functions whose statements all run in constructed contexts.\<close>

lemma imported_shown:
  assumes "ready t"
  shows "spec_events tm (Imported_doSomething dir) t =
      Some ([Line ''CXT2'' LvDebug (main_cpp dir) 59 ''We are doing something. Imported context''], t)"
    "spec_events tm (Second_doSomething dir) t =
      Some ([Line ''CXT2'' LvDebug (main_cpp dir) 69 ''We are doing something. Imported context''], t)"
    "spec_events tm (myFunction2 dir) t =
      Some ([Line ''CXT2'' LvInfo (other_cpp dir) 17 (''Using this file'' @ CHR 0x27 # ''s default context''),
             Line ''CXT2'' LvDebug (other_cpp dir) 11 ''We are doing something in an other file''], t)"
  using assms
  by (simp_all add: Imported_doSomething_def Second_doSomething_def myFunction2_def MyClass2_doSomething_def
      example_eval ready_def text_eval)

lemma MyClass_shown:
  assumes "ready t" and "t_contexts t ''MyClass::getDefaultContext'' = None"
  shows "spec_events tm (MyClass_doSomething dir) t =
    Some ([Line ''CCTX'' LvDebug (main_cpp dir) 38 ''We are doing something''],
      t\<lparr>t_contexts := (t_contexts t)(''MyClass::getDefaultContext'' \<mapsto> (''CCTX'', Some LvDebug))\<rparr>)"
  using assms
  by (simp add: MyClass_doSomething_def getDefault_main ready_def spec_log_first[of _ t "(''CCTX'', Some LvDebug)"]
      example_eval text_eval)

lemma MySubClass_shown:
  assumes "ready t" and "t_contexts t ''MySubClass::getDefaultContext'' = None"
  shows "spec_events tm (MySubClass_doSomethingElse dir) t =
    Some ([Line ''CC'' LvDebug (main_cpp dir) 48 ''We are doing something else''],
      t\<lparr>t_contexts := (t_contexts t)(''MySubClass::getDefaultContext'' \<mapsto> (''CC'', Some LvDebug))\<rparr>)"
  using assms
  by (simp add: MySubClass_doSomethingElse_def Let_def getDefault_main ready_def spec_log_first[of _ t "(''CC'', Some LvDebug)"]
      example_eval text_eval)

lemma length_address: "length (hex_text (uint (p :: 64 word))) \<le> 16"
proof -
  have "nat (uint p) < nat (2 ^ 64)" using uint_lt2p[of p] by (subst nat_mono_iff) simp_all
  then have "nat (uint p) < 16 ^ Suc 15" by simp
  then show ?thesis unfolding hex_text_def by (subst length_radix_le[of 16 _ 15, simplified]) auto
qed

lemma MyFunction_shown:
  assumes "ready t"
  shows "spec_events tm (MyFunction dir h) t = Some (map (\<lambda>(level, line, u). Line ''MAI2'' level (main_cpp dir) line u)
    [(LvDebug, 25, ''[ 1, 2, 3, 4, 5, 6, 7, 8, 9 ]''),
     (LvDebug, 26, ''{XXX, 8, 0x'' @ hex_text (uint h) @ ''}''),
     (LvInfo, 27, ''My function called'')], t)"
  unfolding MyFunction_def Let_def
  using assms length_address[of h]
  by (intro spec_events_lines) (simp_all add: example_eval ready_def text_eval)

lemma countdown_shown:
  assumes "ready t"
  shows "n < 2 ^ 31 \<Longrightarrow> spec_events tm (countdown dir n) t =
    Some (map (\<lambda>i. Line ''MAIN'' LvInfo (main_cpp dir) 173 (dec_text (int i) @ '' seconds before termination''))
      (rev [1..<Suc n]), t)"
proof (induction n)
  case (Suc n)
  have i: "sint (word_of_nat (Suc n) :: 32 word) = int (Suc n)"
    using Suc.prems by (simp add: signed_of_nat signed_take_bit_int_eq_self del: of_nat_Suc)
  have "length (dec_text (int (Suc n))) \<le> 11"
    using Suc.prems length_dec_text[of "int (Suc n)"] to_signed_id[of 32 "int (Suc n)"] by simp
  then have "spec_events tm (countdown dir (Suc n)) t = do {
      (es, t) \<leftarrow> spec_events tm (countdown dir n) t;
      Some (Line ''MAIN'' LvInfo (main_cpp dir) 173 (dec_text (int (Suc n)) @ '' seconds before termination'') # es, t) }"
    using assms i by (simp add: example_eval ready_def stream_typed_def stream_chars_def c_string_def int_value_text_def cstr_def del: of_nat_Suc)
  with Suc show ?case by simp
qed simp

text \<open>
  The text of line 145: the four texts in the order of the compiler. In the order of the source it reads as
  meant; from right to left it does not.
\<close>

definition arguments_text :: "(nat \<Rightarrow> nat) \<Rightarrow> string" where
  "arguments_text rank = concat (in_order rank
     [''Values can be passed at once to the write method. '', ''That is a std::string'', '' / '', ''1234''])"

lemma write_order_matters:
  "arguments_text (\<lambda>i. i) = ''Values can be passed at once to the write method. That is a std::string / 1234''"
  "arguments_text (\<lambda>i. 3 - i) = ''1234 / That is a std::stringValues can be passed at once to the write method. ''"
  by (simp_all add: arguments_text_def in_order_def)

lemma length_arguments_text: "length (arguments_text rank) < 2 ^ 29"
  unfolding arguments_text_def length_concat_in_order by simp

lemma main_arguments_shown:
  assumes "ready t"
  shows "spec_events tm (main_arguments dir rank) t =
      Some (map (\<lambda>(level, line, u). Line ''MAIN'' level (main_cpp dir) line u)
       [(LvError, 145, arguments_text rank),
        (LvWarning, 151, ''This is a vector of chars : [ '' @
          ''48, 49, 50, 51, 52, 53, 54, 55, 56, 57, 58, 59, 60, 61, 62, 63, 64, 65, 66, 67, 68, 69, 70, 71, 72, 73, 74, 75, 76, 77, 78, 79, 80, 81, 82, 83, 84, 85, 86, 87, 88 ]'')], t)"
proof -
  let ?args = "[VCStr (Some (''Values can be passed at once to the write method. '' @ [NUL])),
        VString ''That is a std::string'', VCStr (Some ('' / '' @ [NUL])), VInt 1234]"
  have texts: "texts False (in_order rank ?args) = arguments_text rank"
    unfolding texts_in_order arguments_text_def by (simp add: text_eval cstr_def)
  show ?thesis
    unfolding main_arguments_def main_log_def
    using assms texts length_arguments_text[of rank]
    by (intro spec_events_lines) (simp_all add: example_eval ready_def text_eval)
qed

lemma main_values_shown:
  assumes "ready t" and "t_vars t ''count'' = 0"
  shows "spec_events tm (main_values dir p1 p2) t =
      Some ([Line ''MAIN'' LvDebug (main_cpp dir) 159 (''[ 0x'' @ hex_text (uint p1) @ '', 0x'' @ hex_text (uint p2) @ '' ]''),
       Printed (''generateDataForLogging called 1 time(s)'' @ [LF])] @
       map (\<lambda>(level, line, u). Line ''MAIN'' level (main_cpp dir) line u)
       [(LvWarning, 161, ''100''),
        (LvInfo, 164, ''A log with std::endl'' @ [LF]),
        (LvInfo, 165, ''A log with std::ends''),
        (LvInfo, 166, ''A log with std::flush''),
        (LvInfo, 170, ''Waiting 1000 seconds'')], t\<lparr>t_vars := (t_vars t)(''count'' := 1)\<rparr>)"
  unfolding main_values_def main_log_def
  using assms length_address[of p1] length_address[of p2]
  by (simp add: example_eval ready_def text_eval generateDataForLogging_def DURATION_def)

lemma main_end_shown:
  assumes "ready t"
  shows "spec_events tm (main_end dir) t = Some ([], t\<lparr>t_level := LvNone\<rparr>)"
  using assms by (simp add: main_end_def disableConsoleLogging_def main_log_def example_eval ready_def text_eval)

section \<open>What the program prints\<close>

abbreviation main_line :: "string \<Rightarrow> LogLevel \<Rightarrow> int \<Rightarrow> string \<Rightarrow> event" where
  "main_line dir level line text \<equiv> Line ''MAIN'' level (main_cpp dir) line text"

text \<open>Every line of the program, in order: context, severity, source line and text.\<close>

definition transcript :: "string \<Rightarrow> (nat \<Rightarrow> nat) \<Rightarrow> 64 word \<Rightarrow> 64 word \<Rightarrow> 64 word \<Rightarrow> event list" where
  "transcript dir rank h p1 p2 =
    map (\<lambda>(ident, level, line, u). Line ident level (main_cpp dir) line u)
    [(''MAIN'', LvDebug, 121, ''This log is using a format string, similar to the printf syntax. This is an int : 345''),
     (''MAIN'', LvError, 122, ''Another way to use the printf variant 7345. Done''),
     (''MAIN'', LvError, 124, ''This one is mixed. Here is a float : 5.700000''),
     (''MAIN'', LvWarning, 125, ''5.700000''),
     (''MAIN'', LvWarning, 126, ''Test string''),
     (''MAIN'', LvError, 128, ''This is a string used via a string_view. ''),
     (''MAIN'', LvDebug, 75, ''-1''),
     (''MAIN'', LvDebug, 76, ''255''),
     (''CXT3'', LvInfo, 81, ''myFunction log 1''),
     (''CXT3'', LvWarning, 82, ''myFunction log 2''),
     (''CXT3'', LvDebug, 86, ''array: [ 1, 2, 3 ]''),
     (''CXT3'', LvDebug, 87, ''span: [ 1, 2, 3 ]''),
     (''CXT3'', LvDebug, 90, ''map:  [ { 1=aa }, { 3=bb } ] ''),
     (''CXT3'', LvDebug, 93, ''22B / 555''),
     (''CXT3'', LvDebug, 94, ''555'' @ [LF]),
     (''CXT3'', LvInfo, 96, ''22B'' @ [LF]),
     (''CXT3'', LvInfo, 99, ''4886718345''),
     (''CXT3'', LvInfo, 100, ''123456789''),
     (''CXT3'', LvInfo, 102, ''This is a variant''),
     (''CXT3'', LvInfo, 103, ''Not defined optional: {}''),
     (''CXT3'', LvInfo, 104, ''Defined optional: optional value''),
     (''CXT3'', LvInfo, 106, ''Chrono duration in microseconds: 123us''),
     (''CXT3'', LvInfo, 107, ''Chrono duration in milliseconds: 123ms''),
     (''CXT3'', LvInfo, 108, ''Chrono duration in seconds: 12s'')] @
    [Line ''CXT2'' LvInfo (other_cpp dir) 17 (''Using this file'' @ CHR 0x27 # ''s default context''),
     Line ''CXT2'' LvDebug (other_cpp dir) 11 ''We are doing something in an other file'',
     Line ''CCTX'' LvDebug (main_cpp dir) 38 ''We are doing something'',
     Line ''CC'' LvDebug (main_cpp dir) 48 ''We are doing something else'',
     Line ''CXT2'' LvDebug (main_cpp dir) 59 ''We are doing something. Imported context'',
     Line ''CXT2'' LvDebug (main_cpp dir) 69 ''We are doing something. Imported context'',
     main_line dir LvError 145 (arguments_text rank),
     main_line dir LvWarning 151 (''This is a vector of chars : [ '' @
       ''48, 49, 50, 51, 52, 53, 54, 55, 56, 57, 58, 59, 60, 61, 62, 63, 64, 65, 66, 67, 68, 69, 70, 71, 72, 73, 74, 75, 76, 77, 78, 79, 80, 81, 82, 83, 84, 85, 86, 87, 88 ]''),
     Line ''MAI2'' LvDebug (main_cpp dir) 25 ''[ 1, 2, 3, 4, 5, 6, 7, 8, 9 ]'',
     Line ''MAI2'' LvDebug (main_cpp dir) 26 (''{XXX, 8, 0x'' @ hex_text (uint h) @ ''}''),
     Line ''MAI2'' LvInfo (main_cpp dir) 27 ''My function called'',
     main_line dir LvDebug 159 (''[ 0x'' @ hex_text (uint p1) @ '', 0x'' @ hex_text (uint p2) @ '' ]''),
     Printed (''generateDataForLogging called 1 time(s)'' @ [LF]),
     main_line dir LvWarning 161 ''100'',
     main_line dir LvInfo 164 (''A log with std::endl'' @ [LF]),
     main_line dir LvInfo 165 ''A log with std::ends'',
     main_line dir LvInfo 166 ''A log with std::flush'',
     main_line dir LvInfo 170 ''Waiting 1000 seconds''] @
    map (\<lambda>i. main_line dir LvInfo 173 (dec_text (int i) @ '' seconds before termination'')) (rev [1..<1001])"

lemma main_static_objects:
  "concat (map macro_objects (concat (map macro_expansion (main_file @ MyNamespace)))) =
     [AppIds ''MyAp'' ''This is a small application showing how to use ivi-logging'',
      ContextObject ''mainContext'' ''MAIN'' ''This is a description of that logging context'',
      ContextObject ''anotherContext'' ''CXT2'' ''Another context'',
      ContextObject ''MyNamespace::defaultContextForSpecificNamespace'' ''MAI2''
        ''This is a description of that logging context'']"
  by (simp add: main_file_def example_header_def MyNamespace_def)

lemma main_ready:
  assumes "t_level (terminal_start os w) = LvDebug" "\<not> w_aborted w"
  shows "ready (spec_static (main_file @ MyNamespace) (terminal_start os w))"
  using assms unfolding spec_static_def main_static_objects
  by (simp add: ready_def terminal_start_def)

text \<open>Constructing further contexts leaves the three of the files ready.\<close>

lemma ready_updates [simp]:
  "n \<notin> {''mainContext'', ''anotherContext'', ''MyNamespace::defaultContextForSpecificNamespace''} \<Longrightarrow>
     ready (t\<lparr>t_contexts := m(n \<mapsto> c)\<rparr>) \<longleftrightarrow> ready (t\<lparr>t_contexts := m\<rparr>)"
  "ready (t\<lparr>t_vars := v\<rparr>) \<longleftrightarrow> ready t"
  by (auto simp: ready_def)

lemma main_shown:
  assumes "ready t" and "t_vars t ''count'' = 0" and "\<forall>n \<in> {''logging::getNullContext'', ''myFunction::getDefaultContext'',
    ''MyClass::getDefaultContext'', ''MySubClass::getDefaultContext''}. t_contexts t n = None"
  shows "\<exists>t'. spec_events tm (main_actions dir rank h p1 p2) t = Some (transcript dir rank h p1 p2, t') \<and> \<not> t_stopped t'"
proof -
  have formats: "main_formats dir = [hd (main_formats dir)] @ tl (main_formats dir)"
    by (simp add: main_formats_def)
  have "\<not> t_stopped t" using assms(1) by (simp add: ready_def)
  then show ?thesis using assms
    unfolding main_actions_def
    by (subst formats)
       (simp add: spec_events_append null_statement_shown main_formats_shown myFunction_shown imported_shown
         MyClass_shown MySubClass_shown MyFunction_shown main_arguments_shown main_values_shown countdown_shown
         main_end_shown transcript_def DURATION_def del: spec_action.simps upt.simps)
qed

text \<open>
  C17. The example program, built with the console back end, on a terminal with the thread names off
  and the default level: it runs to its end and prints \<open>transcript\<close>, whatever the clock, the colours,
  the paths and the order in which the compiler lets the four writes of line 145 happen (their texts are
  all there, in that order). Each statement uses the context of the innermost scope that declares one (the
  function's own, that of its class, of the base class, of the namespace or of the file), a class
  context is constructed at its first use, the null context prints nothing, a disabled verbose
  statement does not call \<open>generateDataForLogging\<close>, and nothing follows \<open>disableConsoleLogging\<close>.
\<close>

theorem example_transcript:
  assumes "no_threads sr (w_process w)" and "length (sr_junk sr) = STATIC_SIZE"
    and "s_defaultLogLevel (console_env_check (sr_platform sr) (w_console w)) = LvDebug"
    and "\<not> w_aborted w" and "w_app w ''count'' = 0"
  shows "\<exists>p evs. logging_example sr clock tm [ConsoleLogContext] dir rank h p1 p2 w = Some p \<and>
    w_printed (pr_world p) = w_printed w @ map (render sr clock) evs \<and>
    map snd evs = transcript dir rank h p1 p2 \<and> \<not> w_aborted (pr_world p)"
proof -
  let ?macros = "main_file @ MyNamespace"
  let ?p = "static_init sr [ConsoleLogContext] ?macros (program_start w)"
  let ?t = "spec_static ?macros (terminal_start (sr_platform sr) w)"
  have start: "program_rel sr ?p ?t \<and> w_printed (pr_world ?p) = w_printed w"
    using assms(1) by (rule static_init_rel) (simp add: main_static_objects is_context_def del: concat_append map_append)
  have "ready ?t" using assms(3,4) by (intro main_ready) (simp_all add: terminal_start_def)
  moreover have "t_vars ?t ''count'' = 0" "\<forall>n \<in> {''logging::getNullContext'', ''myFunction::getDefaultContext'',
      ''MyClass::getDefaultContext'', ''MySubClass::getDefaultContext''}. t_contexts ?t n = None"
    using assms(5) unfolding spec_static_def main_static_objects by (simp_all add: terminal_start_def)
  ultimately obtain t' where "spec_events tm (main_actions dir rank h p1 p2) ?t = Some (transcript dir rank h p1 p2, t')"
    "\<not> t_stopped t'" using main_shown by blast
  with spec_events_run obtain evs where evs: "spec_run tm 0 (main_actions dir rank h p1 p2) ?t = Some (evs, t')"
    "map snd evs = transcript dir rank h p1 p2" "\<not> t_stopped t'" by blast
  from run_refines[OF conjunct1[OF start] assms(2) evs(1), of clock] start evs(2,3) show ?thesis
    by (auto simp: logging_example_def program_rel_def Let_def)
qed

theorem example_transcript_witness:
  "\<exists>p evs. logging_example sample_surroundings (\<lambda>i. int i) (\<lambda>t. []) [ConsoleLogContext] ''src'' (\<lambda>i. 3 - i) 0 0x10 0x20 sample_world = Some p \<and>
    w_printed (pr_world p) = map (render sample_surroundings (\<lambda>i. int i)) evs \<and>
    map snd evs = transcript ''src'' (\<lambda>i. 3 - i) 0 0x10 0x20 \<and> \<not> w_aborted (pr_world p)"
proof -
  have "no_threads sample_surroundings (w_process sample_world)" "\<not> w_aborted sample_world"
    "length (sr_junk sample_surroundings) = STATIC_SIZE" "w_app sample_world ''count'' = 0" "w_printed sample_world = []"
    "s_defaultLogLevel (console_env_check (sr_platform sample_surroundings) (w_console sample_world)) = LvDebug"
    by (simp_all add: no_threads_def sample_surroundings_def sample_world_def process_init_def sample_platform_def
        readEnvVarAsBool_def console_env_check_def console_globals_init_def)
  from example_transcript[OF this(1,3,6,2,4), of "\<lambda>i. int i" "\<lambda>t. []" "''src''" "\<lambda>i. 3 - i" 0 "0x10" "0x20"] this(5)
  show ?thesis by simp
qed

end
