(* ===== verification/No_Logging.thy ===== *)
theory No_Logging
  imports Program
begin

text \<open>
  \<open>include/ivi-no-logging.h\<close>: every severity macro becomes a temporary \<open>NullLogData\<close> and the macros
  that declare contexts become nothing. Modelled is what a program then compiles to and does, for a
  translation unit in which the header is usable: \<open>ivi-logging.h\<close> comes before it and
  \<open>namespace logging\<close> is opened, since the macro \<open>log_null\<close> names \<open>NullLogData\<close> unqualified. The
  macros that name a context, \<open>log_info_with_context\<close> and its siblings, are not redefined.
\<close>

section \<open>The null log data\<close>

text \<open>\<open>NullLogData\<close> of \<open>ivi-logging-null.h\<close>: an object without members.\<close>

datatype NullLogData = NullLogData

definition null_isEnabled :: "NullLogData \<Rightarrow> bool" where
  "null_isEnabled d = False"

definition null_write :: "log_value \<Rightarrow> NullLogData \<Rightarrow> NullLogData" where
  "null_write v d = d"

definition null_writeFormatted :: "string \<Rightarrow> c_arg list \<Rightarrow> NullLogData \<Rightarrow> NullLogData" where
  "null_writeFormatted format args d = d"

fun null_do :: "entry_call \<Rightarrow> NullLogData \<Rightarrow> NullLogData option" where
  "null_do (CallWrite v) d = Some (null_write v d)"
| "null_do (CallFormatted f args) d = Some (null_writeFormatted f args d)"
| "null_do (CallSetHex h) d = None"

section \<open>Statements\<close>

text \<open>
  What may follow \<open>NullLogData()\<close>. The operators \<open><<\<close> of \<open>ivi-logging.h\<close>, \<open>-types.h\<close> and \<open>-stl.h\<close> accept any
  \<open>LogData\<close>. There is no overload for manipulators, which only \<open>LogEntry\<close> has, and no \<open>noFail\<close>;
  \<open>write\<close> takes exactly one value, and neither it nor \<open>writeFormatted\<close> returns the object. Whether \<open><<\<close> has
  an overload is decided by the type of its operand (\<open>stream_typed\<close>).
\<close>

fun null_chain :: "(int \<Rightarrow> string) \<Rightarrow> part list \<Rightarrow> (world \<Rightarrow> (entry_call \<times> world) option) outcome" where
  "null_chain put_time [] = Streams []"
| "null_chain put_time (Put (Value t v) # ps) =
     and_then (map_outcome pure_item (map_outcome_calls (stream_typed put_time None t v))) (null_chain put_time ps)"
| "null_chain put_time (Put (Manipulator m) # ps) = NoOverload"
| "null_chain put_time (PutCall f # ps) = and_then (Streams [app_item f]) (null_chain put_time ps)"
| "null_chain put_time (WriteArgs rank vs # ps) =
     (if length vs = 1 \<and> ps = [] then Streams (map (\<lambda>v. pure_item (CallWrite v)) vs) else NoOverload)"
| "null_chain put_time (WriteFormatted f args # ps) =
     (if ps = [] then Streams [pure_item (CallFormatted f args)] else NoOverload)"
| "null_chain put_time (NoFail t # ps) = NoOverload"

fun null_items :: "items \<Rightarrow> NullLogData \<Rightarrow> world \<Rightarrow> (NullLogData \<times> world) option" where
  "null_items [] d w = Some (d, w)"
| "null_items (x # xs) d w = do { (call, w) \<leftarrow> x w; d \<leftarrow> null_do call d; null_items xs d w }"

text \<open>
  \<open>log_null\<close> followed by the parts; \<open>None\<close> when it does not compile, when streaming throws or reads
  past an array. The severity does not matter.
\<close>

definition log_null :: "(int \<Rightarrow> string) \<Rightarrow> part list \<Rightarrow> world \<Rightarrow> world option" where
  "log_null put_time parts w = (case null_chain put_time parts of
     Streams xs \<Rightarrow> map_option snd (null_items xs NullLogData w) | _ \<Rightarrow> None)"

definition removed_macro :: "severity_macro \<Rightarrow> (int \<Rightarrow> string) \<Rightarrow> part list \<Rightarrow> world \<Rightarrow> world option" where
  "removed_macro m = log_null"

section \<open>Programs\<close>

fun removed_expansion :: "context_macro \<Rightarrow> context_macro list" where
  "removed_expansion (LOG_DEFINE_APP_IDS appID appDescription) = []"
| "removed_expansion (LOG_DECLARE_CONTEXT contextName shortID description) = []"
| "removed_expansion (LOG_DECLARE_DEFAULT_CONTEXT context contextID description) = []"
| "removed_expansion (LOG_IMPORT_CONTEXT contextName) = []"
| "removed_expansion (LOG_SET_DEFAULT_CONTEXT context) = []"
| "removed_expansion (LOG_IMPORT_DEFAULT_CONTEXT context) = []"
| "removed_expansion (LOG_SET_CLASS_CONTEXT context) = []"
| "removed_expansion (LOG_DECLARE_DEFAULT_LOCAL_CONTEXT shortID description) = []"
| "removed_expansion (LOG_DECLARE_CLASS_CONTEXT shortID description) = []"

definition removed_init :: "surroundings \<Rightarrow> context_type \<Rightarrow> context_macro list \<Rightarrow> program \<Rightarrow> program" where
  "removed_init sr types macros p =
     fold (construct_object sr types) (concat (map macro_objects (concat (map removed_expansion macros)))) p"

text \<open>A statement on a context that a macro should have declared does not compile; the null context exists.\<close>

fun removed_action :: "surroundings \<Rightarrow> (int \<Rightarrow> string) \<Rightarrow> context_type \<Rightarrow> action \<Rightarrow> program \<Rightarrow> program option" where
  "removed_action sr tm types (Statement (DefaultContext scopes) m path line func parts) p = do {
     w \<leftarrow> removed_macro m tm parts (pr_world p);
     Some (p\<lparr>pr_world := w\<rparr>) }"
| "removed_action sr tm types (Statement (WithContext ref) m path line func parts) p =
     (if ref = NullContext then run_statement sr tm types ref m path line func parts p else None)"
| "removed_action sr tm types a p = run_action sr tm types a p"

fun removed_run :: "surroundings \<Rightarrow> (nat \<Rightarrow> int) \<Rightarrow> (int \<Rightarrow> string) \<Rightarrow> context_type \<Rightarrow> nat \<Rightarrow> action list \<Rightarrow>
    program \<Rightarrow> program option" where
  "removed_run sr clock tm types i [] p = Some p"
| "removed_run sr clock tm types i (a # as) p = (if w_aborted (pr_world p) then Some p else do {
     p \<leftarrow> removed_action (sr\<lparr>sr_elapsed := clock i\<rparr>) tm types a p;
     removed_run sr clock tm types (i + 1) as p })"

section \<open>What remains of a statement\<close>

text \<open>Which chains compile, by themselves and before others: a matter of their shape and types only.\<close>

fun removable :: "part list \<Rightarrow> bool" where
  "removable [] = True"
| "removable (Put (Value t v) # ps) = (compiles None t \<and> removable ps)"
| "removable (PutCall f # ps) = removable ps"
| "removable [WriteArgs rank [v]] = True"
| "removable [WriteFormatted f args] = True"
| "removable (p # ps) = False"

text \<open>
  Every operand is a value of its type, holds something where it is a variant, and is terminated where
  it is a character array.
\<close>

fun sound_part :: "part \<Rightarrow> bool" where
  "sound_part (Put (Value t v)) = (has_type v t \<and> healthy v)"
| "sound_part p = True"

lemma sound_streams:
  assumes "has_type v t" and "healthy v"
  shows "streams (stream_typed tm nf t v) \<longleftrightarrow> compiles nf t"
  using healthy_streams[OF assms(2) typed_overload[OF assms(1)]] by (simp add: stream_typed_def)

lemma null_chain_removable:
  "list_all sound_part ps \<Longrightarrow> streams (null_chain tm ps) \<longleftrightarrow> removable ps"
proof (induction tm ps rule: null_chain.induct)
  case (2 tm t v ps)
  then have "streams (stream_typed tm None t v) \<longleftrightarrow> compiles None t" by (intro sound_streams) simp_all
  with 2 show ?case by (auto simp: streams_def and_then_Streams map_outcome_Streams)
next
  case (5 tm rank vs ps)
  then show ?case by (cases vs; cases ps; cases "tl vs") auto
next
  case (6 tm f args ps)
  then show ?case by (cases ps) auto
qed (auto simp: streams_def and_then_Streams map_outcome_Streams)

lemma null_writes: "null_items (pure_items (map CallWrite vs) @ xs) d w = null_items xs d w"
  by (induction vs) (simp_all add: null_write_def)

lemma null_items_run: "null_chain tm ps = Streams xs \<Longrightarrow> null_items xs d w = Some (d, after_parts ps w)"
proof (induction tm ps arbitrary: xs d w rule: null_chain.induct)
  case (2 tm t v ps)
  then obtain vs ys where "xs = pure_items (map CallWrite vs) @ ys" "null_chain tm ps = Streams ys"
    by (auto simp: and_then_Streams map_outcome_Streams)
  with 2 show ?case by (simp add: null_writes after_parts_def del: map_map)
next
  case (4 tm f ps)
  then obtain ys where ys: "xs = app_item f # ys" "null_chain tm ps = Streams ys"
    by (auto simp: and_then_Streams)
  obtain v out vars where "f (w_app w) = (v, out, vars)" by (cases "f (w_app w)") auto
  with 4 ys show ?case by (simp add: app_item_def null_write_def after_parts_def Let_def)
qed (auto simp: null_write_def null_writeFormatted_def after_parts_def length_Suc_conv split: if_splits)

lemma log_null_eq:
  assumes "list_all sound_part ps"
  shows "log_null tm ps w = (if removable ps then Some (after_parts ps w) else None)"
  using null_items_run[of tm ps _ NullLogData w] null_chain_removable[OF assms, of tm]
  by (auto simp: log_null_def streams_def split: outcome.split)

text \<open>Removal and the chain of a \<open>LogEntry\<close>: what is removable compiles in both builds.\<close>

lemma removable_chain: "removable ps \<Longrightarrow> list_all sound_part ps \<Longrightarrow> streams (chain tm None ps)"
proof (induction ps rule: removable.induct)
  case (2 t v ps)
  then have "streams (stream_typed tm None t v)" by (simp add: sound_streams)
  with 2 show ?case by (auto simp: streams_def and_then_Streams map_outcome_Streams)
qed (auto simp: streams_def and_then_Streams)

section \<open>Properties\<close>

fun default_only :: "action \<Rightarrow> bool" where
  "default_only (Statement (DefaultContext scopes) m path line func parts) = True"
| "default_only (Statement (WithContext ref) m path line func parts) = False"
| "default_only a = True"

fun action_parts :: "action \<Rightarrow> part list" where
  "action_parts (Statement target m path line func parts) = parts"
| "action_parts a = []"

fun action_level :: "action \<Rightarrow> console_globals \<Rightarrow> console_globals" where
  "action_level (SetGlobalLogLevel level) g = setGlobalLogLevel level g"
| "action_level a g = g"

definition removed_world :: "action list \<Rightarrow> world \<Rightarrow> world" where
  "removed_world as w = (after_parts (concat (map action_parts as)) w)
     \<lparr>w_console := fold action_level as (w_console w)\<rparr>"

lemma after_parts_append: "after_parts (ps @ qs) w = after_parts qs (after_parts ps w)"
proof (induction ps arbitrary: w)
  case (Cons p ps)
  then show ?case by (metis append_Cons after_parts_Cons)
qed simp

lemma removed_step:
  assumes "default_only a" and "list_all sound_part (action_parts a)"
  shows "removed_action sr tm types a p = (if removable (action_parts a)
    then Some (p\<lparr>pr_world := removed_world [a] (pr_world p)\<rparr>) else None)"
  using assms
  by (cases "(sr, tm, types, a, p)" rule: removed_action.cases)
     (auto simp: removed_macro_def log_null_eq removed_world_def after_parts_def)

lemma removed_init_nothing: "removed_init sr types macros p = p"
proof -
  have "removed_expansion m = []" for m by (cases m) simp_all
  then have none: "concat (map removed_expansion macros) = []" by simp
  show ?thesis unfolding removed_init_def none by simp
qed

lemma removed_run_eq:
  "list_all default_only as \<Longrightarrow> list_all (list_all sound_part \<circ> action_parts) as \<Longrightarrow> \<not> w_aborted (pr_world p) \<Longrightarrow>
     removed_run sr clock tm types i as p = (if list_all (removable \<circ> action_parts) as
       then Some (p\<lparr>pr_world := removed_world as (pr_world p)\<rparr>) else None)"
proof (induction as arbitrary: i p)
  case (Cons a as)
  have "removed_world (a # as) w = removed_world as (removed_world [a] w)" for w
    by (simp add: removed_world_def after_parts_append) (simp add: after_parts_def)
  moreover have "\<not> w_aborted (removed_world [a] (pr_world p))" using Cons.prems by (simp add: removed_world_def)
  ultimately show ?case using Cons.prems by (simp add: removed_step Cons.IH)
qed (simp add: removed_world_def)

text \<open>
  A context over no back end at all evaluates nothing: the other way to switch logging off, which
  keeps every guard.
\<close>

lemma no_back_end_evaluates_nothing:
  assumes "pr_store p (ref_name ref) = Some ctx" and "lc_contexts ctx = []" and "chain_items tm parts = Some xs"
  shows "\<exists>pr st. run_statement sr tm NoLoggingLogContext ref m path line fn parts p =
    Some (p\<lparr>pr_world := (pr_world p)\<lparr>w_process := pr\<rparr>, pr_store := st\<rparr>)"
proof -
  have "\<exists>ctx' pr. checkContext sr ctx (pr_world p) = Some (ctx', (pr_world p)\<lparr>w_process := pr\<rparr>) \<and>
      m_bRegistered ctx' \<and> lc_contexts ctx' = []" (is "\<exists>ctx' pr. ?checked ctx' pr")
  proof (cases "m_bRegistered ctx")
    case True
    with assms(2) show ?thesis by (intro exI[of _ ctx] exI[of _ "w_process (pr_world p)"]) (simp add: checkContext_def)
  next
    case False
    with assms(2) setDefaultAPPIDS_flags[of "sr_platform sr" "w_process (pr_world p)"] show ?thesis
      by (auto simp: checkContext_def)
  qed
  then obtain ctx' pr where "?checked ctx' pr" by blast
  with assms show ?thesis
    by (intro exI[of _ pr] exI[of _ "(pr_store p)(ref_name ref \<mapsto> ctx')"])
       (simp add: run_statement_def get_context_def log_macro_def log_with_context_def log_isEnabled_def)
qed

text \<open>
  C29. Removing the logging at compile time keeps what the statements of the default context compute:
  every expression is evaluated, in order, also in statements that would be disabled and after
  \<open>log_fatal\<close>, which no longer ends the process; nothing is printed but what the expressions print
  themselves, no context is constructed, and the environment is not read. The program compiles
  exactly when every chain streams operands of loggable types only (whatever they hold) into an object
  without manipulators, without the no-fail mode and with at most one final \<open>write\<close> of one value or one
  final \<open>writeFormatted\<close>. The operands are values of their types, no variant is without a value and every
  character array is terminated.
\<close>

theorem removal_keeps_effects:
  assumes "list_all default_only as" and "list_all (list_all sound_part \<circ> action_parts) as" and "\<not> w_aborted w"
  shows "removed_run sr clock tm types 0 as (removed_init sr types macros (program_start w)) =
    (if list_all (removable \<circ> action_parts) as then Some (program_start (removed_world as w)) else None)"
  using removed_run_eq[OF assms(1,2), of "program_start w"] assms(3)
  by (simp add: removed_init_nothing program_start_def)

definition removable_actions :: "action list" where
  "removable_actions = (
     let log = (\<lambda>m line. Statement (DefaultContext []) m ''a.cpp'' line ''f'')
     in [log log_verbose 1 [PutCall (\<lambda>v. (VBool True, ''called'', v(''x'' := 1)))],
         log log_fatal 2 [Put (Value (TVector TValue) (SVector [])), PutCall (\<lambda>v. (VBool True, ''called'', v(''x'' := 2)))],
         log log_info 3 [Put (Value TBool (SValue (VBool True))), WriteArgs (\<lambda>i. i) [VString ''a'']]])"

text \<open>A manipulator, and an empty \<open>std::unordered_map\<close>: neither compiles.\<close>

definition unremovable_actions :: "part \<Rightarrow> action list" where
  "unremovable_actions part = [Statement (DefaultContext []) log_info ''a.cpp'' 1 ''f'' [part]]"

theorem removal_keeps_effects_witness:
  "\<exists>p. removed_run sample_surroundings (\<lambda>i. 0) (\<lambda>t. []) [ConsoleLogContext] 0 removable_actions
      (removed_init sample_surroundings [ConsoleLogContext] [LOG_DECLARE_DEFAULT_CONTEXT ''c'' ''CTX'' ''d'']
         (program_start sample_world)) = Some p \<and>
    w_printed (pr_world p) = [(Stdout, ''called''), (Stdout, ''called'')] \<and> \<not> w_aborted (pr_world p) \<and>
    w_app (pr_world p) ''x'' = 2 \<and> pr_store p = (\<lambda>_. None) \<and>
    removed_run sample_surroundings (\<lambda>i. 0) (\<lambda>t. []) [ConsoleLogContext] 0 (unremovable_actions (Put (Manipulator Hex)))
      (removed_init sample_surroundings [ConsoleLogContext] [] (program_start sample_world)) = None \<and>
    removed_run sample_surroundings (\<lambda>i. 0) (\<lambda>t. []) [ConsoleLogContext] 0
      (unremovable_actions (Put (Value (TUnorderedMap TValue TValue) (SUnorderedMap []))))
      (removed_init sample_surroundings [ConsoleLogContext] [] (program_start sample_world)) = None"
proof -
  let ?map = "Put (Value (TUnorderedMap TValue TValue) (SUnorderedMap []))"
  have types: "has_type (SVector []) (TVector TValue)" "has_type (SValue (VBool True)) TBool"
    "has_type (SUnorderedMap []) (TUnorderedMap TValue TValue)"
    by (auto intro: has_type.intros)
  have a: "list_all default_only removable_actions" "list_all (list_all sound_part \<circ> action_parts) removable_actions"
    "list_all default_only (unremovable_actions part)" "\<not> w_aborted sample_world" for part
    using types by (simp_all add: removable_actions_def unremovable_actions_def Let_def sample_world_def)
  have b: "list_all (list_all sound_part \<circ> action_parts) (unremovable_actions (Put (Manipulator Hex)))"
    "list_all (list_all sound_part \<circ> action_parts) (unremovable_actions ?map)"
    using types by (simp_all add: unremovable_actions_def)
  show ?thesis
    unfolding removal_keeps_effects[OF a(1,2,4)] removal_keeps_effects[OF a(3) b(1) a(4)]
      removal_keeps_effects[OF a(3) b(2) a(4)]
    by (simp add: removable_actions_def unremovable_actions_def Let_def sample_world_def removed_world_def
        after_parts_def program_start_def)
qed

end
