(* ===== verification/Concurrency.thy ===== *)
theory Concurrency
  imports Program "HOL-Library.Sublist"
begin

text \<open>
  Threads that log at the same time, on consoles. A thread composes a line in its own \<open>LogEntry\<close>,
  from the evaluation of the guard to the suffix, without touching anything shared; then
  \<open>StreamLogContextAbstract::write\<close> prints it under the output mutex, here character by character, on
  whichever stream. The steps of the threads interleave in any way, and time passes between them.
\<close>

section \<open>Threads\<close>

text \<open>A statement whose expressions have been evaluated.\<close>

record stmt =
  st_ctx :: log_ctx
  st_level :: LogLevel
  st_path :: string
  st_line :: int
  st_function :: string
  st_calls :: "entry_call list"

text \<open>
  A thread is between two statements, has lines to print (one for every console of the context), or
  is inside \<open>write\<close> and holds the mutex, with the characters it has not printed yet.
\<close>

datatype phase = Ready | Writing "(out_file \<times> string) list" | Emitting out_file string "(out_file \<times> string) list"

record thread =
  th_phase :: phase
  th_todo :: "stmt list"

record system =
  sy_mutex :: "nat option"
  sy_out :: "(out_file \<times> char) list"
  sy_time :: int
  sy_world :: world
  sy_threads :: "thread list"

text \<open>The lines a statement hands to \<open>write\<close>: what the statement prints when nothing interferes.\<close>

definition compose :: "surroundings \<Rightarrow> stmt \<Rightarrow> world \<Rightarrow> ((out_file \<times> string) list \<times> world) option" where
  "compose sr s w = do {
     (ctx, w') \<leftarrow> log_with_context sr (st_level s) (st_path s) (st_line s) (st_function s)
       (pure_items (st_calls s)) (st_ctx s) (w\<lparr>w_printed := []\<rparr>);
     Some (w_printed w', w'\<lparr>w_printed := w_printed w\<rparr>) }"

text \<open>\<open>StreamLogContextAbstract::write\<close>, from \<open>lock\<close> over the characters to the unlocking.\<close>

fun thread_step :: "surroundings \<Rightarrow> nat \<Rightarrow> system \<Rightarrow> system option" where
  "thread_step sr t S = (if t < length (sy_threads S) then
     let th = sy_threads S ! t;
         become = (\<lambda>p ss. (sy_threads S)[t := \<lparr>th_phase = p, th_todo = ss\<rparr>])
     in case th_phase th of
       Ready \<Rightarrow> (case th_todo th of
           [] \<Rightarrow> None
         | s # ss \<Rightarrow> do {
             (ls, w) \<leftarrow> compose (sr\<lparr>sr_elapsed := sy_time S, sr_tid := t\<rparr>) s (sy_world S);
             Some (S\<lparr>sy_world := w, sy_threads := become (Writing ls) ss\<rparr>) })
     | Writing [] \<Rightarrow> Some (S\<lparr>sy_threads := become Ready (th_todo th)\<rparr>)
     | Writing ((f, u) # ls) \<Rightarrow> (if sy_mutex S = None
         then Some (S\<lparr>sy_mutex := Some t, sy_threads := become (Emitting f u ls) (th_todo th)\<rparr>)
         else None)
     | Emitting f (c # u) ls \<Rightarrow>
         Some (S\<lparr>sy_out := sy_out S @ [(f, c)], sy_threads := become (Emitting f u ls) (th_todo th)\<rparr>)
     | Emitting f [] ls \<Rightarrow>
         Some (S\<lparr>sy_mutex := None, sy_threads := become (Writing ls) (th_todo th)\<rparr>)
   else None)"

inductive system_step :: "surroundings \<Rightarrow> system \<Rightarrow> system \<Rightarrow> bool" for sr where
  run: "thread_step sr t S = Some S' \<Longrightarrow> system_step sr S S'"
| tick: "0 \<le> d \<Longrightarrow> system_step sr S (S\<lparr>sy_time := sy_time S + d\<rparr>)"

definition system_start :: "world \<Rightarrow> int \<Rightarrow> stmt list list \<Rightarrow> system" where
  "system_start w time programs = \<lparr>sy_mutex = None, sy_out = [], sy_time = time, sy_world = w,
     sy_threads = map (\<lambda>ss. \<lparr>th_phase = Ready, th_todo = ss\<rparr>) programs\<rparr>"

inductive reachable :: "surroundings \<Rightarrow> world \<Rightarrow> int \<Rightarrow> stmt list list \<Rightarrow> system \<Rightarrow> bool"
  for sr w time programs where
  start: "reachable sr w time programs (system_start w time programs)"
| step: "reachable sr w time programs S \<Longrightarrow> system_step sr S S' \<Longrightarrow> reachable sr w time programs S'"

definition finished :: "system \<Rightarrow> bool" where
  "finished S \<longleftrightarrow> (\<forall>th \<in> set (sy_threads S). th = \<lparr>th_phase = Ready, th_todo = []\<rparr>)"

section \<open>The lines of a statement\<close>

definition stmt_text :: "stmt \<Rightarrow> string option" where
  "stmt_text s = op_texts (calls_ops False (st_calls s))"

definition stmt_info :: "stmt \<Rightarrow> LogInfo" where
  "stmt_info s = LogInfo_ctor (st_level s) (st_path s) (st_line s) (st_function s)"

definition stmt_lines :: "surroundings \<Rightarrow> world \<Rightarrow> nat \<Rightarrow> int \<Rightarrow> stmt \<Rightarrow> (out_file \<times> string) list" where
  "stmt_lines sr w t time s = console_outputs (sr\<lparr>sr_elapsed := time, sr_tid := t\<rparr>) w None (stmt_info s)
     (the (stmt_text s)) (lc_contexts (st_ctx s))"

definition good_stmt :: "surroundings \<Rightarrow> stmt \<Rightarrow> bool" where
  "good_stmt sr s \<longleftrightarrow> m_bRegistered (st_ctx s) \<and> (\<forall>c \<in> set (lc_contexts (st_ctx s)). terminal_only c) \<and>
     st_level s \<noteq> LvFatal \<and> (\<exists>u. stmt_text s = Some u \<and> short_enough sr None (stmt_info s) u)"

text \<open>The part of the shared state a line depends on.\<close>

definition same_view :: "world \<Rightarrow> world \<Rightarrow> bool" where
  "same_view w w' \<longleftrightarrow> w_console w' = w_console w \<and> w_process w' = w_process w \<and> w_aborted w' = w_aborted w"

lemma no_console_outputs:
  "\<forall>c \<in> set cs. terminal_only c \<Longrightarrow> \<forall>c \<in> set cs. \<not> ctx_isEnabled sr w (m_level li) c \<Longrightarrow>
     console_outputs sr' w th li u cs = []"
  by (induction cs rule: dlt_addresses.induct) auto

lemma console_outputs_view:
  "w_console w' = w_console w \<Longrightarrow> console_outputs sr w' th li u cs = console_outputs sr w th li u cs"
  by (induction cs rule: dlt_addresses.induct) auto

lemma compose_good:
  assumes "good_stmt sr s" and "same_view w0 w" and "\<not> m_enableThreadInfo (w_process w0)"
  shows "\<exists>w'. compose (sr\<lparr>sr_elapsed := time, sr_tid := t\<rparr>) s w = Some (stmt_lines sr w0 t time s, w') \<and> same_view w0 w'"
proof -
  let ?sr = "sr\<lparr>sr_elapsed := time, sr_tid := t\<rparr>" and ?w = "w\<lparr>w_printed := []\<rparr>" and ?cs = "lc_contexts (st_ctx s)"
  from assms(1) obtain u where u: "stmt_text s = Some u" "short_enough sr None (stmt_info s) u"
    by (auto simp: good_stmt_def)
  have th: "fst (ask_thread ?sr ?w) = None" using assms(2,3) by (simp add: ask_thread_def same_view_def)
  have short: "short_enough ?sr (fst (ask_thread ?sr ?w)) (LogInfo_ctor (st_level s) (st_path s) (st_line s) (st_function s)) u"
    using u(2) unfolding th by (simp add: short_enough_def stmt_info_def)
  have good: "m_bRegistered (st_ctx s)" "\<forall>c \<in> set ?cs. terminal_only c" "st_level s \<noteq> LvFatal"
    using assms(1) by (simp_all add: good_stmt_def)
  have lines: "console_outputs ?sr ?w None (stmt_info s) u ?cs = stmt_lines sr w0 t time s"
    using assms(2) u(1) by (simp add: stmt_lines_def same_view_def console_outputs_view[of ?w w0])
  show ?thesis
  proof (cases "\<exists>c \<in> set ?cs. ctx_isEnabled ?sr ?w (st_level s) c")
    case True
    from statement_total[OF good(2) u(1)[unfolded stmt_text_def] short] obtain e e' w1 where
      r: "createLog ?sr (st_level s) (st_path s) (st_line s) (st_function s) (st_ctx s) ?w = Some (e, ?w)"
      "stream_items ?sr (st_ctx s) (pure_items (st_calls s)) e ?w = Some (e', ?w)"
      "entry_dtor ?sr (st_ctx s) e' ?w = Some w1" by blast
    from statement_prints[OF r u(1)[unfolded stmt_text_def] short terminal_only_dlt[OF good(2)]] good(3) th lines
    have p: "w_printed w1 = stmt_lines sr w0 t time s" "w_aborted w1 = w_aborted w"
      by (simp_all add: fatal_message_def stmt_info_def)
    have "log_with_context ?sr (st_level s) (st_path s) (st_line s) (st_function s) (pure_items (st_calls s))
        (st_ctx s) ?w = Some (st_ctx s, w1)"
      using enabled_statement[OF good(1) True] r by simp
    with p entry_dtor_keeps[OF r(3)] assms(2) show ?thesis
      by (auto simp: compose_def same_view_def)
  next
    case False
    then have off: "\<forall>c \<in> set ?cs. \<not> ctx_isEnabled ?sr ?w (st_level s) c" by blast
    then have "log_with_context ?sr (st_level s) (st_path s) (st_line s) (st_function s) (pure_items (st_calls s))
        (st_ctx s) ?w = Some (st_ctx s, ?w)"
      using good(1) by (simp add: log_with_context_def log_isEnabled_def checkContext_registered any_enabled_iff)
    moreover have "console_outputs ?sr ?w None (stmt_info s) u ?cs = []"
      using off good(2) by (intro no_console_outputs) (simp_all add: stmt_info_def)
    ultimately show ?thesis using lines assms(2) by (auto simp: compose_def same_view_def)
  qed
qed

section \<open>Accounts\<close>

text \<open>
  An account of a state: the lines printed so far with their threads, the one being printed included,
  and the times at which each thread composed its lines.
\<close>

definition chars :: "(out_file \<times> string) list \<Rightarrow> (out_file \<times> char) list" where
  "chars ls = concat (map (\<lambda>(f, u). map (Pair f) u) ls)"

definition lines_of :: "nat \<Rightarrow> (nat \<times> out_file \<times> string) list \<Rightarrow> (out_file \<times> string) list" where
  "lines_of t log = map snd (filter (\<lambda>x. fst x = t) log)"

definition said :: "surroundings \<Rightarrow> world \<Rightarrow> nat \<Rightarrow> int list \<Rightarrow> stmt list \<Rightarrow> (out_file \<times> string) list" where
  "said sr w t ts ss = concat (map (\<lambda>(time, s). stmt_lines sr w t time s) (zip ts ss))"

fun pending :: "phase \<Rightarrow> (out_file \<times> string) list" where
  "pending Ready = []"
| "pending (Writing ls) = ls"
| "pending (Emitting f u ls) = ls"

fun unprinted :: "phase \<Rightarrow> (out_file \<times> char) list" where
  "unprinted (Emitting f u ls) = map (Pair f) u"
| "unprinted _ = []"

fun emitting :: "phase \<Rightarrow> bool" where
  "emitting (Emitting f u ls) = True"
| "emitting _ = False"

definition rest :: "system \<Rightarrow> (out_file \<times> char) list" where
  "rest S = (case sy_mutex S of None \<Rightarrow> [] | Some t \<Rightarrow> unprinted (th_phase (sy_threads S ! t)))"

definition thread_account :: "surroundings \<Rightarrow> world \<Rightarrow> system \<Rightarrow> nat \<Rightarrow> stmt list \<Rightarrow>
    (out_file \<times> string) list \<Rightarrow> int list \<Rightarrow> bool" where
  "thread_account sr w S t ss ls ts \<longleftrightarrow> (let th = sy_threads S ! t in
     length ts \<le> length ss \<and> th_todo th = drop (length ts) ss \<and> sorted ts \<and> (\<forall>x \<in> set ts. x \<le> sy_time S) \<and>
     ls @ pending (th_phase th) = said sr w t ts ss \<and> (sy_mutex S = Some t \<longleftrightarrow> emitting (th_phase th)))"

definition account :: "surroundings \<Rightarrow> world \<Rightarrow> stmt list list \<Rightarrow> system \<Rightarrow>
    (nat \<times> out_file \<times> string) list \<Rightarrow> (nat \<Rightarrow> int list) \<Rightarrow> bool" where
  "account sr w programs S log ts \<longleftrightarrow> length (sy_threads S) = length programs \<and> same_view w (sy_world S) \<and>
     sy_out S @ rest S = chars (map snd log) \<and> (\<forall>x \<in> set log. fst x < length programs) \<and>
     (\<forall>t. sy_mutex S = Some t \<longrightarrow> t < length programs) \<and>
     (\<forall>t < length programs. thread_account sr w S t (programs ! t) (lines_of t log) (ts t))"

lemma chars_simps [simp]: "chars [] = []" "chars (ls @ ks) = chars ls @ chars ks" "chars [(f, u)] = map (Pair f) u"
  by (simp_all add: chars_def)

lemma lines_of_simps [simp]: "lines_of t [] = []"
  "lines_of t (log @ [(t', l)]) = lines_of t log @ (if t' = t then [l] else [])"
  by (simp_all add: lines_of_def)

lemma said_snoc:
  "length ts < length ss \<Longrightarrow> said sr w t (ts @ [x]) ss = said sr w t ts ss @ stmt_lines sr w t x (ss ! length ts)"
proof (induction ts arbitrary: ss)
  case Nil
  then show ?case by (cases ss) (simp_all add: said_def)
next
  case (Cons y ts)
  then show ?case by (cases ss) (simp_all add: said_def)
qed

lemma account_start: "account sr w programs (system_start w time programs) [] (\<lambda>_. [])"
  by (simp add: account_def thread_account_def system_start_def rest_def said_def same_view_def Let_def)

lemma account_tick: "0 \<le> d \<Longrightarrow> account sr w programs S log ts \<Longrightarrow>
    account sr w programs (S\<lparr>sy_time := sy_time S + d\<rparr>) log ts"
  unfolding account_def thread_account_def rest_def Let_def
  by (auto simp: add_increasing2 split: option.splits)

lemma rest_other: "sy_mutex S \<noteq> Some t \<Longrightarrow> rest (S\<lparr>sy_threads := (sy_threads S)[t := th]\<rparr>) = rest S"
  by (auto simp: rest_def split: option.split)

lemma account_frame:
  assumes "account sr w programs S log ts" and "t < length programs"
    and "sy_threads S' = (sy_threads S)[t := th]" and "same_view w (sy_world S')" and "sy_time S' = sy_time S"
    and "sy_out S' @ rest S' = chars (map snd log')" and "set log' \<subseteq> set log \<union> {t} \<times> UNIV"
    and "\<forall>j. j \<noteq> t \<longrightarrow> lines_of j log' = lines_of j log \<and> ts' j = ts j \<and> (sy_mutex S' = Some j \<longleftrightarrow> sy_mutex S = Some j)"
    and "thread_account sr w S' t (programs ! t) (lines_of t log') (ts' t)"
  shows "account sr w programs S' log' ts'"
proof -
  have "thread_account sr w S' j (programs ! j) (lines_of j log') (ts' j)" if "j < length programs" for j
  proof (cases "j = t")
    case False
    have "thread_account sr w S j (programs ! j) (lines_of j log) (ts j)" using assms(1) that by (simp add: account_def)
    with False assms(3,5,8) show ?thesis by (simp add: thread_account_def Let_def)
  qed (use assms(9) in simp)
  moreover have "\<forall>j. sy_mutex S' = Some j \<longrightarrow> j < length programs"
    using assms(1,2,8) by (auto simp: account_def)
  moreover have "\<forall>x \<in> set log'. fst x < length programs"
    using assms(1,2,7) by (fastforce simp: account_def)
  ultimately show ?thesis using assms(1,3,4,6) by (simp add: account_def)
qed

lemma thread_stepE:
  assumes "thread_step sr t S = Some S'"
  obtains (compose) s ss ls w' where "t < length (sy_threads S)" "th_phase (sy_threads S ! t) = Ready" "th_todo (sy_threads S ! t) = s # ss"
      "compose (sr\<lparr>sr_elapsed := sy_time S, sr_tid := t\<rparr>) s (sy_world S) = Some (ls, w')"
      "S' = S\<lparr>sy_world := w', sy_threads := (sy_threads S)[t := \<lparr>th_phase = Writing ls, th_todo = ss\<rparr>]\<rparr>"
    | (finish) "t < length (sy_threads S)" "th_phase (sy_threads S ! t) = Writing []"
      "S' = S\<lparr>sy_threads := (sy_threads S)[t := \<lparr>th_phase = Ready, th_todo = th_todo (sy_threads S ! t)\<rparr>]\<rparr>"
    | (acquire) f u ls where "t < length (sy_threads S)" "th_phase (sy_threads S ! t) = Writing ((f, u) # ls)" "sy_mutex S = None"
      "S' = S\<lparr>sy_mutex := Some t,
              sy_threads := (sy_threads S)[t := \<lparr>th_phase = Emitting f u ls, th_todo = th_todo (sy_threads S ! t)\<rparr>]\<rparr>"
    | (emit) f c u ls where "t < length (sy_threads S)" "th_phase (sy_threads S ! t) = Emitting f (c # u) ls"
      "S' = S\<lparr>sy_out := sy_out S @ [(f, c)],
              sy_threads := (sy_threads S)[t := \<lparr>th_phase = Emitting f u ls, th_todo = th_todo (sy_threads S ! t)\<rparr>]\<rparr>"
    | (release) f ls where "t < length (sy_threads S)" "th_phase (sy_threads S ! t) = Emitting f [] ls"
      "S' = S\<lparr>sy_mutex := None,
              sy_threads := (sy_threads S)[t := \<lparr>th_phase = Writing ls, th_todo = th_todo (sy_threads S ! t)\<rparr>]\<rparr>"
  using assms
  by (auto simp: Let_def split: phase.splits list.splits bind_splits prod.splits if_splits)

lemma drop_ConsD: "drop n xs = y # ys \<Longrightarrow> n < length xs \<and> xs ! n = y \<and> drop (Suc n) xs = ys"
  by (induction n arbitrary: xs) (case_tac [!] xs, auto)

lemma account_run:
  assumes "account sr w programs S log ts" and "thread_step sr t S = Some S'"
    and "\<forall>ss \<in> set programs. \<forall>s \<in> set ss. good_stmt sr s" and "\<not> m_enableThreadInfo (w_process w)"
  shows "\<exists>log' ts'. account sr w programs S' log' ts'"
proof -
  let ?th = "sy_threads S ! t" and ?n = "length programs"
  from assms(1,2) have t: "t < ?n" "t < length (sy_threads S)" by (auto simp: account_def split: if_splits)
  have acc: "thread_account sr w S t (programs ! t) (lines_of t log) (ts t)"
    using assms(1) t by (simp add: account_def)
  have others: "thread_account sr w S j (programs ! j) (lines_of j log) (ts j)" if "j < ?n" for j
    using assms(1) that by (simp add: account_def)
  from assms(2) show ?thesis
  proof (cases rule: thread_stepE)
    case (compose s ss ls w')
    let ?ts = "ts(t := ts t @ [sy_time S])"
    have len: "length (ts t) < length (programs ! t)" "programs ! t ! length (ts t) = s" "drop (Suc (length (ts t))) (programs ! t) = ss"
      using acc compose(3) drop_ConsD[of "length (ts t)" "programs ! t" s ss]
      by (simp_all add: thread_account_def Let_def)
    have "good_stmt sr s" using assms(3) t len(1,2) by (metis nth_mem)
    moreover have "same_view w (sy_world S)" using assms(1) by (simp add: account_def)
    ultimately have ls: "ls = stmt_lines sr w t (sy_time S) s" "same_view w w'"
      using compose_good[of sr s w "sy_world S" t "sy_time S"] assms(4) compose(4) by auto
    have "account sr w programs S' log ?ts"
    proof (rule account_frame[OF assms(1) t(1)])
      show "sy_threads S' = (sy_threads S)[t := \<lparr>th_phase = Writing ls, th_todo = ss\<rparr>]" using compose(5) by simp
      have "sy_mutex S \<noteq> Some t" using acc compose(2) by (simp add: thread_account_def Let_def)
      then show "sy_out S' @ rest S' = chars (map snd log)"
        using assms(1) compose(5) by (auto simp: account_def rest_def split: option.splits)
      show "thread_account sr w S' t (programs ! t) (lines_of t log) (?ts t)"
        using acc compose ls len t by (auto simp: thread_account_def Let_def said_snoc sorted_append)
    qed (use compose(5) ls in auto)
    then show ?thesis by blast
  next
    case finish
    have "account sr w programs S' log ts"
    proof (rule account_frame[OF assms(1) t(1)])
      show "sy_threads S' = (sy_threads S)[t := \<lparr>th_phase = Ready, th_todo = th_todo ?th\<rparr>]" using finish(3) by simp
      have "sy_mutex S \<noteq> Some t" using acc finish(2) by (simp add: thread_account_def Let_def)
      then show "sy_out S' @ rest S' = chars (map snd log)"
        using assms(1) finish(3) by (auto simp: account_def rest_def split: option.splits)
      show "thread_account sr w S' t (programs ! t) (lines_of t log) (ts t)"
        using acc finish t by (auto simp: thread_account_def Let_def)
    qed (use finish(3) assms(1) in \<open>auto simp: account_def\<close>)
    then show ?thesis by blast
  next
    case (acquire f u ls)
    let ?log = "log @ [(t, f, u)]"
    have "account sr w programs S' ?log ts"
    proof (rule account_frame[OF assms(1) t(1)])
      show "sy_threads S' = (sy_threads S)[t := \<lparr>th_phase = Emitting f u ls, th_todo = th_todo ?th\<rparr>]" using acquire(4) by simp
      show "sy_out S' @ rest S' = chars (map snd ?log)"
        using assms(1) acquire t by (auto simp: account_def rest_def)
      show "thread_account sr w S' t (programs ! t) (lines_of t ?log) (ts t)"
        using acc acquire t by (auto simp: thread_account_def Let_def)
    qed (use acquire(3,4) assms(1) in \<open>auto simp: account_def\<close>)
    then show ?thesis by blast
  next
    case (emit f c u ls)
    have m: "sy_mutex S = Some t" using acc emit(2) by (simp add: thread_account_def Let_def)
    have "account sr w programs S' log ts"
    proof (rule account_frame[OF assms(1) t(1)])
      show "sy_threads S' = (sy_threads S)[t := \<lparr>th_phase = Emitting f u ls, th_todo = th_todo ?th\<rparr>]" using emit(3) by simp
      show "sy_out S' @ rest S' = chars (map snd log)"
        using assms(1) emit m t by (auto simp: account_def rest_def)
      show "thread_account sr w S' t (programs ! t) (lines_of t log) (ts t)"
        using acc emit t m by (auto simp: thread_account_def Let_def)
    qed (use emit(3) assms(1) in \<open>auto simp: account_def\<close>)
    then show ?thesis by blast
  next
    case (release f ls)
    have m: "sy_mutex S = Some t" using acc release(2) by (simp add: thread_account_def Let_def)
    have "account sr w programs S' log ts"
    proof (rule account_frame[OF assms(1) t(1)])
      show "sy_threads S' = (sy_threads S)[t := \<lparr>th_phase = Writing ls, th_todo = th_todo ?th\<rparr>]" using release(3) by simp
      show "sy_out S' @ rest S' = chars (map snd log)"
        using assms(1) release m t by (auto simp: account_def rest_def)
      show "thread_account sr w S' t (programs ! t) (lines_of t log) (ts t)"
        using acc release t m by (auto simp: thread_account_def Let_def)
    qed (use release(3) assms(1) m in \<open>auto simp: account_def\<close>)
    then show ?thesis by blast
  qed
qed

lemma account_reachable:
  assumes "reachable sr w time programs S"
    and "\<forall>ss \<in> set programs. \<forall>s \<in> set ss. good_stmt sr s" and "\<not> m_enableThreadInfo (w_process w)"
  shows "\<exists>log ts. account sr w programs S log ts"
  using assms(1)
proof induction
  case start
  show ?case using account_start by blast
next
  case (step S S')
  from step(3) obtain log ts where acc: "account sr w programs S log ts" by blast
  from step(2) show ?case
  proof cases
    case (run t)
    from account_run[OF acc this assms(2,3)] show ?thesis .
  next
    case (tick d)
    from account_tick[OF tick(2) acc] tick(1) show ?thesis by blast
  qed
qed

text \<open>When all threads are done, every line of every statement is there.\<close>

lemma account_finished:
  assumes acc: "account sr w programs S log ts" and "finished S"
  shows "sy_out S = chars (map snd log)" "\<forall>x \<in> set log. fst x < length programs"
    "\<forall>t < length programs. length (ts t) = length (programs ! t) \<and> lines_of t log = said sr w t (ts t) (programs ! t)"
proof -
  have out: "sy_out S @ rest S = chars (map snd log)" using acc by (simp add: account_def)
  have th: "thread_account sr w S t (programs ! t) (lines_of t log) (ts t)" if "t < length programs" for t
    using acc that by (simp add: account_def)
  have idle: "sy_threads S ! t = \<lparr>th_phase = Ready, th_todo = []\<rparr>" if "t < length programs" for t
    using acc \<open>finished S\<close> that by (simp add: account_def finished_def)
  then have "sy_mutex S = None"
    using acc th by (cases "sy_mutex S") (auto simp: account_def thread_account_def Let_def)
  with out show "sy_out S = chars (map snd log)" by (simp add: rest_def)
  show "\<forall>x \<in> set log. fst x < length programs" using acc by (simp add: account_def)
  show "\<forall>t < length programs. length (ts t) = length (programs ! t) \<and> lines_of t log = said sr w t (ts t) (programs ! t)"
    using idle th by (auto simp: thread_account_def Let_def intro: le_antisym)
qed

section \<open>Progress\<close>

text \<open>The thread that holds the mutex can go on; if there is none, every unfinished thread can.\<close>

lemma account_progress:
  assumes "account sr w programs S log ts" and "\<not> finished S"
    and "\<forall>ss \<in> set programs. \<forall>s \<in> set ss. good_stmt sr s" and "\<not> m_enableThreadInfo (w_process w)"
  shows "\<exists>t S'. thread_step sr t S = Some S'"
proof (cases "sy_mutex S")
  case (Some t)
  with assms(1) have t: "t < length (sy_threads S)" "emitting (th_phase (sy_threads S ! t))"
    by (auto simp: account_def thread_account_def Let_def)
  then show ?thesis
    by (cases "th_phase (sy_threads S ! t)") (auto simp: Let_def intro!: exI[of _ t] split: list.split)
next
  case None
  from assms(2) obtain t where t: "t < length (sy_threads S)" "sy_threads S ! t \<noteq> \<lparr>th_phase = Ready, th_todo = []\<rparr>"
    by (auto simp: finished_def in_set_conv_nth)
  have acc: "thread_account sr w S t (programs ! t) (lines_of t log) (ts t)" "t < length programs"
    "same_view w (sy_world S)" using assms(1) t by (auto simp: account_def)
  show ?thesis
  proof (cases "th_phase (sy_threads S ! t)")
    case Ready
    with t(2) obtain s ss where todo: "th_todo (sy_threads S ! t) = s # ss"
      by (cases "th_todo (sy_threads S ! t)"; cases "sy_threads S ! t") auto
    then have "s \<in> set (drop (length (ts t)) (programs ! t))"
      using acc(1) by (simp add: thread_account_def Let_def) (metis list.set_intros(1))
    then have "s \<in> set (programs ! t)" by (rule in_set_dropD)
    with assms(3) acc(2) have "good_stmt sr s" by (meson nth_mem)
    from compose_good[OF this acc(3) assms(4), of t "sy_time S"] Ready todo t(1) show ?thesis
      by (auto simp: Let_def intro!: exI[of _ t])
  next
    case (Writing ls)
    with None t(1) show ?thesis by (cases ls) (auto simp: Let_def intro!: exI[of _ t])
  next
    case (Emitting f u ls)
    with acc None show ?thesis by (simp add: thread_account_def Let_def)
  qed
qed

text \<open>Every step of a thread brings the end of its work nearer.\<close>

fun phase_work :: "phase \<Rightarrow> nat" where
  "phase_work Ready = 0"
| "phase_work (Writing ls) = 1 + sum_list (map (\<lambda>(f, u). length u + 2) ls)"
| "phase_work (Emitting f u ls) = length u + 2 + sum_list (map (\<lambda>(f, u). length u + 2) ls)"

definition todo_left :: "system \<Rightarrow> nat" where
  "todo_left S = sum_list (map (length \<circ> th_todo) (sy_threads S))"

definition work_left :: "system \<Rightarrow> nat" where
  "work_left S = sum_list (map (phase_work \<circ> th_phase) (sy_threads S))"

lemma sum_list_map_update:
  fixes g :: "'a \<Rightarrow> nat"
  shows "t < length xs \<Longrightarrow> sum_list (map g (xs[t := x])) + g (xs ! t) = sum_list (map g xs) + g x"
proof (induction xs arbitrary: t)
  case (Cons y xs)
  then show ?case by (cases t) (simp_all add: algebra_simps)
qed simp

lemma left_update:
  assumes "t < length (sy_threads S)" and "sy_threads S' = (sy_threads S)[t := th]"
  shows "todo_left S' + length (th_todo (sy_threads S ! t)) = todo_left S + length (th_todo th)"
    "work_left S' + phase_work (th_phase (sy_threads S ! t)) = work_left S + phase_work (th_phase th)"
  using sum_list_map_update[OF assms(1), of "length \<circ> th_todo" th]
    sum_list_map_update[OF assms(1), of "phase_work \<circ> th_phase" th] assms(2)
  by (simp_all add: todo_left_def work_left_def)

lemma thread_step_decreases:
  assumes "thread_step sr t S = Some S'"
  shows "todo_left S' < todo_left S \<or> todo_left S' = todo_left S \<and> work_left S' < work_left S"
  using assms
proof (cases rule: thread_stepE)
  case (compose s ss ls w')
  with left_update[of t S S' "\<lparr>th_phase = Writing ls, th_todo = ss\<rparr>"] show ?thesis by simp
next
  case finish
  with left_update[of t S S' "\<lparr>th_phase = Ready, th_todo = th_todo (sy_threads S ! t)\<rparr>"] show ?thesis by simp
next
  case (acquire f u ls)
  with left_update[of t S S' "\<lparr>th_phase = Emitting f u ls, th_todo = th_todo (sy_threads S ! t)\<rparr>"] show ?thesis by simp
next
  case (emit f c u ls)
  with left_update[of t S S' "\<lparr>th_phase = Emitting f u ls, th_todo = th_todo (sy_threads S ! t)\<rparr>"] show ?thesis by simp
next
  case (release f ls)
  with left_update[of t S S' "\<lparr>th_phase = Writing ls, th_todo = th_todo (sy_threads S ! t)\<rparr>"] show ?thesis by simp
qed

lemma thread_steps_end: "wf {(S', S). \<exists>t. thread_step sr t S = Some S'}"
proof (rule wf_subset)
  show "wf (inv_image (less_than <*lex*> less_than) (\<lambda>S. (todo_left S, work_left S)))" by auto
  show "{(S', S). \<exists>t. thread_step sr t S = Some S'} \<subseteq>
      inv_image (less_than <*lex*> less_than) (\<lambda>S. (todo_left S, work_left S))"
    using thread_step_decreases by fastforce
qed

lemma can_finish:
  assumes "reachable sr w time programs S"
    and "\<forall>ss \<in> set programs. \<forall>s \<in> set ss. good_stmt sr s" and "\<not> m_enableThreadInfo (w_process w)"
  shows "\<exists>S'. reachable sr w time programs S' \<and> finished S'"
  using assms(1)
proof (induction S rule: wf_induct_rule[OF thread_steps_end[of sr]])
  case (1 S)
  show ?case
  proof (cases "finished S")
    case True
    with 1 show ?thesis by blast
  next
    case False
    from account_reachable[OF 1(2) assms(2,3)] account_progress[OF _ False assms(2,3)] obtain t S' where
      s: "thread_step sr t S = Some S'" by blast
    with 1(2) have "reachable sr w time programs S'" by (blast intro: reachable.step system_step.run)
    with 1(1)[of S'] s show ?thesis by blast
  qed
qed

section \<open>The multithreaded example\<close>

text \<open>
  \<open>examples/multithreaded\<close>: the main thread logs once, which registers the context, and starts two
  threads that greet a thousand times. Their sleeps only let time pass.
\<close>

definition hello :: "log_ctx \<Rightarrow> string \<Rightarrow> string \<Rightarrow> stmt" where
  "hello ctx path name = \<lparr>st_ctx = ctx, st_level = LvInfo, st_path = path, st_line = 14,
     st_function = ''void loop(const char*)'',
     st_calls = [CallWrite (VView ''Hello from ''), CallWrite (VCStr (Some (name @ [NUL])))]\<rparr>"

definition MULTITHREADED_DURATION :: nat where "MULTITHREADED_DURATION = 1000"

definition loop :: "log_ctx \<Rightarrow> string \<Rightarrow> string \<Rightarrow> stmt list" where
  "loop ctx path threadName = replicate MULTITHREADED_DURATION (hello ctx path threadName)"

definition thread1 :: "log_ctx \<Rightarrow> string \<Rightarrow> stmt list" where "thread1 ctx path = loop ctx path ''Thread1''"

definition thread2 :: "log_ctx \<Rightarrow> string \<Rightarrow> stmt list" where "thread2 ctx path = loop ctx path ''Thread2''"

lemma sample_greetings:
  "\<forall>ss \<in> set [thread1 (sample_log_ctx [ConsoleCtx plain_ctx] True) ''m.cpp'',
      thread2 (sample_log_ctx [ConsoleCtx plain_ctx] True) ''m.cpp'']. \<forall>s \<in> set ss. good_stmt sample_surroundings s"
  "\<not> m_enableThreadInfo (w_process sample_world)"
proof -
  have "good_stmt sample_surroundings (hello (sample_log_ctx [ConsoleCtx plain_ctx] True) ''m.cpp'' ''Thread1'')"
    "good_stmt sample_surroundings (hello (sample_log_ctx [ConsoleCtx plain_ctx] True) ''m.cpp'' ''Thread2'')"
    by (simp_all add: good_stmt_def stmt_text_def stmt_info_def hello_def sample_log_ctx_def short_enough_def
        sample_surroundings_def suffix_text_def location_text_def LogInfo_ctor_def getFileName_def Let_def dec_text_def printf_eval)
  then show "\<forall>ss \<in> set [thread1 (sample_log_ctx [ConsoleCtx plain_ctx] True) ''m.cpp'',
      thread2 (sample_log_ctx [ConsoleCtx plain_ctx] True) ''m.cpp'']. \<forall>s \<in> set ss. good_stmt sample_surroundings s"
    by (simp add: thread1_def thread2_def loop_def)
qed (simp add: sample_world_def process_init_def)

lemma sample_greeting_line:
  "length (stmt_lines sample_surroundings sample_world t time (hello (sample_log_ctx [ConsoleCtx plain_ctx] True) path name)) = 1"
  using plain_isEnabled by (simp add: stmt_lines_def stmt_info_def hello_def sample_log_ctx_def sample_world_def)

lemma length_said_greetings:
  "length ts = n \<Longrightarrow> length (said sample_surroundings sample_world t ts
     (replicate n (hello (sample_log_ctx [ConsoleCtx plain_ctx] True) path name))) = n"
  using sample_greeting_line by (induction ts arbitrary: n) (auto simp: said_def)

section \<open>The test with two threads\<close>

text \<open>
  \<open>test/test_multithreaded.cpp\<close>: the main thread and a second one each log one warning. The process
  goes on for a second, which is taken to be enough for both.
\<close>

definition warning :: "log_ctx \<Rightarrow> string \<Rightarrow> int \<Rightarrow> string \<Rightarrow> string \<Rightarrow> stmt" where
  "warning ctx path line func msg = \<lparr>st_ctx = ctx, st_level = LvWarning, st_path = path, st_line = line,
     st_function = func, st_calls = [CallWrite (VView msg)]\<rparr>"

definition test_thread :: "log_ctx \<Rightarrow> string \<Rightarrow> stmt list" where
  "test_thread ctx path = [warning ctx path 13 ''main(int, const char**)::<lambda()>'' ''Test log from thread'']"

definition test_main :: "log_ctx \<Rightarrow> string \<Rightarrow> stmt list" where
  "test_main ctx path = [warning ctx path 16 ''int main(int, const char**)'' ''Test from main'']"

lemma single_lines:
  assumes "lines_of 0 log = [a]" and "lines_of 1 log = [b]" and "\<forall>x \<in> set log. fst x < 2"
  shows "map snd log = [a, b] \<or> map snd log = [b, a]"
proof (cases log)
  case Nil
  with assms(1) show ?thesis by simp
next
  case (Cons x xs)
  show ?thesis
  proof (cases xs)
    case Nil
    with Cons assms show ?thesis by (auto simp: lines_of_def split: if_splits)
  next
    case xs: (Cons y ys)
    have "ys = []"
    proof (rule ccontr)
      assume "ys \<noteq> []"
      then obtain z zs where "ys = z # zs" by (cases ys) auto
      with Cons xs assms show False by (auto simp: lines_of_def less_Suc_eq numeral_2_eq_2 split: if_splits)
    qed
    with Cons xs assms show ?thesis by (auto simp: lines_of_def less_Suc_eq numeral_2_eq_2 split: if_splits)
  qed
qed

text \<open>The test on one enabled console shows both of its lines, each in one piece, in either order.\<close>

lemma test_shows_both_lines:
  assumes "reachable sr w time [test_main ctx path, test_thread ctx path] S" and "finished S"
    and "\<forall>ss \<in> set [test_main ctx path, test_thread ctx path]. \<forall>s \<in> set ss. good_stmt sr s"
    and "\<not> m_enableThreadInfo (w_process w)" and "lc_contexts ctx = [ConsoleCtx c]"
    and "console_isEnabled (w_console w) c LvWarning"
  shows "\<exists>t0 t1 a b. stmt_lines sr w 0 t0 (hd (test_main ctx path)) = [a] \<and>
    stmt_lines sr w 1 t1 (hd (test_thread ctx path)) = [b] \<and>
    (sy_out S = chars [a, b] \<or> sy_out S = chars [b, a])"
proof -
  have one: "\<exists>a. stmt_lines sr w t time (warning ctx path line func msg) = [a]" for t time line func msg
    using assms(5,6) by (simp add: stmt_lines_def stmt_info_def warning_def LogInfo_ctor_def Let_def)
  from account_reachable[OF assms(1,3,4)] obtain log ts where
    acc: "account sr w [test_main ctx path, test_thread ctx path] S log ts" by blast
  note fin = account_finished[OF acc assms(2)]
  from fin(3) have lines: "length (ts 0) = 1" "length (ts 1) = 1"
    "lines_of 0 log = said sr w 0 (ts 0) (test_main ctx path)" "lines_of 1 log = said sr w 1 (ts 1) (test_thread ctx path)"
    by (auto simp: test_main_def test_thread_def less_Suc_eq)
  from lines(1,2) obtain t0 t1 where ts: "ts 0 = [t0]" "ts 1 = [t1]"
    by (metis One_nat_def length_0_conv length_Suc_conv)
  from one obtain a b where ab: "stmt_lines sr w 0 t0 (hd (test_main ctx path)) = [a]"
    "stmt_lines sr w 1 t1 (hd (test_thread ctx path)) = [b]" unfolding test_main_def test_thread_def by fastforce
  with lines ts have "lines_of 0 log = [a]" "lines_of 1 log = [b]"
    by (simp_all add: said_def test_main_def test_thread_def)
  with single_lines fin(1,2) have "sy_out S = chars [a, b] \<or> sy_out S = chars [b, a]" by fastforce
  with ab show ?thesis by blast
qed

section \<open>Properties\<close>

text \<open>
  C12. Threads that log at the same time never mix their lines, whatever the scheduling: what is on the
  terminal at any moment is a sequence of whole lines, the last one perhaps not complete, and the
  lines of each thread are those of its statements, each with the time at which the thread
  composed it, in the order of its program; only complete lines are left when all threads are done.
\<close>

theorem threads_print_whole_lines:
  assumes "reachable sr w time programs S"
    and "\<forall>ss \<in> set programs. \<forall>s \<in> set ss. good_stmt sr s" and "\<not> m_enableThreadInfo (w_process w)"
  shows "\<exists>log ts. prefix (sy_out S) (chars (map snd log)) \<and>
    (\<forall>t < length programs. sorted (ts t) \<and> length (ts t) \<le> length (programs ! t) \<and>
       prefix (lines_of t log) (said sr w t (ts t) (programs ! t))) \<and>
    (finished S \<longrightarrow> sy_out S = chars (map snd log) \<and> (\<forall>t < length programs.
       length (ts t) = length (programs ! t) \<and> lines_of t log = said sr w t (ts t) (programs ! t)))"
proof -
  from account_reachable[OF assms] obtain log ts where acc: "account sr w programs S log ts" by blast
  have out: "sy_out S @ rest S = chars (map snd log)" using acc by (simp add: account_def)
  have th: "thread_account sr w S t (programs ! t) (lines_of t log) (ts t)" if "t < length programs" for t
    using acc that by (simp add: account_def)
  note fin = account_finished[OF acc]
  show ?thesis
  proof (intro exI conjI allI impI)
    show "prefix (sy_out S) (chars (map snd log))" using out by (metis prefixI)
    fix t assume t: "t < length programs"
    show "sorted (ts t)" "length (ts t) \<le> length (programs ! t)"
      using th[OF t] by (simp_all add: thread_account_def Let_def)
    have "said sr w t (ts t) (programs ! t) = lines_of t log @ pending (th_phase (sy_threads S ! t))"
      using th[OF t] by (simp add: thread_account_def Let_def)
    then show "prefix (lines_of t log) (said sr w t (ts t) (programs ! t))" by (rule prefixI)
  qed (use fin in auto)
qed

theorem threads_print_whole_lines_witness:
  "\<exists>S log. reachable sample_surroundings sample_world 0
      [thread1 (sample_log_ctx [ConsoleCtx plain_ctx] True) ''m.cpp'',
       thread2 (sample_log_ctx [ConsoleCtx plain_ctx] True) ''m.cpp''] S \<and>
    finished S \<and> sy_out S = chars (map snd log) \<and> length (lines_of 0 log) = 1000 \<and> length (lines_of 1 log) = 1000"
proof -
  let ?ps = "[thread1 (sample_log_ctx [ConsoleCtx plain_ctx] True) ''m.cpp'',
    thread2 (sample_log_ctx [ConsoleCtx plain_ctx] True) ''m.cpp'']"
  from can_finish[OF reachable.start sample_greetings, of 0] obtain S where
    S: "reachable sample_surroundings sample_world 0 ?ps S" "finished S" by blast
  from threads_print_whole_lines[OF S(1) sample_greetings] S(2) obtain log ts where
    l: "sy_out S = chars (map snd log)" "\<forall>t < length ?ps. length (ts t) = length (?ps ! t) \<and>
      lines_of t log = said sample_surroundings sample_world t (ts t) (?ps ! t)" by metis
  have "length (ts 0) = MULTITHREADED_DURATION" "length (ts 1) = MULTITHREADED_DURATION"
    "lines_of 0 log = said sample_surroundings sample_world 0 (ts 0) (?ps ! 0)"
    "lines_of 1 log = said sample_surroundings sample_world 1 (ts 1) (?ps ! 1)"
    using l(2) by (auto simp: thread1_def thread2_def loop_def less_Suc_eq)
  then have "length (lines_of 0 log) = MULTITHREADED_DURATION" "length (lines_of 1 log) = MULTITHREADED_DURATION"
    by (simp_all add: thread1_def thread2_def loop_def length_said_greetings)
  with S l(1) show ?thesis unfolding MULTITHREADED_DURATION_def by blast
qed

text \<open>
  C13. The output mutex cannot block the process: as long as some thread has work left, some thread can
  take a step, and the threads cannot take steps for ever, so that every run in which a thread that
  can go on eventually does ends with everything printed.
\<close>

theorem logging_threads_finish:
  assumes "reachable sr w time programs S"
    and "\<forall>ss \<in> set programs. \<forall>s \<in> set ss. good_stmt sr s" and "\<not> m_enableThreadInfo (w_process w)"
  shows "(finished S \<or> (\<exists>t S'. thread_step sr t S = Some S')) \<and> wf {(S', S). \<exists>t. thread_step sr t S = Some S'}"
  using account_reachable[OF assms] account_progress[OF _ _ assms(2,3)] thread_steps_end by blast

theorem logging_threads_finish_witness:
  "\<exists>t S'. thread_step sample_surroundings t (system_start sample_world 0
      [thread1 (sample_log_ctx [ConsoleCtx plain_ctx] True) ''m.cpp'',
       thread2 (sample_log_ctx [ConsoleCtx plain_ctx] True) ''m.cpp'']) = Some S'"
  using logging_threads_finish[OF reachable.start sample_greetings, of 0]
  by (auto simp: finished_def system_start_def thread1_def loop_def MULTITHREADED_DURATION_def)

end
