(* ===== verification/Thread_Storage.thy ===== *)
theory Thread_Storage
  imports Common
begin

text \<open>
  The other implementation of \<open>getThreadInformation\<close> in \<open>src/ivi-logging.cpp\<close>, for compilers without
  \<open>thread_local\<close>: every thread has a pointer, at first null, to a \<open>ThreadInformation\<close> on the heap.
  It refines the first one, whatever addresses \<open>new\<close> returns.
\<close>

record thread_heap =
  th_threadID :: "nat \<Rightarrow> nat"
  th_objects :: "nat \<rightharpoonup> 32 word"
  th_sNextID :: "32 word"

definition thread_heap_init :: thread_heap where
  "thread_heap_init = \<lparr>th_threadID = (\<lambda>_. 0), th_objects = Map.empty, th_sNextID = 0\<rparr>"

definition getThreadInformation_heap :: "((nat \<rightharpoonup> 32 word) \<Rightarrow> nat) \<Rightarrow> nat \<Rightarrow> thread_heap \<Rightarrow>
    (32 word \<times> thread_heap) option" where
  "getThreadInformation_heap new_address tid s = (
     let s = (if th_threadID s tid = 0
       then (let a = new_address (th_objects s)
             in s\<lparr>th_threadID := (th_threadID s)(tid := a), th_objects := (th_objects s)(a \<mapsto> th_sNextID s),
                  th_sNextID := th_sNextID s + 1\<rparr>)
       else s)
     in do { i \<leftarrow> th_objects s (th_threadID s tid); Some (i, s) })"

text \<open>The identifiers a sequence of accesses sees, with both implementations.\<close>

fun seen_ids :: "nat list \<Rightarrow> thread_ids \<Rightarrow> 32 word list \<times> thread_ids" where
  "seen_ids [] s = ([], s)"
| "seen_ids (t # ts) s = (let (i, s) = getThreadInformation t s; (is, s) = seen_ids ts s in (i # is, s))"

fun seen_ids_heap :: "((nat \<rightharpoonup> 32 word) \<Rightarrow> nat) \<Rightarrow> nat list \<Rightarrow> thread_heap \<Rightarrow> (32 word list \<times> thread_heap) option" where
  "seen_ids_heap new_address [] s = Some ([], s)"
| "seen_ids_heap new_address (t # ts) s = do {
     (i, s) \<leftarrow> getThreadInformation_heap new_address t s;
     (is, s) \<leftarrow> seen_ids_heap new_address ts s;
     Some (i # is, s) }"

section \<open>Refinement\<close>

text \<open>\<open>new\<close> returns an address that is not null and not in use.\<close>

definition allocates :: "((nat \<rightharpoonup> 32 word) \<Rightarrow> nat) \<Rightarrow> bool" where
  "allocates new_address \<longleftrightarrow> (\<forall>h. finite (dom h) \<longrightarrow> new_address h \<noteq> 0 \<and> new_address h \<notin> dom h)"

definition heap_ids :: "thread_heap \<Rightarrow> thread_ids" where
  "heap_ids s = \<lparr>sNextID = th_sNextID s,
     m_id = (\<lambda>t. if th_threadID s t = 0 then None else th_objects s (th_threadID s t))\<rparr>"

definition heap_inv :: "thread_heap \<Rightarrow> bool" where
  "heap_inv s \<longleftrightarrow> finite (dom (th_objects s)) \<and>
     (\<forall>t. th_threadID s t \<noteq> 0 \<longrightarrow> th_threadID s t \<in> dom (th_objects s))"

lemma heap_step:
  assumes "allocates new_address" and "heap_inv s"
  shows "\<exists>s'. getThreadInformation_heap new_address t s = Some (fst (getThreadInformation t (heap_ids s)), s') \<and>
    heap_inv s' \<and> heap_ids s' = snd (getThreadInformation t (heap_ids s))"
proof (cases "th_threadID s t = 0")
  case True
  let ?a = "new_address (th_objects s)"
  have a: "?a \<noteq> 0" "?a \<notin> dom (th_objects s)"
    using assms by (auto simp: allocates_def heap_inv_def)
  have "u \<noteq> t \<Longrightarrow> th_threadID s u \<noteq> ?a" for u
    using a assms(2) by (metis heap_inv_def)
  with True a assms(2) show ?thesis
    by (auto simp: getThreadInformation_heap_def getThreadInformation_def heap_ids_def heap_inv_def Let_def fun_eq_iff)
next
  case False
  with assms(2) obtain i where "th_objects s (th_threadID s t) = Some i" by (auto simp: heap_inv_def)
  with False assms(2) show ?thesis
    by (simp add: getThreadInformation_heap_def getThreadInformation_def heap_ids_def Let_def)
qed

lemma heap_run:
  "allocates new_address \<Longrightarrow> heap_inv s \<Longrightarrow> \<exists>s'. seen_ids_heap new_address ts s =
     Some (fst (seen_ids ts (heap_ids s)), s') \<and> heap_inv s' \<and> heap_ids s' = snd (seen_ids ts (heap_ids s))"
proof (induction ts arbitrary: s)
  case (Cons t ts)
  from heap_step[OF Cons.prems, of t] obtain s1 where s1:
    "getThreadInformation_heap new_address t s = Some (fst (getThreadInformation t (heap_ids s)), s1)"
    "heap_inv s1" "heap_ids s1 = snd (getThreadInformation t (heap_ids s))" by blast
  from Cons.IH[OF Cons.prems(1) s1(2)] s1 show ?case by (auto simp: Let_def case_prod_beta)
qed auto

lemma seen_ids_state: "snd (seen_ids ts s) = thread_accesses ts s"
  by (induction ts arbitrary: s) (simp_all add: Let_def case_prod_beta)

lemma seen_ids_nth: "n < length ts \<Longrightarrow> m_id (thread_accesses ts s) (ts ! n) = Some (fst (seen_ids ts s) ! n)"
proof (induction ts arbitrary: s n)
  case (Cons t ts)
  obtain i s1 where g: "getThreadInformation t s = (i, s1)" by force
  have "m_id s1 t = Some i" using g by (auto simp: getThreadInformation_def split: option.splits)
  with Cons thread_accesses_keeps[of s1 t i ts] g show ?case
    by (cases n) (simp_all add: Let_def case_prod_beta)
qed simp

lemma seen_ids_length: "length (fst (seen_ids ts s)) = length ts"
  by (induction ts arbitrary: s) (simp_all add: Let_def case_prod_beta)

text \<open>
  C36. Both implementations of the thread storage hand out the same identifiers, for every order in
  which threads log and wherever the heap puts the objects; two accesses see the same identifier
  exactly when the same thread makes them (as long as at most 2^32 threads have logged), and the
  process counts as multi-threaded exactly when the number of threads that have logged is not one,
  modulo the width of the counter.
\<close>

theorem thread_storages_agree:
  assumes "allocates new_address" and "card (set ts) \<le> 2 ^ 32"
  shows "\<exists>ids s. seen_ids_heap new_address ts thread_heap_init = Some (ids, s) \<and>
    seen_ids ts thread_ids_init = (ids, heap_ids s) \<and> length ids = length ts \<and>
    (\<forall>i j. i < length ts \<and> j < length ts \<longrightarrow> (getID (ids ! i) = getID (ids ! j) \<longleftrightarrow> ts ! i = ts ! j)) \<and>
    (isMultithreadedApp (heap_ids s) \<longleftrightarrow> card (set ts) mod 2 ^ 32 \<noteq> 1)"
proof -
  let ?ids = "fst (seen_ids ts thread_ids_init)" and ?s = "thread_accesses ts thread_ids_init"
  have start: "heap_ids thread_heap_init = thread_ids_init" "heap_inv thread_heap_init"
    by (simp_all add: heap_ids_def thread_heap_init_def thread_ids_init_def heap_inv_def)
  from heap_run[OF assms(1) start(2), of ts] obtain s where
    s: "seen_ids_heap new_address ts thread_heap_init = Some (?ids, s)" "heap_ids s = ?s"
    by (auto simp: start seen_ids_state)
  have "getID (?ids ! i) = getID (?ids ! j) \<longleftrightarrow> ts ! i = ts ! j" if "i < length ts" "j < length ts" for i j
  proof
    assume "getID (?ids ! i) = getID (?ids ! j)"
    then have "?ids ! i = ?ids ! j" by (auto simp: getID_def dest: signed_word_eqI)
    then show "ts ! i = ts ! j"
      using thread_inv_distinct[OF thread_accesses_inv[OF thread_inv_init], of ts] that assms(2)
        seen_ids_nth[of i ts thread_ids_init] seen_ids_nth[of j ts thread_ids_init]
      by (simp add: thread_accesses_init_dom)
  next
    assume "ts ! i = ts ! j"
    then show "getID (?ids ! i) = getID (?ids ! j)"
      using that seen_ids_nth[of i ts thread_ids_init] seen_ids_nth[of j ts thread_ids_init] by simp
  qed
  moreover have "seen_ids ts thread_ids_init = (?ids, heap_ids s)"
    using seen_ids_state[of ts thread_ids_init] s(2) by (cases "seen_ids ts thread_ids_init") simp
  moreover have "isMultithreadedApp (heap_ids s) \<longleftrightarrow> card (set ts) mod 2 ^ 32 \<noteq> 1"
    unfolding s(2) by (rule multithreaded_count)
  ultimately show ?thesis using s(1) seen_ids_length[of ts thread_ids_init] by blast
qed

text \<open>Addresses in steps of 16, above all that are in use.\<close>

theorem thread_storages_agree_witness:
  "\<exists>ids s. seen_ids_heap (\<lambda>h. 16 + (if h = Map.empty then 0 else Max (dom h))) [7, 9, 7] thread_heap_init = Some (ids, s) \<and>
    length ids = 3 \<and> getID (ids ! 0) = getID (ids ! 2) \<and> getID (ids ! 0) \<noteq> getID (ids ! 1) \<and>
    isMultithreadedApp (heap_ids s)"
proof -
  let ?new = "\<lambda>h :: nat \<rightharpoonup> 32 word. 16 + (if h = Map.empty then 0 else Max (dom h))"
  have "allocates ?new"
    unfolding allocates_def
  proof (intro allI impI conjI)
    fix h :: "nat \<rightharpoonup> 32 word"
    assume "finite (dom h)"
    then have below: "a \<le> Max (dom h)" if "a \<in> dom h" for a using that by simp
    show "?new h \<notin> dom h"
    proof (cases "h = Map.empty")
      case False
      then show ?thesis using below[of "16 + Max (dom h)"] by fastforce
    qed simp
  qed simp
  moreover have "card (set [7, 9, 7 :: nat]) = 2" by (simp add: card_insert_if)
  ultimately obtain ids s where r: "seen_ids_heap ?new [7, 9, 7] thread_heap_init = Some (ids, s)" "length ids = 3"
    "\<forall>i j. i < 3 \<and> j < 3 \<longrightarrow> (getID (ids ! i) = getID (ids ! j) \<longleftrightarrow> [7, 9, 7 :: nat] ! i = [7, 9, 7] ! j)"
    "isMultithreadedApp (heap_ids s) \<longleftrightarrow> card (set [7, 9, 7 :: nat]) mod 2 ^ 32 \<noteq> 1"
    using thread_storages_agree[of ?new "[7, 9, 7]"] by auto
  from r(3)[rule_format, of 0 2] r(3)[rule_format, of 0 1] r(1,2,4) show ?thesis
    by (auto simp: card_insert_if simp del: seen_ids_heap.simps)
qed

end
