(* ===== verification/Dlt_Race.thy ===== *)
theory Dlt_Race
  imports Dlt_Daemon
begin

text \<open>
  The descriptor of the FIFO of the DLT daemon when several threads send. \<open>DaemonConnection::sendLog\<close>
  does not take the mutex of the connection, so its steps, down to the single system call, interleave
  with those of other threads; here are the steps that touch \<open>m_daemonFileDescriptor\<close>. What the
  messages contain is in \<open>Dlt_Daemon\<close>, where calls do not overlap. \<open>registerContext\<close> runs the same
  \<open>initDaemonConnection\<close> under the mutex.
\<close>

section \<open>Steps\<close>

text \<open>
  A message is one of the greeting (\<open>RegisterApp\<close>, then the contexts: \<open>Greeting k\<close> has \<open>k\<close> to follow)
  or the log message itself.
\<close>

datatype outgoing = Greeting nat | LogMessage

datatype conn_pc = Outside | Init_check | Init_open | Init_opened | Sending outgoing | Closing outgoing
  | Resetting outgoing | Log_check

record conn =
  cn_fd :: int
  cn_open :: "int set"
  cn_pc :: "nat \<Rightarrow> conn_pc"

definition conn_start :: conn where
  "conn_start = \<lparr>cn_fd = disconnectedFromDaemonFd, cn_open = {}, cn_pc = (\<lambda>_. Outside)\<rparr>"

fun after_send :: "outgoing \<Rightarrow> conn_pc" where
  "after_send (Greeting 0) = Log_check"
| "after_send (Greeting (Suc k)) = Sending (Greeting k)"
| "after_send LogMessage = Outside"

text \<open>
  One step of thread \<open>t\<close>; \<open>r\<close> is what the system call of the step returns, if it makes one. \<open>open\<close>
  returns an unused descriptor or \<open>-1\<close>, \<open>writev\<close> fails on a descriptor that is not open.
\<close>

definition goto :: "nat \<Rightarrow> conn_pc \<Rightarrow> conn \<Rightarrow> conn option" where
  "goto t pc S = Some (S\<lparr>cn_pc := (cn_pc S)(t := pc)\<rparr>)"

definition fd_connected :: "conn \<Rightarrow> bool" where
  "fd_connected S \<longleftrightarrow> cn_fd S \<noteq> disconnectedFromDaemonFd"

definition open_fifo :: "nat \<Rightarrow> int \<Rightarrow> conn \<Rightarrow> conn option" where
  "open_fifo t r S =
     (if r = -1 then goto t Init_opened (S\<lparr>cn_fd := r\<rparr>)
      else if 0 \<le> r \<and> r \<notin> cn_open S then goto t Init_opened (S\<lparr>cn_fd := r, cn_open := insert r (cn_open S)\<rparr>)
      else None)"

fun init_step :: "nat \<Rightarrow> nat \<Rightarrow> int \<Rightarrow> conn_pc \<Rightarrow> conn \<Rightarrow> conn option" where
  "init_step contexts t r Init_check S = goto t (if \<not> fd_connected S then Init_open else Log_check) S"
| "init_step contexts t r Init_open S = open_fifo t r S"
| "init_step contexts t r Init_opened S =
     goto t (if fd_connected S then Sending (Greeting contexts) else Log_check) S"
| "init_step contexts t r _ S = None"

fun send_step :: "nat \<Rightarrow> int \<Rightarrow> conn_pc \<Rightarrow> conn \<Rightarrow> conn option" where
  "send_step t r (Sending m) S =
     (if r < 0 then goto t (Closing m) S else if cn_fd S \<in> cn_open S then goto t (after_send m) S else None)"
| "send_step t r (Closing m) S = goto t (Resetting m) (S\<lparr>cn_open := cn_open S - {cn_fd S}\<rparr>)"
| "send_step t r (Resetting m) S = goto t (after_send m) (S\<lparr>cn_fd := disconnectedFromDaemonFd\<rparr>)"
| "send_step t r _ S = None"

fun sendLog_step :: "nat \<Rightarrow> conn_pc \<Rightarrow> conn \<Rightarrow> conn option" where
  "sendLog_step t Outside S = goto t Init_check S"
| "sendLog_step t Log_check S = goto t (if fd_connected S then Sending LogMessage else Outside) S"
| "sendLog_step t _ S = None"

definition conn_step :: "nat \<Rightarrow> nat \<times> int \<Rightarrow> conn \<Rightarrow> conn option" where
  "conn_step contexts tr S = (let (t, r) = tr; pc = cn_pc S t in
     case pc of
       Outside \<Rightarrow> sendLog_step t pc S
     | Log_check \<Rightarrow> sendLog_step t pc S
     | Sending m \<Rightarrow> send_step t r pc S
     | Closing m \<Rightarrow> send_step t r pc S
     | Resetting m \<Rightarrow> send_step t r pc S
     | _ \<Rightarrow> init_step contexts t r pc S)"

lemmas conn_defs = conn_step_def goto_def fd_connected_def open_fifo_def Let_def

fun conn_run :: "nat \<Rightarrow> (nat \<times> int) list \<Rightarrow> conn \<Rightarrow> conn option" where
  "conn_run contexts [] S = Some S"
| "conn_run contexts (x # xs) S = do { S \<leftarrow> conn_step contexts x S; conn_run contexts xs S }"

section \<open>One call at a time\<close>

text \<open>A thread only takes a step while every other thread is outside.\<close>

inductive serial :: "nat \<Rightarrow> conn \<Rightarrow> bool" for contexts where
  serial_start: "serial contexts conn_start"
| serial_step: "serial contexts S \<Longrightarrow> \<forall>u. u \<noteq> t \<longrightarrow> cn_pc S u = Outside \<Longrightarrow>
     conn_step contexts (t, r) S = Some S' \<Longrightarrow> serial contexts S'"

definition owned :: "conn \<Rightarrow> bool" where
  "owned S \<longleftrightarrow> cn_open S = (if cn_fd S = disconnectedFromDaemonFd then {} else {cn_fd S})"

definition conn_inv :: "conn \<Rightarrow> bool" where
  "conn_inv S \<longleftrightarrow> (\<exists>t. (\<forall>u. u \<noteq> t \<longrightarrow> cn_pc S u = Outside) \<and>
     (case cn_pc S t of Resetting m \<Rightarrow> cn_open S = {}
      | Init_open \<Rightarrow> owned S \<and> cn_fd S = disconnectedFromDaemonFd | _ \<Rightarrow> owned S))"

lemma after_send_simps [simp]: "after_send m \<noteq> Resetting m'" "after_send m \<noteq> Init_open"
  by (cases m rule: after_send.cases; simp)+

lemma conn_inv_step:
  assumes "conn_inv S" and "\<forall>u. u \<noteq> t \<longrightarrow> cn_pc S u = Outside" and "conn_step contexts (t, r) S = Some S'"
  shows "conn_inv S'"
proof -
  from assms(1) obtain v where v: "\<forall>u. u \<noteq> v \<longrightarrow> cn_pc S u = Outside"
    "case cn_pc S v of Resetting m \<Rightarrow> cn_open S = {}
      | Init_open \<Rightarrow> owned S \<and> cn_fd S = disconnectedFromDaemonFd | _ \<Rightarrow> owned S" by (auto simp: conn_inv_def)
  have t: "case cn_pc S t of Resetting m \<Rightarrow> cn_open S = {}
      | Init_open \<Rightarrow> owned S \<and> cn_fd S = disconnectedFromDaemonFd | _ \<Rightarrow> owned S"
    using v assms(2) by (cases "v = t") (auto split: conn_pc.splits)
  have "\<forall>u. u \<noteq> t \<longrightarrow> cn_pc S' u = Outside"
    using assms(2,3) by (auto simp: conn_defs split: conn_pc.splits if_splits)
  moreover have "case cn_pc S' t of Resetting m \<Rightarrow> cn_open S' = {}
      | Init_open \<Rightarrow> owned S' \<and> cn_fd S' = disconnectedFromDaemonFd | _ \<Rightarrow> owned S'"
    using t assms(3)
    by (auto simp: conn_defs owned_def disconnectedFromDaemonFd_def split: conn_pc.splits if_splits)
  ultimately show ?thesis unfolding conn_inv_def by blast
qed

lemma serial_inv: "serial contexts S \<Longrightarrow> conn_inv S"
proof (induction rule: serial.induct)
  case serial_start
  show ?case by (simp add: conn_inv_def conn_start_def owned_def)
next
  case (serial_step S t r S')
  from conn_inv_step[OF serial_step(4,2,3)] show ?case .
qed

lemma serial_run:
  "serial contexts S \<Longrightarrow> \<forall>u. u \<noteq> t \<longrightarrow> cn_pc S u = Outside \<Longrightarrow>
     conn_run contexts (map (Pair t) rs) S = Some S' \<Longrightarrow> serial contexts S'"
proof (induction rs arbitrary: S)
  case (Cons r rs)
  then obtain S1 where s: "conn_step contexts (t, r) S = Some S1" "conn_run contexts (map (Pair t) rs) S1 = Some S'"
    by (auto split: bind_splits)
  from Cons.prems(2) s(1) have "\<forall>u. u \<noteq> t \<longrightarrow> cn_pc S1 u = Outside"
    by (cases "cn_pc S t") (auto simp: conn_defs split: if_splits)
  with Cons.IH[OF serial.serial_step[OF Cons.prems(1,2) s(1)]] s(2) show ?case by blast
qed simp

section \<open>Properties\<close>

text \<open>
  C37. As long as calls do not overlap, as under the mutex, the connection owns exactly one descriptor
  while it is connected and none otherwise, whatever \<open>open\<close> and \<open>writev\<close> return, and also when
  several messages of a greeting fail.
\<close>

theorem serial_calls_own_descriptor:
  assumes "serial contexts S" and "\<forall>t. cn_pc S t = Outside"
  shows "cn_open S = (if cn_fd S = disconnectedFromDaemonFd then {} else {cn_fd S})"
  using serial_inv[OF assms(1)] assms(2) by (auto simp: conn_inv_def owned_def)

theorem serial_calls_own_descriptor_witness:
  "\<exists>S. serial 1 S \<and> (\<forall>t. cn_pc S t = Outside) \<and> cn_fd S = 7 \<and> cn_open S = {7}"
proof -
  let ?run = "conn_run 1 (map (Pair 2) [0, 0, 5, 0, 8, -1, 0, 0, 0, 0, 0, 7, 0, 8, 8, 0, 8])"
  have "\<exists>S. ?run conn_start = Some S \<and> (\<forall>t. cn_pc S t = Outside) \<and> cn_fd S = 7"
    by (simp add: conn_defs conn_start_def disconnectedFromDaemonFd_def)
  then obtain S where S: "?run conn_start = Some S" "\<forall>t. cn_pc S t = Outside" "cn_fd S = 7" by blast
  have "serial 1 S" by (rule serial_run[OF serial.serial_start _ S(1)]) (simp add: conn_start_def)
  with serial_calls_own_descriptor[OF this S(2)] S(2,3) show ?thesis by (auto simp: disconnectedFromDaemonFd_def)
qed

text \<open>
  C38. \<open>sendLog\<close> does not take the mutex, and two threads that send their first message at the same
  time both open the FIFO: afterwards, with nobody inside, two descriptors are open, the connection
  only knows the second, and the first is lost.
\<close>

theorem unlocked_calls_leak_descriptor:
  "\<exists>schedule S. conn_run 0 schedule conn_start = Some S \<and> (\<forall>t. cn_pc S t = Outside) \<and>
     cn_fd S = 4 \<and> cn_open S = {3, 4}"
proof -
  let ?schedule = "[(0, 0), (0, 0), (1, 0), (1, 0), (0, 3), (1, 4), (0, 0), (0, 0), (0, 0), (0, 0),
    (1, 0), (1, 0), (1, 0), (1, 0 :: int)] :: (nat \<times> int) list"
  have "\<exists>S. conn_run 0 ?schedule conn_start = Some S \<and> (\<forall>t. cn_pc S t = Outside) \<and> cn_fd S = 4 \<and> cn_open S = {3, 4}"
    by (simp add: conn_defs conn_start_def disconnectedFromDaemonFd_def) auto
  then show ?thesis by blast
qed

end
