(* ===== verification/Byte_Store.thy ===== *)
theory Byte_Store
  imports Byte_Array
begin

text \<open>
  \<open>ByteArray\<close> objects in memory. \<open>Byte_Array\<close> treats an object as a value; here \<open>m_dynamicData\<close> is a
  pointer to a vector on the heap, objects are constructed, copied, assigned and destroyed, and what
  has to hold is that each vector has exactly one owner. \<open>new_address\<close> is what \<open>new\<close> returns.
\<close>

section \<open>Objects and the heap\<close>

record obj =
  o_dynamicData :: nat
  o_staticData :: mem
  o_length :: nat

record store =
  st_objects :: "nat \<rightharpoonup> obj"
  st_heap :: "nat \<rightharpoonup> vec"

definition store_empty :: store where
  "store_empty = \<lparr>st_objects = Map.empty, st_heap = Map.empty\<rparr>"

text \<open>The value of an object; \<open>None\<close> when it does not exist or its pointer dangles.\<close>

definition obj_value :: "(nat \<rightharpoonup> vec) \<Rightarrow> obj \<Rightarrow> byte_array option" where
  "obj_value h ob = (if o_dynamicData ob = 0
     then Some \<lparr>m_dynamicData = None, m_staticData = o_staticData ob, m_length = o_length ob\<rparr>
     else map_option (\<lambda>v. \<lparr>m_dynamicData = Some v, m_staticData = o_staticData ob, m_length = o_length ob\<rparr>)
       (h (o_dynamicData ob)))"

definition deref :: "store \<Rightarrow> nat \<Rightarrow> byte_array option" where
  "deref st k = (case st_objects st k of None \<Rightarrow> None | Some ob \<Rightarrow> obj_value (st_heap st) ob)"

section \<open>Operations\<close>

definition obj_new :: "mem \<Rightarrow> nat \<Rightarrow> store \<Rightarrow> store option" where
  "obj_new junk k st = (if k \<in> dom (st_objects st) then None
     else Some (st\<lparr>st_objects := (st_objects st)(k \<mapsto> \<lparr>o_dynamicData = 0, o_staticData = junk, o_length = 0\<rparr>)\<rparr>))"

text \<open>\<open>resize\<close>: the vector resizes itself, or the object keeps its buffer, or moves to a new vector.\<close>

definition obj_resize :: "((nat \<rightharpoonup> vec) \<Rightarrow> nat) \<Rightarrow> nat \<Rightarrow> nat \<Rightarrow> store \<Rightarrow> store option" where
  "obj_resize new_address n k st = do {
     ob \<leftarrow> st_objects st k;
     if o_dynamicData ob \<noteq> 0
     then do {
       v \<leftarrow> st_heap st (o_dynamicData ob);
       Some (st\<lparr>st_heap := (st_heap st)(o_dynamicData ob \<mapsto> vec_resize n v)\<rparr>) }
     else if n \<le> STATIC_SIZE
     then Some (st\<lparr>st_objects := (st_objects st)(k \<mapsto> ob\<lparr>o_length := n\<rparr>)\<rparr>)
     else let a = new_address (st_heap st);
              v = vec_resize n \<lparr>v_mem = [], v_size = 0\<rparr>;
              v' = v\<lparr>v_mem := blit (v_mem v) 0 (take (o_length ob) (o_staticData ob))\<rparr>
          in Some (st\<lparr>st_heap := (st_heap st)(a \<mapsto> v'),
               st_objects := (st_objects st)(k \<mapsto> ob\<lparr>o_dynamicData := a, o_length := SIZE_MAX\<rparr>)\<rparr>) }"

text \<open>A copy to \<open>getData() + i\<close>.\<close>

definition obj_put :: "nat \<Rightarrow> mem \<Rightarrow> nat \<Rightarrow> store \<Rightarrow> store option" where
  "obj_put i ys k st = do {
     ob \<leftarrow> st_objects st k;
     if o_dynamicData ob \<noteq> 0
     then do {
       v \<leftarrow> st_heap st (o_dynamicData ob);
       Some (st\<lparr>st_heap := (st_heap st)(o_dynamicData ob \<mapsto> v\<lparr>v_mem := blit (v_mem v) i ys\<rparr>)\<rparr>) }
     else Some (st\<lparr>st_objects := (st_objects st)(k \<mapsto> ob\<lparr>o_staticData := blit (o_staticData ob) i ys\<rparr>)\<rparr>) }"

definition obj_append :: "((nat \<rightharpoonup> vec) \<Rightarrow> nat) \<Rightarrow> mem \<Rightarrow> nat \<Rightarrow> store \<Rightarrow> store option" where
  "obj_append new_address raw k st = do {
     b \<leftarrow> deref st k;
     st \<leftarrow> obj_resize new_address (ba_size b + length raw) k st;
     obj_put (ba_size b) raw k st }"

definition obj_copy :: "((nat \<rightharpoonup> vec) \<Rightarrow> nat) \<Rightarrow> mem \<Rightarrow> nat \<Rightarrow> nat \<Rightarrow> store \<Rightarrow> store option" where
  "obj_copy new_address junk source k st = do {
     b \<leftarrow> deref st source;
     st \<leftarrow> obj_new junk k st;
     obj_append new_address (take (ba_size b) (getData b)) k st }"

text \<open>The assignment reads its source after the target has been resized: they may be the same object.\<close>

definition obj_assign :: "((nat \<rightharpoonup> vec) \<Rightarrow> nat) \<Rightarrow> nat \<Rightarrow> nat \<Rightarrow> store \<Rightarrow> store option" where
  "obj_assign new_address source k st = do {
     right \<leftarrow> deref st source;
     st \<leftarrow> obj_resize new_address (ba_size right) k st;
     right \<leftarrow> deref st source;
     obj_put 0 (take (ba_size right) (getData right)) k st }"

text \<open>The destructor deletes the vector; deleting what is not allocated is undefined.\<close>

definition obj_destroy :: "nat \<Rightarrow> store \<Rightarrow> store option" where
  "obj_destroy k st = do {
     ob \<leftarrow> st_objects st k;
     if o_dynamicData ob = 0 then Some (st\<lparr>st_objects := (st_objects st)(k := None)\<rparr>)
     else if o_dynamicData ob \<in> dom (st_heap st)
     then Some \<lparr>st_objects = (st_objects st)(k := None), st_heap = (st_heap st)(o_dynamicData ob := None)\<rparr>
     else None }"

datatype array_op = ANew nat mem | ACopy nat nat mem | AAssign nat nat | AAppend nat mem | AShrink nat nat
  | ADestroy nat

fun array_step :: "((nat \<rightharpoonup> vec) \<Rightarrow> nat) \<Rightarrow> array_op \<Rightarrow> store \<Rightarrow> store option" where
  "array_step new_address (ANew k junk) st = obj_new junk k st"
| "array_step new_address (ACopy source k junk) st = obj_copy new_address junk source k st"
| "array_step new_address (AAssign source k) st = obj_assign new_address source k st"
| "array_step new_address (AAppend k raw) st = obj_append new_address raw k st"
| "array_step new_address (AShrink k n) st = obj_resize new_address n k st"
| "array_step new_address (ADestroy k) st = obj_destroy k st"

fun array_run :: "((nat \<rightharpoonup> vec) \<Rightarrow> nat) \<Rightarrow> array_op list \<Rightarrow> store \<Rightarrow> store option" where
  "array_run new_address [] st = Some st"
| "array_run new_address (x # xs) st = do { st \<leftarrow> array_step new_address x st; array_run new_address xs st }"

section \<open>The specification\<close>

text \<open>Objects are byte lists: \<open>None\<close> for a use that the program must not make.\<close>

fun list_step :: "array_op \<Rightarrow> (nat \<rightharpoonup> mem) \<Rightarrow> (nat \<rightharpoonup> mem) option" where
  "list_step (ANew k junk) m = (if m k = None \<and> length junk = STATIC_SIZE then Some (m(k \<mapsto> [])) else None)"
| "list_step (ACopy source k junk) m = do {
     xs \<leftarrow> m source; if m k = None \<and> length junk = STATIC_SIZE then Some (m(k \<mapsto> xs)) else None }"
| "list_step (AAssign source k) m = do { xs \<leftarrow> m source; _ \<leftarrow> m k; Some (m(k \<mapsto> xs)) }"
| "list_step (AAppend k raw) m = do { xs \<leftarrow> m k; Some (m(k \<mapsto> xs @ raw)) }"
| "list_step (AShrink k n) m = do { xs \<leftarrow> m k; if n \<le> length xs then Some (m(k \<mapsto> take n xs)) else None }"
| "list_step (ADestroy k) m = do { _ \<leftarrow> m k; Some (m(k := None)) }"

fun list_run :: "array_op list \<Rightarrow> (nat \<rightharpoonup> mem) \<Rightarrow> (nat \<rightharpoonup> mem) option" where
  "list_run [] m = Some m"
| "list_run (x # xs) m = do { m \<leftarrow> list_step x m; list_run xs m }"

section \<open>Ownership\<close>

definition fresh_addresses :: "((nat \<rightharpoonup> vec) \<Rightarrow> nat) \<Rightarrow> bool" where
  "fresh_addresses new_address \<longleftrightarrow> (\<forall>h. finite (dom h) \<longrightarrow> new_address h \<noteq> 0 \<and> new_address h \<notin> dom h)"

definition pointer :: "store \<Rightarrow> nat \<Rightarrow> nat" where
  "pointer st k = (case st_objects st k of None \<Rightarrow> 0 | Some ob \<Rightarrow> o_dynamicData ob)"

text \<open>Every vector has exactly one owner, every pointer leads to a vector.\<close>

definition heap_owned :: "(nat \<Rightarrow> nat) \<Rightarrow> (nat \<rightharpoonup> vec) \<Rightarrow> bool" where
  "heap_owned p h \<longleftrightarrow> finite (dom h) \<and> (\<forall>a. a \<in> dom h \<longleftrightarrow> a \<noteq> 0 \<and> (\<exists>k. p k = a)) \<and>
     (\<forall>k j. p k = p j \<and> p k \<noteq> 0 \<longrightarrow> k = j)"

abbreviation owns :: "store \<Rightarrow> bool" where
  "owns st \<equiv> heap_owned (pointer st) (st_heap st)"

lemma heap_ownedI:
  assumes "finite (dom h)" and "\<And>a. a \<in> dom h \<longleftrightarrow> a \<noteq> 0 \<and> (\<exists>k. p k = a)"
    and "\<And>k j. p k = p j \<Longrightarrow> p k \<noteq> 0 \<Longrightarrow> k = j"
  shows "heap_owned p h"
proof -
  have "\<forall>a. a \<in> dom h \<longleftrightarrow> a \<noteq> 0 \<and> (\<exists>k. p k = a)" by (rule allI) (rule assms(2))
  moreover have "\<forall>k j. p k = p j \<and> p k \<noteq> 0 \<longrightarrow> k = j"
    by (rule allI, rule allI, rule impI, erule conjE) (rule assms(3))
  ultimately show ?thesis unfolding heap_owned_def by (intro conjI assms(1))
qed

lemma heap_ownedD:
  assumes "heap_owned p h"
  shows heap_owned_finite: "finite (dom h)"
    and heap_owned_dom: "a \<in> dom h \<longleftrightarrow> a \<noteq> 0 \<and> (\<exists>k. p k = a)"
    and heap_owned_inj: "p k = p j \<Longrightarrow> p k \<noteq> 0 \<Longrightarrow> k = j"
  using assms[unfolded heap_owned_def] by (blast, blast, blast)

lemma heap_owned_write: "heap_owned p h \<Longrightarrow> a \<in> dom h \<Longrightarrow> heap_owned p (h(a \<mapsto> v))"
  by (rule heap_ownedI) (simp_all add: heap_owned_def insert_absorb)

lemma heap_owned_move:
  assumes "heap_owned p h" and "p k = 0" and "a \<noteq> 0" and "a \<notin> dom h"
  shows "heap_owned (p(k := a)) (h(a \<mapsto> v))"
proof -
  have d: "b \<in> dom h \<longleftrightarrow> b \<noteq> 0 \<and> (\<exists>j. p j = b)" for b by (rule heap_owned_dom[OF assms(1)])
  have inj: "p i = p j \<Longrightarrow> p i \<noteq> 0 \<Longrightarrow> i = j" for i j by (rule heap_owned_inj[OF assms(1)])
  have new: "p j \<noteq> a" for j using d[of a] assms(3,4) by blast
  have fin: "finite (dom (h(a \<mapsto> v)))" using heap_owned_finite[OF assms(1)] by simp
  have dom: "b \<in> dom (h(a \<mapsto> v)) \<longleftrightarrow> b \<noteq> 0 \<and> (\<exists>j. (p(k := a)) j = b)" for b
  proof (cases "b = a")
    case True
    then show ?thesis using assms(3) by (auto intro: exI[of _ k])
  next
    case False
    then have "(\<exists>j. (p(k := a)) j = b) \<and> b \<noteq> 0 \<longleftrightarrow> (\<exists>j. p j = b) \<and> b \<noteq> 0"
      using assms(2) by (metis fun_upd_apply)
    with False d[of b] show ?thesis by (simp only: dom_fun_upd option.simps if_False insert_iff) blast
  qed
  have one: "i = j" if "(p(k := a)) i = (p(k := a)) j" "(p(k := a)) i \<noteq> 0" for i j
    using that new[of i] new[of j] inj[of i j] by (cases "i = k"; cases "j = k") auto
  show ?thesis using fin dom one by (rule heap_ownedI)
qed

lemma heap_owned_drop:
  assumes "heap_owned p h"
  shows "heap_owned (p(k := 0)) (h(p k := None))"
proof -
  have d: "b \<in> dom h \<longleftrightarrow> b \<noteq> 0 \<and> (\<exists>j. p j = b)" for b by (rule heap_owned_dom[OF assms(1)])
  have inj: "p i = p j \<Longrightarrow> p i \<noteq> 0 \<Longrightarrow> i = j" for i j by (rule heap_owned_inj[OF assms(1)])
  have fin: "finite (dom (h(p k := None)))" using heap_owned_finite[OF assms(1)] by simp
  have dom: "b \<in> dom (h(p k := None)) \<longleftrightarrow> b \<noteq> 0 \<and> (\<exists>j. (p(k := 0)) j = b)" for b
  proof (cases "b = p k")
    case True
    then show ?thesis using inj by (auto simp: fun_upd_def)
  next
    case False
    then have "(\<exists>j. (p(k := 0)) j = b) \<and> b \<noteq> 0 \<longleftrightarrow> (\<exists>j. p j = b) \<and> b \<noteq> 0"
      by (metis fun_upd_apply)
    with False d[of b] show ?thesis by auto
  qed
  have one: "i = j" if "(p(k := 0)) i = (p(k := 0)) j" "(p(k := 0)) i \<noteq> 0" for i j
    using that inj[of i j] by (cases "i = k"; cases "j = k") auto
  show ?thesis using fin dom one by (rule heap_ownedI)
qed

text \<open>The relation to the specification, and the effect of replacing the value of one object.\<close>

definition holds :: "store \<Rightarrow> (nat \<rightharpoonup> mem) \<Rightarrow> bool" where
  "holds st m \<longleftrightarrow> owns st \<and> dom (st_objects st) = dom m \<and>
     (\<forall>k xs. m k = Some xs \<longrightarrow> (\<exists>b. deref st k = Some b \<and> ba_inv b \<and> ba_content b = xs))"

text \<open>An operation on object \<open>k\<close> with the value \<open>b\<close> as its result.\<close>

definition updates :: "store \<Rightarrow> nat \<Rightarrow> byte_array \<Rightarrow> store \<Rightarrow> bool" where
  "updates st k b st' \<longleftrightarrow> owns st' \<and> deref st' k = Some b \<and> dom (st_objects st') = insert k (dom (st_objects st)) \<and>
     (\<forall>j. j \<noteq> k \<longrightarrow> deref st' j = deref st j)"

lemma deref_pointer:
  assumes "owns st" and "st_objects st k = Some ob" and "o_dynamicData ob \<noteq> 0"
  shows "o_dynamicData ob \<in> dom (st_heap st)"
proof -
  have "pointer st k = o_dynamicData ob" using assms(2) by (simp add: pointer_def)
  with assms(1,3) show ?thesis unfolding heap_owned_def by metis
qed

lemma pointer_unique:
  assumes "owns st" and "st_objects st k = Some ob" and "st_objects st j = Some oc" and "j \<noteq> k"
    and "o_dynamicData oc \<noteq> 0"
  shows "o_dynamicData oc \<noteq> o_dynamicData ob"
  using assms unfolding heap_owned_def pointer_def by (metis option.simps(5))

lemma pointer_update:
  "pointer (st\<lparr>st_objects := (st_objects st)(k \<mapsto> ob), st_heap := h\<rparr>) = (pointer st)(k := o_dynamicData ob)"
  "pointer (st\<lparr>st_objects := (st_objects st)(k \<mapsto> ob)\<rparr>) = (pointer st)(k := o_dynamicData ob)"
  "pointer (st\<lparr>st_heap := h, st_objects := (st_objects st)(k \<mapsto> ob)\<rparr>) = (pointer st)(k := o_dynamicData ob)"
  "pointer (st\<lparr>st_heap := h\<rparr>) = pointer st"
  "pointer (st\<lparr>st_objects := (st_objects st)(k := None)\<rparr>) = (pointer st)(k := 0)"
  "pointer (st\<lparr>st_objects := (st_objects st)(k := None), st_heap := h\<rparr>) = (pointer st)(k := 0)"
  by (auto simp: pointer_def fun_eq_iff)

lemma pointer_same: "st_objects st k = Some ob \<Longrightarrow> o_dynamicData ob = p \<Longrightarrow> (pointer st)(k := p) = pointer st"
  by (auto simp: pointer_def fun_eq_iff)

text \<open>Other objects keep their value when their vector is not touched.\<close>

lemma deref_frame:
  assumes "st_objects st' j = st_objects st j"
    and "\<And>oc. st_objects st j = Some oc \<Longrightarrow> o_dynamicData oc \<noteq> 0 \<Longrightarrow>
      st_heap st' (o_dynamicData oc) = st_heap st (o_dynamicData oc)"
  shows "deref st' j = deref st j"
  using assms by (auto simp: deref_def obj_value_def split: option.splits)

lemma updates_heap:
  assumes "owns st" and "st_objects st k = Some ob" and "o_dynamicData ob \<noteq> 0"
  shows "updates st k \<lparr>m_dynamicData = Some v, m_staticData = o_staticData ob, m_length = o_length ob\<rparr>
    (st\<lparr>st_heap := (st_heap st)(o_dynamicData ob \<mapsto> v)\<rparr>)" (is "updates st k ?b ?st")
proof -
  have "deref ?st j = deref st j" if "j \<noteq> k" for j
    using pointer_unique[OF assms(1,2) _ that] by (intro deref_frame) auto
  moreover have "deref ?st k = Some ?b" using assms(2,3) by (simp add: deref_def obj_value_def)
  ultimately show ?thesis
    using heap_owned_write[OF assms(1) deref_pointer[OF assms], of v] assms(2)
    by (auto simp: updates_def pointer_update)
qed

lemma updates_static:
  assumes "owns st" and "st_objects st k = Some ob" and "o_dynamicData ob = 0" and "o_dynamicData ob' = 0"
  shows "updates st k \<lparr>m_dynamicData = None, m_staticData = o_staticData ob', m_length = o_length ob'\<rparr>
    (st\<lparr>st_objects := (st_objects st)(k \<mapsto> ob')\<rparr>)" (is "updates st k ?b ?st")
proof -
  have "deref ?st j = deref st j" if "j \<noteq> k" for j using that by (intro deref_frame) auto
  moreover have "deref ?st k = Some ?b" using assms(4) by (simp add: deref_def obj_value_def)
  ultimately show ?thesis
    using assms pointer_same[OF assms(2,3)] by (auto simp: updates_def pointer_update)
qed

lemma updates_move:
  assumes "owns st" and "st_objects st k = Some ob" and "o_dynamicData ob = 0"
    and "a \<noteq> 0" and "a \<notin> dom (st_heap st)"
  shows "updates st k \<lparr>m_dynamicData = Some v, m_staticData = o_staticData ob, m_length = l\<rparr>
    (st\<lparr>st_heap := (st_heap st)(a \<mapsto> v),
        st_objects := (st_objects st)(k \<mapsto> ob\<lparr>o_dynamicData := a, o_length := l\<rparr>)\<rparr>)"
    (is "updates st k ?b ?st")
proof -
  have "deref ?st j = deref st j" if "j \<noteq> k" for j
    using that deref_pointer[OF assms(1)] assms(5) by (intro deref_frame) auto
  moreover have "deref ?st k = Some ?b" using assms(4) by (simp add: deref_def obj_value_def)
  moreover have "pointer st k = 0" using assms(2,3) by (simp add: pointer_def)
  ultimately show ?thesis
    using heap_owned_move[OF assms(1) _ assms(4,5), of k v] assms(2)
    by (auto simp: updates_def pointer_update)
qed

lemma obj_resize_updates:
  assumes "owns st" and "deref st k = Some b" and "fresh_addresses new_address"
  shows "\<exists>st'. obj_resize new_address n k st = Some st' \<and> updates st k (ba_resize n b) st'"
proof -
  from assms(2) obtain ob where ob: "st_objects st k = Some ob" by (auto simp: deref_def split: option.splits)
  show ?thesis
  proof (cases "o_dynamicData ob = 0")
    case False
    then obtain v where "st_heap st (o_dynamicData ob) = Some v" using deref_pointer[OF assms(1) ob] by blast
    with False ob assms(2) updates_heap[OF assms(1) ob False, of "vec_resize n v"] show ?thesis
      by (auto simp: obj_resize_def deref_def obj_value_def ba_resize_def)
  next
    case True
    have "new_address (st_heap st) \<noteq> 0" "new_address (st_heap st) \<notin> dom (st_heap st)"
      using assms(1,3) unfolding fresh_addresses_def heap_owned_def by blast+
    note move = updates_move[OF assms(1) ob True this]
    have b: "b = \<lparr>m_dynamicData = None, m_staticData = o_staticData ob, m_length = o_length ob\<rparr>"
      using assms(2) ob True by (simp add: deref_def obj_value_def)
    show ?thesis
      using move updates_static[OF assms(1) ob True, of "ob\<lparr>o_length := n\<rparr>"] True ob
      by (auto simp: obj_resize_def ba_resize_def b Let_def)
  qed
qed

lemma obj_put_updates:
  assumes "owns st" and "deref st k = Some b"
  shows "\<exists>st'. obj_put i ys k st = Some st' \<and> updates st k (ba_put i ys b) st'"
proof -
  from assms(2) obtain ob where ob: "st_objects st k = Some ob" by (auto simp: deref_def split: option.splits)
  show ?thesis
  proof (cases "o_dynamicData ob = 0")
    case False
    then obtain v where "st_heap st (o_dynamicData ob) = Some v" using deref_pointer[OF assms(1) ob] by blast
    with False ob assms(2) updates_heap[OF assms(1) ob False, of "v\<lparr>v_mem := blit (v_mem v) i ys\<rparr>"] show ?thesis
      by (auto simp: obj_put_def deref_def obj_value_def ba_put_def)
  next
    case True
    with ob assms(2) updates_static[OF assms(1) ob True, of "ob\<lparr>o_staticData := blit (o_staticData ob) i ys\<rparr>"] show ?thesis
      by (auto simp: obj_put_def deref_def obj_value_def ba_put_def)
  qed
qed

lemma updates_trans: "updates st k b st1 \<Longrightarrow> updates st1 k b' st2 \<Longrightarrow> updates st k b' st2"
  by (auto simp: updates_def)

lemma obj_append_updates:
  assumes "owns st" and "deref st k = Some b" and "fresh_addresses new_address"
  shows "\<exists>st'. obj_append new_address raw k st = Some st' \<and> updates st k (ba_append raw b) st'"
proof -
  from obj_resize_updates[OF assms, of "ba_size b + length raw"] obtain st1 where
    st1: "obj_resize new_address (ba_size b + length raw) k st = Some st1"
    "updates st k (ba_resize (ba_size b + length raw) b) st1" by blast
  then have "owns st1" "deref st1 k = Some (ba_resize (ba_size b + length raw) b)" by (simp_all add: updates_def)
  from obj_put_updates[OF this, of "ba_size b" raw] st1 assms(2) show ?thesis
    by (auto simp: obj_append_def ba_append_def Let_def intro: updates_trans)
qed

lemma obj_new_updates:
  assumes "owns st" and "k \<notin> dom (st_objects st)"
  shows "\<exists>st'. obj_new junk k st = Some st' \<and> updates st k (ba_new junk) st'"
proof -
  let ?ob = "\<lparr>o_dynamicData = 0, o_staticData = junk, o_length = 0\<rparr>"
  have "(pointer st)(k := 0) = pointer st" using assms(2) by (simp add: pointer_def fun_eq_iff domIff)
  with assms show ?thesis
    by (auto simp: obj_new_def updates_def ba_new_def pointer_update deref_def[of _ k] obj_value_def intro!: deref_frame)
qed

lemma holds_update:
  assumes "holds st m" and "updates st k b st'" and "ba_inv b" and "ba_content b = xs"
  shows "holds st' (m(k \<mapsto> xs))"
  using assms by (auto simp: holds_def updates_def)

lemma holds_deref: "holds st m \<Longrightarrow> m k = Some xs \<Longrightarrow> \<exists>b. deref st k = Some b \<and> ba_inv b \<and> ba_content b = xs"
  by (simp add: holds_def)

lemma destroy_holds:
  assumes "holds st m" and "m k = Some xs"
  shows "\<exists>st'. obj_destroy k st = Some st' \<and> holds st' (m(k := None))"
proof -
  have owns: "owns st" using assms(1) by (simp add: holds_def)
  from holds_deref[OF assms] obtain ob where ob: "st_objects st k = Some ob"
    by (auto simp: deref_def split: option.splits)
  let ?a = "o_dynamicData ob"
  let ?st = "if ?a = 0 then st\<lparr>st_objects := (st_objects st)(k := None)\<rparr>
    else \<lparr>st_objects = (st_objects st)(k := None), st_heap = (st_heap st)(?a := None)\<rparr>"
  have run: "obj_destroy k st = Some ?st"
    using ob deref_pointer[OF owns ob] by (auto simp: obj_destroy_def)
  have p: "pointer st k = ?a" using ob by (simp add: pointer_def)
  have "owns ?st"
  proof (cases "?a = 0")
    case True
    then have "(st_heap st)(?a := None) = st_heap st" using owns unfolding heap_owned_def by (metis domIff fun_upd_triv)
    with True p heap_owned_drop[OF owns, of k] show ?thesis by (simp add: pointer_update)
  next
    case False
    have "?st = st\<lparr>st_objects := (st_objects st)(k := None), st_heap := (st_heap st)(?a := None)\<rparr>" using False by simp
    with p heap_owned_drop[OF owns, of k] show ?thesis by (simp only: pointer_update) simp
  qed
  moreover have "deref ?st j = deref st j" if "j \<noteq> k" for j
    using pointer_unique[OF owns ob _ that] that by (intro deref_frame) auto
  ultimately have "holds ?st (m(k := None))"
    using assms(1) by (auto simp: holds_def)
  with run show ?thesis by blast
qed

section \<open>Simulation\<close>

lemma holds_new:
  assumes "holds st m" and "m k = None" and "length junk = STATIC_SIZE"
  shows "\<exists>st'. obj_new junk k st = Some st' \<and> updates st k (ba_new junk) st'"
  using assms by (intro obj_new_updates) (auto simp: holds_def)

lemma holds_append:
  assumes "owns st" and "deref st k = Some b" and "ba_inv b" and "fresh_addresses new_address"
  shows "\<exists>st' b'. obj_append new_address raw k st = Some st' \<and> updates st k b' st' \<and> ba_inv b' \<and>
    ba_content b' = ba_content b @ raw"
  using obj_append_updates[OF assms(1,2,4), of raw] ba_append_inv[OF assms(3)] ba_append_content[OF assms(3)]
  by blast

lemma copy_holds:
  assumes "holds st m" and "m source = Some xs" and "m k = None" and "length junk = STATIC_SIZE"
    and "fresh_addresses new_address"
  shows "\<exists>st'. obj_copy new_address junk source k st = Some st' \<and> holds st' (m(k \<mapsto> xs))"
proof -
  from holds_deref[OF assms(1,2)] obtain b where b: "deref st source = Some b" "ba_content b = xs" by blast
  from holds_new[OF assms(1,3,4)] obtain st1 where
    st1: "obj_new junk k st = Some st1" "updates st k (ba_new junk) st1" by blast
  then have "owns st1" "deref st1 k = Some (ba_new junk)" by (simp_all add: updates_def)
  from holds_append[OF this ba_new_inv[OF assms(4)] assms(5), of xs] obtain st2 b' where
    st2: "obj_append new_address xs k st1 = Some st2" "updates st1 k b' st2" "ba_inv b'" "ba_content b' = xs"
    by (auto simp: buf_simps)
  have "obj_copy new_address junk source k st = Some st2"
    using b st1(1) st2(1) by (simp add: obj_copy_def ba_content_def)
  with holds_update[OF assms(1) updates_trans[OF st1(2) st2(2)] st2(3,4)] show ?thesis by blast
qed

lemma assign_holds:
  assumes "holds st m" and "m source = Some xs" and "m k = Some ys" and "fresh_addresses new_address"
  shows "\<exists>st'. obj_assign new_address source k st = Some st' \<and> holds st' (m(k \<mapsto> xs))"
proof -
  from holds_deref[OF assms(1,2)] obtain right where
    right: "deref st source = Some right" "ba_inv right" "ba_content right = xs" by blast
  from holds_deref[OF assms(1,3)] obtain b where b: "deref st k = Some b" "ba_inv b" by blast
  have owns: "owns st" using assms(1) by (simp add: holds_def)
  from obj_resize_updates[OF owns b(1) assms(4), of "ba_size right"] obtain st1 where
    st1: "obj_resize new_address (ba_size right) k st = Some st1"
    "updates st k (ba_resize (ba_size right) b) st1" by blast
  have "\<exists>right'. deref st1 source = Some right' \<and> take (ba_size right') (getData right') = xs"
  proof (cases "source = k")
    case True
    with right(1) b(1) have "b = right" by simp
    with True st1(2) right(2,3) show ?thesis
      by (simp add: updates_def ba_resize_size ba_resize_keep ba_content_def)
  next
    case False
    with st1(2) right show ?thesis by (simp add: updates_def ba_content_def)
  qed
  then obtain right' where r': "deref st1 source = Some right'" "take (ba_size right') (getData right') = xs" by blast
  have "owns st1" "deref st1 k = Some (ba_resize (ba_size right) b)" using st1(2) by (simp_all add: updates_def)
  from obj_put_updates[OF this, of 0 xs] obtain st2 where
    st2: "obj_put 0 xs k st1 = Some st2" "updates st1 k (ba_assign b right) st2"
    using right(3) by (auto simp: ba_assign_def ba_content_def)
  have "obj_assign new_address source k st = Some st2"
    using right(1) st1(1) r' st2(1) by (simp add: obj_assign_def)
  moreover have "holds st2 (m(k \<mapsto> xs))"
    using holds_update[OF assms(1) updates_trans[OF st1(2) st2(2)]] ba_assign_laws[OF b(2) right(2)] right(3) by simp
  ultimately show ?thesis by blast
qed

lemma append_holds:
  assumes "holds st m" and "m k = Some xs" and "fresh_addresses new_address"
  shows "\<exists>st'. obj_append new_address raw k st = Some st' \<and> holds st' (m(k \<mapsto> xs @ raw))"
proof -
  from holds_deref[OF assms(1,2)] obtain b where b: "deref st k = Some b" "ba_inv b" "ba_content b = xs" by blast
  have "owns st" using assms(1) by (simp add: holds_def)
  from holds_append[OF this b(1,2) assms(3), of raw] b(3) show ?thesis
    using holds_update[OF assms(1)] by fast
qed

lemma shrink_holds:
  assumes "holds st m" and "m k = Some xs" and "n \<le> length xs" and "fresh_addresses new_address"
  shows "\<exists>st'. obj_resize new_address n k st = Some st' \<and> holds st' (m(k \<mapsto> take n xs))"
proof -
  from holds_deref[OF assms(1,2)] obtain b where b: "deref st k = Some b" "ba_inv b" "ba_content b = xs" by blast
  have n: "n \<le> ba_size b" using b(2,3) assms(3) by (metis length_ba_content)
  then have "ba_content (ba_resize n b) = take n xs"
    using b(2) by (simp add: ba_content_def ba_resize_size ba_resize_keep min_def flip: b(3))
  moreover have "owns st" using assms(1) by (simp add: holds_def)
  ultimately show ?thesis
    using obj_resize_updates[OF _ b(1) assms(4), of n] holds_update[OF assms(1)] ba_resize_inv[OF b(2)] by fast
qed

lemma array_step_holds:
  assumes "holds st m" and "list_step x m = Some m'" and "fresh_addresses new_address"
  shows "\<exists>st'. array_step new_address x st = Some st' \<and> holds st' m'"
proof (cases x)
  case (ANew k junk)
  then show ?thesis
    using assms(1,2) holds_new[of st m k junk] holds_update[OF assms(1), of k "ba_new junk"]
    by (auto simp: buf_simps split: if_splits)
next
  case (ACopy source k junk)
  then show ?thesis using assms copy_holds[OF assms(1)] by (auto split: bind_splits if_splits)
next
  case (AAssign source k)
  then show ?thesis using assms assign_holds[OF assms(1)] by (auto split: bind_splits)
next
  case (AAppend k raw)
  then show ?thesis using assms append_holds[OF assms(1)] by (auto split: bind_splits)
next
  case (AShrink k n)
  then show ?thesis using assms shrink_holds[OF assms(1)] by (auto split: bind_splits if_splits)
next
  case (ADestroy k)
  then show ?thesis using assms destroy_holds[OF assms(1)] by (auto split: bind_splits)
qed

lemma array_run_holds:
  assumes "fresh_addresses new_address"
  shows "holds st m \<Longrightarrow> list_run xs m = Some m' \<Longrightarrow>
    \<exists>st'. array_run new_address xs st = Some st' \<and> holds st' m'"
proof (induction xs arbitrary: st m)
  case (Cons x xs)
  then show ?case using array_step_holds[OF Cons.prems(1) _ assms, of x] by (fastforce split: bind_splits)
qed simp

lemma store_empty_holds: "holds store_empty Map.empty"
  by (auto simp: holds_def store_empty_def heap_owned_def pointer_def)

lemma holds_value: "holds st m \<Longrightarrow> map_option ba_content (deref st k) = m k"
  by (cases "m k") (fastforce simp: holds_def deref_def split: option.splits)+

lemma deref_static: "deref st k = Some b \<Longrightarrow> pointer st k = 0 \<Longrightarrow> usesStaticBuffer b"
  by (auto simp: deref_def obj_value_def pointer_def usesStaticBuffer_def split: option.splits)

lemma heap_owned_unique: "heap_owned p h \<Longrightarrow> a \<in> dom h \<longleftrightarrow> a \<noteq> 0 \<and> (\<exists>!k. p k = a)"
  unfolding heap_owned_def by metis

section \<open>Properties\<close>

text \<open>
  C32. Whatever a program does with \<open>ByteArray\<close> objects - construct, copy, assign (also to itself), append,
  shrink, destroy, in any order, as long as it uses an object only while it lives - the class never
  deletes a vector twice and never follows a dangling pointer: the run is defined, every object
  holds the bytes that a value semantics gives it, also across the move from the 512 byte buffer to the heap;
  every vector on the heap has exactly one owner, an object of more than 512 bytes owns one, and
  when all objects are destroyed nothing is left. \<open>new\<close> returns an address not in use.
\<close>

theorem byte_arrays_own_storage:
  assumes "fresh_addresses new_address" and "list_run ops Map.empty = Some m"
  shows "\<exists>st. array_run new_address ops store_empty = Some st \<and>
    (\<forall>k. map_option ba_content (deref st k) = m k) \<and>
    (\<forall>a. a \<in> dom (st_heap st) \<longleftrightarrow> a \<noteq> 0 \<and> (\<exists>!k. pointer st k = a)) \<and>
    (\<forall>k xs. m k = Some xs \<and> 512 < length xs \<longrightarrow> pointer st k \<noteq> 0) \<and>
    (m = Map.empty \<longrightarrow> st_heap st = Map.empty)"
proof -
  from array_run_holds[OF assms(1) store_empty_holds assms(2)] obtain st where
    st: "array_run new_address ops store_empty = Some st" and h: "holds st m" by blast
  have owns: "owns st" and objs: "dom (st_objects st) = dom m" using h by (auto simp: holds_def)
  have "pointer st k \<noteq> 0" if m: "m k = Some xs" "512 < length xs" for k xs
  proof
    assume z: "pointer st k = 0"
    from holds_deref[OF h m(1)] obtain b where b: "deref st k = Some b" "ba_inv b" "ba_content b = xs" by blast
    then show False
      using static_iff[OF b(2) deref_static[OF b(1) z]] length_ba_content[OF b(2)] m(2) by (simp add: STATIC_SIZE_def)
  qed
  moreover have "st_heap st = Map.empty" if "m = Map.empty"
  proof -
    have "st_objects st = Map.empty" using objs that by simp
    then have "pointer st k = 0" for k by (simp add: pointer_def)
    then have "a \<notin> dom (st_heap st)" for a using heap_owned_unique[OF owns] by metis
    then show ?thesis by blast
  qed
  ultimately show ?thesis using st holds_value[OF h] heap_owned_unique[OF owns] by blast
qed

definition bump_address :: "(nat \<rightharpoonup> vec) \<Rightarrow> nat" where
  "bump_address h = Suc (Max (insert 0 (dom h)))"

lemma bump_address_fresh: "fresh_addresses bump_address"
  unfolding fresh_addresses_def bump_address_def
  by (metis Max_ge Suc_n_not_le_n finite.insertI insertCI nat.distinct(1))

theorem byte_arrays_own_storage_witness:
  "\<exists>st. array_run bump_address
      [ANew 1 (replicate 512 NUL), AAppend 1 (replicate 600 CHR ''a''), ACopy 1 2 (replicate 512 NUL),
       ADestroy 1, AAssign 2 2, AShrink 2 599, ADestroy 2] store_empty = Some st \<and> st_heap st = Map.empty"
proof -
  have "list_run [ANew 1 (replicate 512 NUL), AAppend 1 (replicate 600 CHR ''a''), ACopy 1 2 (replicate 512 NUL),
      ADestroy 1, AAssign 2 2, AShrink 2 599, ADestroy 2] Map.empty = Some Map.empty"
    by (simp add: STATIC_SIZE_def)
  from byte_arrays_own_storage[OF bump_address_fresh this] show ?thesis by blast
qed

end
