(* ===== verification/Backtrace.thy ===== *)
theory Backtrace
  imports Prelude
begin

text \<open>
  \<open>getStackTrace\<close> of \<open>src/backtrace.cpp\<close>: the text of the calling thread's stack. Positions in a
  symbol line are pointers into it, \<open>None\<close> the null pointer; the three separators of a recognised
  line are overwritten by NUL, as in the source. What the C library and the C++ ABI provide are
  arguments: \<open>backtrace\<close> (at most \<open>n\<close> return addresses), \<open>backtrace_symbols\<close> (a line per address,
  \<open>None\<close> when memory is exhausted) and \<open>demangle\<close> (\<open>None\<close> when \<open>__cxa_demangle\<close> reports an error).
\<close>

section \<open>Reading a symbol line\<close>

record separators =
  begin_name :: "nat option"
  begin_offset :: "nat option"
  end_offset :: "nat option"

definition no_separators :: separators where
  "no_separators = \<lparr>begin_name = None, begin_offset = None, end_offset = None\<rparr>"

text \<open>The loop over the characters of the line, \<open>p\<close> the position of the next one.\<close>

fun find_separators :: "nat \<Rightarrow> string \<Rightarrow> separators \<Rightarrow> separators" where
  "find_separators p [] s = s"
| "find_separators p (c # cs) s =
     (if c = CHR ''('' then find_separators (Suc p) cs (s\<lparr>begin_name := Some p\<rparr>)
      else if c = CHR ''+'' then find_separators (Suc p) cs (s\<lparr>begin_offset := Some p\<rparr>)
      else if c = CHR '')'' \<and> begin_offset s \<noteq> None then s\<lparr>end_offset := Some p\<rparr>
      else find_separators (Suc p) cs s)"

definition complete :: "separators \<Rightarrow> (nat \<times> nat \<times> nat) option" where
  "complete s = (case (begin_name s, begin_offset s, end_offset s) of
     (Some n, Some b, Some e) \<Rightarrow> if n < b then Some (n, b, e) else None
   | _ \<Rightarrow> None)"

section \<open>The trace\<close>

definition trace_line :: "(string \<Rightarrow> string option) \<Rightarrow> string \<Rightarrow> string" where
  "trace_line demangle line = (
     case complete (find_separators 0 line no_separators) of
       Some (n, b, e) \<Rightarrow>
         (let m = (line @ [NUL])[n := NUL, b := NUL, e := NUL];
              name = cstr (drop (n + 1) m);
              offset = cstr (drop (b + 1) m)
          in case demangle name of
               Some funcname \<Rightarrow> ''  '' @ cstr m @ '' : '' @ funcname @ ''+'' @ offset @ [LF]
             | None \<Rightarrow> ''  '' @ cstr m @ '' : '' @ name @ ''()+'' @ offset @ [LF])
     | None \<Rightarrow> ''  '' @ line @ [LF])"

text \<open>The first frame, \<open>getStackTrace\<close> itself, is skipped.\<close>

fun trace_loop :: "(string \<Rightarrow> string option) \<Rightarrow> string list option \<Rightarrow> nat \<Rightarrow> nat \<Rightarrow> string option" where
  "trace_loop demangle symbollist i 0 = Some []"
| "trace_loop demangle None i (Suc n) = None"
| "trace_loop demangle (Some lines) i (Suc n) =
     (if i < length lines
      then map_option (\<lambda>rest. trace_line demangle (lines ! i) @ rest)
             (trace_loop demangle (Some lines) (Suc i) n)
      else None)"

definition addrlist_size :: nat where "addrlist_size = 63"

definition getStackTrace :: "(nat \<Rightarrow> 'a list) \<Rightarrow> ('a list \<Rightarrow> string list option) \<Rightarrow>
    (string \<Rightarrow> string option) \<Rightarrow> nat \<Rightarrow> string option" where
  "getStackTrace backtrace backtrace_symbols demangle max_frames = (
     let addrs = backtrace (min max_frames addrlist_size);
         addrlen = length addrs
     in if addrlen = 0 then Some ([LF] @ ''<empty, possibly corrupt>'')
        else map_option (\<lambda>t. [LF] @ t)
               (trace_loop demangle (backtrace_symbols addrs) 1 (addrlen - 1)))"

section \<open>The separators that are found\<close>

text \<open>What the loop keeps true, given the whole line and the part already read.\<close>

definition sep_inv :: "string \<Rightarrow> nat \<Rightarrow> separators \<Rightarrow> bool" where
  "sep_inv line p s \<longleftrightarrow>
     (\<forall>n. begin_name s = Some n \<longrightarrow> n < p \<and> n < length line \<and> line ! n = CHR ''('') \<and>
     (\<forall>b. begin_offset s = Some b \<longrightarrow> b < p \<and> b < length line \<and> line ! b = CHR ''+'')"

lemma find_separators_inv:
  assumes "sep_inv line p s" and "end_offset s = None" and "p \<le> length line"
  shows "let s' = find_separators p (drop p line) s in sep_inv line (length line) s' \<and>
    (\<forall>e. end_offset s' = Some e \<longrightarrow> e < length line \<and> line ! e = CHR '')'' \<and>
       (\<exists>b. begin_offset s' = Some b \<and> b < e) \<and> (\<forall>n. begin_name s' = Some n \<longrightarrow> n < e))"
  using assms
proof (induction "length line - p" arbitrary: p s)
  case 0
  then show ?case by simp
next
  case (Suc k)
  then have p: "p < length line" by simp
  then have d: "drop p line = line ! p # drop (Suc p) line" by (simp add: Cons_nth_drop_Suc)
  have step: "let s' = find_separators (Suc p) (drop (Suc p) line) t in sep_inv line (length line) s' \<and>
    (\<forall>e. end_offset s' = Some e \<longrightarrow> e < length line \<and> line ! e = CHR '')'' \<and>
       (\<exists>b. begin_offset s' = Some b \<and> b < e) \<and> (\<forall>n. begin_name s' = Some n \<longrightarrow> n < e))"
    if "sep_inv line (Suc p) t" "end_offset t = None" for t
    using Suc.hyps(1)[of "Suc p" t] Suc.hyps(2) that p by simp
  have mono: "sep_inv line (Suc p) s" "sep_inv line (length line) s"
    using Suc.prems(1) p by (fastforce simp: sep_inv_def)+
  consider "line ! p = CHR ''(''" | "line ! p = CHR ''+''"
    | "line ! p = CHR '')''" "begin_offset s \<noteq> None"
    | "line ! p \<noteq> CHR ''(''" "line ! p \<noteq> CHR ''+''" "\<not> (line ! p = CHR '')'' \<and> begin_offset s \<noteq> None)"
    by blast
  then show ?case
  proof cases
    case 1
    have "sep_inv line (Suc p) (s\<lparr>begin_name := Some p\<rparr>)"
      using mono(1) 1 p by (simp add: sep_inv_def)
    from step[OF this] 1 Suc.prems(2) show ?thesis by (simp add: d)
  next
    case 2
    have "sep_inv line (Suc p) (s\<lparr>begin_offset := Some p\<rparr>)"
      using mono(1) 2 p by (simp add: sep_inv_def)
    from step[OF this] 2 Suc.prems(2) show ?thesis by (simp add: d)
  next
    case 3
    with Suc.prems(1) mono(2) p show ?thesis by (auto simp: d sep_inv_def)
  next
    case 4
    with step[OF mono(1)] Suc.prems(2) show ?thesis by (simp add: d)
  qed
qed

lemma no_separators_inv [simp]: "sep_inv line 0 no_separators" "end_offset no_separators = None"
  by (simp_all add: sep_inv_def no_separators_def)

lemma find_append:
  assumes "CHR '')'' \<notin> set xs \<or> CHR ''+'' \<notin> set xs \<and> begin_offset s = None"
  shows "find_separators p (xs @ ys) s =
    find_separators (p + length xs) ys (find_separators p xs s)"
  using assms by (induction xs arbitrary: p s) auto

lemma find_other:
  "CHR ''('' \<notin> set xs \<Longrightarrow> CHR ''+'' \<notin> set xs \<Longrightarrow> CHR '')'' \<notin> set xs \<Longrightarrow> find_separators p xs s = s"
  by (induction xs arbitrary: p s) auto

lemma find_no_end: "CHR '')'' \<notin> set xs \<Longrightarrow> end_offset (find_separators p xs s) = end_offset s"
  by (induction xs arbitrary: p s) auto

lemma complete_bounds:
  assumes "complete (find_separators 0 line no_separators) = Some (n, b, e)"
  shows "n < b" "b < e" "e < length line" "line ! n = CHR ''(''" "line ! b = CHR ''+''" "line ! e = CHR '')''"
proof -
  let ?s = "find_separators 0 line no_separators"
  from assms have s: "begin_name ?s = Some n" "begin_offset ?s = Some b" "end_offset ?s = Some e" "n < b"
    by (auto simp: complete_def split: option.splits if_splits)
  with find_separators_inv[of line 0 no_separators]
  show "n < b" "b < e" "e < length line" "line ! n = CHR ''(''" "line ! b = CHR ''+''" "line ! e = CHR '')''"
    by (auto simp: Let_def sep_inv_def no_separators_def)
qed

text \<open>Three characters cut a line into four parts.\<close>

lemma split_at_three:
  assumes "n < b" and "b < e" and "e < length xs"
  obtains ps qs rs ts where "xs = ps @ xs ! n # qs @ xs ! b # rs @ xs ! e # ts"
    "length ps = n" "b = Suc n + length qs" "e = Suc b + length rs"
proof -
  let ?ys = "drop (Suc n) xs" and ?zs = "drop (Suc b) xs"
  have x: "xs = take n xs @ xs ! n # ?ys"
    using assms by (intro id_take_nth_drop) simp
  have "?ys = take (b - Suc n) ?ys @ ?ys ! (b - Suc n) # drop (Suc (b - Suc n)) ?ys"
    using assms by (intro id_take_nth_drop) simp
  with assms have y: "?ys = take (b - Suc n) ?ys @ xs ! b # ?zs" by simp
  have "?zs = take (e - Suc b) ?zs @ ?zs ! (e - Suc b) # drop (Suc (e - Suc b)) ?zs"
    using assms by (intro id_take_nth_drop) simp
  with assms have z: "?zs = take (e - Suc b) ?zs @ xs ! e # drop (Suc e) xs" by simp
  have "xs = take n xs @ xs ! n # take (b - Suc n) ?ys @ xs ! b # take (e - Suc b) ?zs @ xs ! e # drop (Suc e) xs"
    using x y z by metis
  then show thesis by (rule that) (use assms in simp_all)
qed

lemma cut_line:
  "(p @ c1 # q @ c2 # r @ c3 # t @ [NUL])
     [length p := NUL, Suc (length p + length q) := NUL, Suc (Suc (length p + length q + length r)) := NUL]
   = p @ NUL # q @ NUL # r @ NUL # t @ [NUL]"
proof -
  have 1: "(p @ c1 # xs)[length p := NUL] = p @ NUL # xs" for xs by simp
  have 2: "(p @ NUL # q @ c2 # xs)[Suc (length p + length q) := NUL] = p @ NUL # q @ NUL # xs" for xs
    using list_update_length[of "p @ NUL # q" c2 xs NUL] by simp
  have 3: "(p @ NUL # q @ NUL # r @ c3 # xs)[Suc (Suc (length p + length q + length r)) := NUL] =
      p @ NUL # q @ NUL # r @ NUL # xs" for xs
    using list_update_length[of "p @ NUL # q @ NUL # r" c3 xs NUL] by (simp add: add.assoc)
  show ?thesis unfolding 1 2 3 ..
qed

definition recognised_text :: "(string \<Rightarrow> string option) \<Rightarrow> string \<Rightarrow> string \<Rightarrow> string \<Rightarrow> string" where
  "recognised_text demangle module name offset = ''  '' @ module @ '' : '' @
     (case demangle name of Some f \<Rightarrow> f | None \<Rightarrow> name @ ''()'') @ ''+'' @ offset @ [LF]"

lemma trace_line_recognised:
  assumes "complete (find_separators 0 line no_separators) = Some (length p, Suc (length p + length q),
      Suc (Suc (length p + length q + length r)))"
    and "line = p @ c1 # q @ c2 # r @ c3 # t" and "nul_free line"
  shows "trace_line demangle line = recognised_text demangle p q r"
proof -
  have free: "nul_free p" "nul_free q" "nul_free r" using assms(2,3) by simp_all
  have cut: "(line @ [NUL])[length p := NUL, Suc (length p + length q) := NUL,
      Suc (Suc (length p + length q + length r)) := NUL] = p @ NUL # q @ NUL # r @ NUL # t @ [NUL]"
    using cut_line[of p c1 q c2 r c3 t] by (simp only: assms(2) append_assoc append_Cons)
  show ?thesis
    unfolding trace_line_def assms(1) option.case prod.case Let_def cut recognised_text_def
    using free by (simp split: option.split)
qed

lemma trace_line_unrecognised:
  "complete (find_separators 0 line no_separators) = None \<Longrightarrow> trace_line demangle line = ''  '' @ line @ [LF]"
  by (simp add: trace_line_def)

section \<open>Traces\<close>

lemma trace_loop_ok:
  "i + n \<le> length lines \<Longrightarrow>
     trace_loop demangle (Some lines) i n = Some (concat (map (trace_line demangle) (take n (drop i lines))))"
proof (induction n arbitrary: i)
  case (Suc n)
  then have "take (Suc n) (drop i lines) = lines ! i # take n (drop (Suc i) lines)"
    by (simp add: Cons_nth_drop_Suc[symmetric])
  with Suc show ?case by simp
qed simp

section \<open>Properties\<close>

text \<open>
  Whatever the C library puts into a symbol line, reading it is memory safe and loses nothing of
  importance: either it is cut at three characters inside the line, in the order parenthesis, plus,
  parenthesis, and module, function (demangled if possible) and offset are printed, or the line is
  printed whole.
\<close>

lemma trace_line_safe:
  assumes "nul_free line"
  shows "(\<exists>module name offset rest. line = module @ ''('' @ name @ ''+'' @ offset @ '')'' @ rest \<and>
      trace_line demangle line = recognised_text demangle module name offset) \<or>
    complete (find_separators 0 line no_separators) = None \<and>
      trace_line demangle line = ''  '' @ line @ [LF]"
proof (cases "complete (find_separators 0 line no_separators)")
  case None
  then show ?thesis by (simp add: trace_line_unrecognised)
next
  case (Some nbe)
  obtain n b e where nbe: "nbe = (n, b, e)" by (cases nbe) auto
  note c = complete_bounds[OF Some[unfolded nbe]]
  from c(1-3) obtain p q r t where l: "line = p @ line ! n # q @ line ! b # r @ line ! e # t"
    "length p = n" "b = Suc n + length q" "e = Suc b + length r" by (rule split_at_three)
  have "complete (find_separators 0 line no_separators) = Some (length p, Suc (length p + length q),
      Suc (Suc (length p + length q + length r)))"
    using Some nbe l(2-4) by (simp add: add.assoc)
  from trace_line_recognised[OF this l(1) assms] have "trace_line demangle line = recognised_text demangle p q r" .
  moreover have "line = p @ ''('' @ q @ ''+'' @ r @ '')'' @ t" using l(1) c(4-6) by simp
  ultimately show ?thesis by blast
qed

lemma trace_line_safe_witness:
  "trace_line (\<lambda>_. None) ''(+)'' = recognised_text (\<lambda>_. None) [] [] [] \<or>
   trace_line (\<lambda>_. None) ''(+)'' = ''  (+)'' @ [LF]"
  using trace_line_safe[of "''(+)''" "\<lambda>_. None"]
  by (auto simp: Cons_eq_append_conv append_eq_Cons_conv)

text \<open>
  A line of the documented form \<open>module(function+offset)\<close> is recognised, whatever follows and
  also when the module's name contains plus signs or opening parentheses (\<open>libstdc++.so\<close>).
\<close>

lemma trace_line_documented_form:
  assumes "nul_free (module @ name @ offset @ rest)" and "CHR '')'' \<notin> set module"
    and "CHR ''('' \<notin> set (name @ offset)" and "CHR ''+'' \<notin> set (name @ offset)"
    and "CHR '')'' \<notin> set (name @ offset)"
  shows "trace_line demangle (module @ ''('' @ name @ ''+'' @ offset @ '')'' @ rest) =
    ''  '' @ module @ '' : '' @ (case demangle name of Some f \<Rightarrow> f | None \<Rightarrow> name @ ''()'') @
    ''+'' @ offset @ [LF]"
proof -
  let ?line = "module @ ''('' @ name @ ''+'' @ offset @ '')'' @ rest"
  let ?s1 = "find_separators 0 module no_separators"
  have s1: "end_offset ?s1 = None" using find_no_end[OF assms(2)] by simp
  have "find_separators 0 ?line no_separators = ?s1\<lparr>begin_name := Some (length module),
      begin_offset := Some (Suc (length module + length name)),
      end_offset := Some (Suc (Suc (length module + length name + length offset)))\<rparr>"
    using assms by (simp add: find_append find_other)
  then have "complete (find_separators 0 ?line no_separators) = Some (length module,
      Suc (length module + length name), Suc (Suc (length module + length name + length offset)))"
    by (simp add: complete_def)
  from trace_line_recognised[OF this] assms(1) show ?thesis by (simp add: recognised_text_def)
qed

lemma trace_line_documented_form_witness:
  "trace_line (\<lambda>n. if n = ''_Zf'' then Some ''f()'' else None) ''libstdc++.so(_Zf+0x1f) [0x7f]'' =
     ''  libstdc++.so : f()+0x1f'' @ [LF]"
  using trace_line_documented_form[of "''libstdc++.so''" "''_Zf''" "''0x1f''" "'' [0x7f]''"
      "\<lambda>n. if n = ''_Zf'' then Some ''f()'' else None"] by simp

text \<open>
  C34. A trace always comes back and has its frames in order: with a C library that returns at most
  as many addresses as asked for and a line for each, the text is an empty line followed by one line
  per frame but the first, at most 62 of them, or the note that there is no stack.
\<close>

theorem stack_trace_total:
  assumes "\<forall>n. length (backtrace n) \<le> n"
    and "\<forall>addrs. \<exists>lines. symbols addrs = Some lines \<and> length lines = length addrs"
  shows "\<exists>frames. length frames \<le> min max_frames 63 \<and> symbols (backtrace (min max_frames 63)) = Some frames \<and>
    getStackTrace backtrace symbols demangle max_frames =
      Some ([LF] @ (if frames = [] then ''<empty, possibly corrupt>''
                    else concat (map (trace_line demangle) (tl frames))))"
proof -
  let ?addrs = "backtrace (min max_frames 63)"
  from assms(2) obtain frames where f: "symbols ?addrs = Some frames" "length frames = length ?addrs" by blast
  have "trace_loop demangle (Some frames) 1 (length ?addrs - 1) = Some (concat (map (trace_line demangle) (tl frames)))"
    if "frames \<noteq> []"
    using trace_loop_ok[of 1 "length frames - 1" frames demangle] that
    by (cases frames) (simp_all add: f(2)[symmetric])
  with f assms(1) have "getStackTrace backtrace symbols demangle max_frames =
      Some ([LF] @ (if frames = [] then ''<empty, possibly corrupt>''
                    else concat (map (trace_line demangle) (tl frames))))"
    by (auto simp: getStackTrace_def addrlist_size_def Let_def)
  moreover have "length frames \<le> min max_frames 63" using f(2) assms(1)[THEN spec, of "min max_frames 63"] by simp
  ultimately show ?thesis using f(1) by blast
qed

theorem stack_trace_total_witness:
  "getStackTrace (\<lambda>n. replicate (min n 2) ()) (\<lambda>as. Some (replicate (length as) ''main'')) (\<lambda>_. None) 100 =
     Some ([LF] @ ''  main'' @ [LF])"
proof -
  have "trace_line (\<lambda>_. None) ''main'' = ''  main'' @ [LF]"
    by (simp add: trace_line_def complete_def no_separators_def)
  then show ?thesis
    using stack_trace_total[of "\<lambda>n. replicate (min n 2) ()" "\<lambda>as. Some (replicate (length as) ''main'')"
      100 "\<lambda>_. None"] by (auto simp: numeral_2_eq_2)
qed

end
