(* ===== verification/Dlt_Lib.thy ===== *)
theory Dlt_Lib
  imports Dlt_Data
begin

text \<open>
  The back end that logs through the DLT client library, \<open>include/ivi-logging-dlt.h\<close>. The library
  (\<open>dlt_user.h\<close>) is not part of the repository: \<open>lib_call\<close> lists the calls the back end makes with
  their arguments, the parameter \<open>lib\<close> gives the library's answer and its next state, and
  \<open>level_ptr\<close> reads the level a registered context's \<open>log_level_ptr\<close> points to. \<open>lib_calls\<close> is the
  record of all calls made. Contexts and entries are named by their addresses.
\<close>

section \<open>Calls\<close>

datatype lib_value =
    LibBool bool
  | LibUtf8 "mem option"
  | LibString string
  | LibFloat32 "32 word"
  | LibFloat64 "64 word"
  | LibUInt8 "8 word"
  | LibUInt16 "16 word"
  | LibUInt32 "32 word"
  | LibUInt64 "64 word"
  | LibUInt8Hex "8 word"
  | LibUInt16Hex "16 word"
  | LibUInt32Hex "32 word"
  | LibUInt64Hex "64 word"
  | LibInt8 "8 word"
  | LibInt16 "16 word"
  | LibInt32 "32 word"
  | LibInt64 "64 word"

datatype lib_call =
    RegisterLibApp string string
  | RegisterLibContext nat string string
  | UnregisterLibContext nat
  | WriteStart nat nat int
  | WriteValue nat lib_value
  | WriteFinish nat

record 's lib_world =
  lib_state :: 's
  lib_calls :: "lib_call list"
  m_appRegistered :: bool

definition invoke :: "(lib_call \<Rightarrow> 's \<Rightarrow> int \<times> 's) \<Rightarrow> lib_call \<Rightarrow> 's lib_world \<Rightarrow> int \<times> 's lib_world" where
  "invoke lib c w = (let (r, s) = lib c (lib_state w)
     in (r, w\<lparr>lib_state := s, lib_calls := lib_calls w @ [c]\<rparr>))"

section \<open>Contexts\<close>

record lib_ctx =
  lx_address :: nat
  lx_context :: LogContextCommon

text \<open>The class has its own table of levels, case by case that of \<open>DltCppContextClass\<close>.\<close>

fun lib_getDLTLogLevel :: "dlt_api \<Rightarrow> LogLevel \<Rightarrow> int" where
  "lib_getDLTLogLevel api LvDebug = DLT_LOG_DEBUG api"
| "lib_getDLTLogLevel api LvInfo = DLT_LOG_INFO api"
| "lib_getDLTLogLevel api LvWarning = DLT_LOG_WARN api"
| "lib_getDLTLogLevel api LvFatal = DLT_LOG_FATAL api"
| "lib_getDLTLogLevel api LvError = DLT_LOG_ERROR api"
| "lib_getDLTLogLevel api LvVerbose = DLT_LOG_VERBOSE api"
| "lib_getDLTLogLevel api LvNone = DLT_LOG_OFF api"
| "lib_getDLTLogLevel api _ = DLT_LOG_DEFAULT api"

lemma lib_getDLTLogLevel_eq [simp]: "lib_getDLTLogLevel api level = getDLTLogLevel api level"
  by (cases level) simp_all

text \<open>
  \<open>isEnabled\<close>: with version 2.9 of the library a message is started on a temporary object
  (address 0), and any answer but 0 counts as enabled; before, the level is read directly.
\<close>

definition lib_isEnabled :: "bool \<Rightarrow> dlt_api \<Rightarrow> (lib_call \<Rightarrow> 's \<Rightarrow> int \<times> 's) \<Rightarrow> ('s \<Rightarrow> nat \<Rightarrow> int option) \<Rightarrow>
    lib_ctx \<Rightarrow> LogLevel \<Rightarrow> 's lib_world \<Rightarrow> bool \<times> 's lib_world" where
  "lib_isEnabled dlt_2_9 api lib level_ptr c logLevel w =
     (if dlt_2_9 then
        (let (r, w) = invoke lib (WriteStart (lx_address c) 0 (lib_getDLTLogLevel api logLevel)) w in (r \<noteq> 0, w))
      else
        (let dltLogLevel = lib_getDLTLogLevel api logLevel
         in (case level_ptr (lib_state w) (lx_address c) of
               Some l \<Rightarrow> dltLogLevel \<le> l \<and> dltLogLevel \<noteq> 0
             | None \<Rightarrow> False, w)))"

definition registerDLTApp :: "(lib_call \<Rightarrow> 's \<Rightarrow> int \<times> 's) \<Rightarrow> int \<Rightarrow> string \<Rightarrow> string \<Rightarrow>
    's lib_world \<Rightarrow> 's lib_world option" where
  "registerDLTApp lib pid ident description w = do {
     t \<leftarrow> c_format ''%s / PID:%i'' [AStr description, AInt pid];
     descriptionWithPID \<leftarrow> c_string (snprintf_mem 1024 t);
     let (dltCode, w) = invoke lib (RegisterLibApp (cstr ident) descriptionWithPID) w;
     w \<leftarrow> (if dltCode \<noteq> 0 then do {
            t \<leftarrow> c_format ''%X'' [AInt pid];
            pidAsHexString \<leftarrow> c_string (snprintf_mem 5 t);
            Some (snd (invoke lib (RegisterLibApp pidAsHexString descriptionWithPID) w)) }
          else Some w);
     Some (w\<lparr>m_appRegistered := True\<rparr>) }"

definition lib_registerContext :: "(lib_call \<Rightarrow> 's \<Rightarrow> int \<times> 's) \<Rightarrow> platform \<Rightarrow> lib_ctx \<Rightarrow>
    process \<times> 's lib_world \<Rightarrow> (process \<times> 's lib_world) option" where
  "lib_registerContext lib os c pw = do {
     let p = registerContextBase os (fst pw);
     w \<leftarrow> (if \<not> m_appRegistered (snd pw) then do {
            app \<leftarrow> s_pAppLogContext p;
            w \<leftarrow> registerDLTApp lib (getpid os) (app_id app) (app_description app) (snd pw);
            Some (w\<lparr>m_appRegistered := True\<rparr>) }
          else Some (snd pw));
     Some (p, snd (invoke lib (RegisterLibContext (lx_address c) (cstr (ctx_id (lx_context c)))
                                (cstr (ctx_description (lx_context c)))) w)) }"

definition lib_context_dtor :: "(lib_call \<Rightarrow> 's \<Rightarrow> int \<times> 's) \<Rightarrow> lib_ctx \<Rightarrow> 's lib_world \<Rightarrow> 's lib_world" where
  "lib_context_dtor lib c w = snd (invoke lib (UnregisterLibContext (lx_address c)) w)"

section \<open>Entries\<close>

record lib_data =
  ld_address :: nat
  ld_enabled :: bool

definition lib_data_new :: "nat \<Rightarrow> lib_data" where
  "lib_data_new a = \<lparr>ld_address = a, ld_enabled = False\<rparr>"

definition lib_init :: "dlt_api \<Rightarrow> (lib_call \<Rightarrow> 's \<Rightarrow> int \<times> 's) \<Rightarrow> lib_ctx \<Rightarrow> LogInfo \<Rightarrow>
    lib_data \<Rightarrow> 's lib_world \<Rightarrow> lib_data \<times> 's lib_world" where
  "lib_init api lib c li d w =
     (let dltLogLevel = lib_getDLTLogLevel api (m_level li);
          (r, w) = invoke lib (WriteStart (lx_address c) (ld_address d) dltLogLevel) w
      in (d\<lparr>ld_enabled := r > 0\<rparr>, w))"

definition lib_put :: "(lib_call \<Rightarrow> 's \<Rightarrow> int \<times> 's) \<Rightarrow> lib_data \<Rightarrow> lib_value \<Rightarrow> 's lib_world \<Rightarrow> 's lib_world" where
  "lib_put lib d v w = snd (invoke lib (WriteValue (ld_address d) v) w)"

definition lib_writeFormatted :: "(lib_call \<Rightarrow> 's \<Rightarrow> int \<times> 's) \<Rightarrow> string \<Rightarrow> c_arg list \<Rightarrow> lib_data \<Rightarrow>
    's lib_world \<Rightarrow> 's lib_world option" where
  "lib_writeFormatted lib format args d w =
     (if ld_enabled d then do {
        t \<leftarrow> c_format format args;
        Some (lib_put lib d (LibUtf8 (Some (snprintf_mem 65536 t))) w) }
      else Some w)"

text \<open>
  The overloads on a 64-bit host; as in the built-in back end \<open>char\<close> becomes \<open>int\<close>, other pointers
  \<open>bool\<close>, and \<open>long long\<close> does not compile.
\<close>

fun lib_write :: "(lib_call \<Rightarrow> 's \<Rightarrow> int \<times> 's) \<Rightarrow> bool \<Rightarrow> log_value \<Rightarrow> lib_data \<Rightarrow>
    's lib_world \<Rightarrow> 's lib_world option" where
  "lib_write lib hex (VBool v) d w = Some (lib_put lib d (LibBool v) w)"
| "lib_write lib hex (VPtr v) d w = Some (lib_put lib d (LibBool (v \<noteq> 0)) w)"
| "lib_write lib hex (VCStr v) d w = Some (lib_put lib d (LibUtf8 v) w)"
| "lib_write lib hex (VView v) d w =
     lib_writeFormatted lib ''%.*s'' [AInt (to_signed 32 (int (length v))), AStr v] d w"
| "lib_write lib hex (VString v) d w = Some (lib_put lib d (LibUtf8 (Some (v @ [NUL]))) w)"
| "lib_write lib hex (VFloat v) d w = Some (lib_put lib d (LibFloat32 v) w)"
| "lib_write lib hex (VDouble v) d w = Some (lib_put lib d (LibFloat64 v) w)"
| "lib_write lib hex (VULong v) d w =
     Some (lib_put lib d (if hex then LibUInt64Hex v else LibUInt64 v) w)"
| "lib_write lib hex (VLong v) d w = Some (lib_put lib d (LibInt64 v) w)"
| "lib_write lib hex (VUInt v) d w =
     Some (lib_put lib d (if hex then LibUInt32Hex v else LibUInt32 v) w)"
| "lib_write lib hex (VInt v) d w = Some (lib_put lib d (LibInt32 v) w)"
| "lib_write lib hex (VChar v) d w = Some (lib_put lib d (LibInt32 (word_of_int (sint v))) w)"
| "lib_write lib hex (VUShort v) d w =
     Some (lib_put lib d (if hex then LibUInt16Hex v else LibUInt16 v) w)"
| "lib_write lib hex (VShort v) d w = Some (lib_put lib d (LibInt16 v) w)"
| "lib_write lib hex (VUChar v) d w =
     Some (lib_put lib d (if hex then LibUInt8Hex v else LibUInt8 v) w)"
| "lib_write lib hex (VSChar v) d w = Some (lib_put lib d (LibInt8 v) w)"
| "lib_write lib hex (VLLong v) d w = None"
| "lib_write lib hex (VULLong v) d w = None"

fun lib_do :: "(lib_call \<Rightarrow> 's \<Rightarrow> int \<times> 's) \<Rightarrow> log_op \<Rightarrow> lib_data \<Rightarrow> 's lib_world \<Rightarrow> 's lib_world option" where
  "lib_do lib (OpWrite hex v) d w = lib_write lib hex v d w"
| "lib_do lib (OpFormatted f args) d w = lib_writeFormatted lib f args d w"

fun lib_run :: "(lib_call \<Rightarrow> 's \<Rightarrow> int \<times> 's) \<Rightarrow> log_op list \<Rightarrow> lib_data \<Rightarrow> 's lib_world \<Rightarrow> 's lib_world option" where
  "lib_run lib [] d w = Some w"
| "lib_run lib (op # ops) d w = lib_do lib op d w \<bind> lib_run lib ops d"

definition lib_write_location :: "(lib_call \<Rightarrow> 's \<Rightarrow> int \<times> 's) \<Rightarrow> LogInfo \<Rightarrow> lib_data \<Rightarrow>
    's lib_world \<Rightarrow> 's lib_world" where
  "lib_write_location lib li d w = (
     let w = lib_put lib d (LibUtf8 (Some (location_separator @ [NUL]))) w;
         w = lib_put lib d (LibUtf8 (Some (fst (getFileName li) @ [NUL]))) w;
         w = (if m_lineNumber li \<noteq> -1 then lib_put lib d (LibUInt32 (word_of_int (m_lineNumber li))) w else w)
     in lib_put lib d (LibUtf8 (Some (m_prettyFunction li @ [NUL]))) w)"

definition lib_write_thread :: "(lib_call \<Rightarrow> 's \<Rightarrow> int \<times> 's) \<Rightarrow> int \<times> string \<Rightarrow> lib_data \<Rightarrow>
    's lib_world \<Rightarrow> 's lib_world" where
  "lib_write_thread lib th d w = (
     let w = lib_put lib d (LibString ''ThreadID'') w;
         w = lib_put lib d (LibUInt8 (word_of_int (fst th))) w
     in lib_put lib d (LibString (snd th)) w)"

definition lib_dtor :: "(lib_call \<Rightarrow> 's \<Rightarrow> int \<times> 's) \<Rightarrow> bool \<Rightarrow> (int \<times> string) option \<Rightarrow> LogInfo \<Rightarrow>
    lib_data \<Rightarrow> 's lib_world \<Rightarrow> 's lib_world" where
  "lib_dtor lib sourceInfo thread li d w =
     (if ld_enabled d then (
        let w = (if sourceInfo then lib_write_location lib li d w else w);
            w = (case thread of Some th \<Rightarrow> lib_write_thread lib th d w | None \<Rightarrow> w)
        in snd (invoke lib (WriteFinish (ld_address d)) w))
      else w)"

section \<open>What is called\<close>

lemma invoke_simps [simp]:
  "lib_calls (snd (invoke lib c w)) = lib_calls w @ [c]"
  "m_appRegistered (snd (invoke lib c w)) = m_appRegistered w"
  "fst (invoke lib c w) = fst (lib c (lib_state w))"
  by (simp_all add: invoke_def split: prod.split)

lemma invoke_calls:
  "invoke lib c w = (r, w') \<Longrightarrow> lib_calls w' = lib_calls w @ [c] \<and> m_appRegistered w' = m_appRegistered w \<and>
     r = fst (lib c (lib_state w))"
  using invoke_simps[of lib c w] by simp

lemma lib_put_calls [simp]:
  "lib_calls (lib_put lib d v w) = lib_calls w @ [WriteValue (ld_address d) v]"
  by (simp add: lib_put_def)

text \<open>The specification: the library call a value becomes, and those of the destructor.\<close>

fun lib_value_of :: "bool \<Rightarrow> log_value \<Rightarrow> lib_value option" where
  "lib_value_of hex (VBool v) = Some (LibBool v)"
| "lib_value_of hex (VPtr v) = Some (LibBool (v \<noteq> 0))"
| "lib_value_of hex (VCStr v) = Some (LibUtf8 v)"
| "lib_value_of hex (VView v) = (if int (length v) < 2 ^ 31
     then Some (LibUtf8 (Some (take 65535 (cstr v) @ [NUL]))) else None)"
| "lib_value_of hex (VString v) = Some (LibUtf8 (Some (v @ [NUL])))"
| "lib_value_of hex (VFloat v) = Some (LibFloat32 v)"
| "lib_value_of hex (VDouble v) = Some (LibFloat64 v)"
| "lib_value_of hex (VULong v) = Some (if hex then LibUInt64Hex v else LibUInt64 v)"
| "lib_value_of hex (VLong v) = Some (LibInt64 v)"
| "lib_value_of hex (VUInt v) = Some (if hex then LibUInt32Hex v else LibUInt32 v)"
| "lib_value_of hex (VInt v) = Some (LibInt32 v)"
| "lib_value_of hex (VChar v) = Some (LibInt32 (word_of_int (sint v)))"
| "lib_value_of hex (VUShort v) = Some (if hex then LibUInt16Hex v else LibUInt16 v)"
| "lib_value_of hex (VShort v) = Some (LibInt16 v)"
| "lib_value_of hex (VUChar v) = Some (if hex then LibUInt8Hex v else LibUInt8 v)"
| "lib_value_of hex (VSChar v) = Some (LibInt8 v)"
| "lib_value_of hex (VLLong v) = None"
| "lib_value_of hex (VULLong v) = None"

fun lib_op_value :: "log_op \<Rightarrow> lib_value option" where
  "lib_op_value (OpWrite hex v) = lib_value_of hex v"
| "lib_op_value (OpFormatted f args) =
     map_option (\<lambda>t. LibUtf8 (Some (take 65535 t @ [NUL]))) (c_format f args)"

definition location_values :: "LogInfo \<Rightarrow> lib_value list" where
  "location_values li = [LibUtf8 (Some (location_separator @ [NUL])), LibUtf8 (Some (fst (getFileName li) @ [NUL]))] @
     (if m_lineNumber li \<noteq> -1 then [LibUInt32 (word_of_int (m_lineNumber li))] else []) @
     [LibUtf8 (Some (m_prettyFunction li @ [NUL]))]"

definition thread_values :: "(int \<times> string) option \<Rightarrow> lib_value list" where
  "thread_values thread = (case thread of None \<Rightarrow> []
     | Some th \<Rightarrow> [LibString ''ThreadID'', LibUInt8 (word_of_int (fst th)), LibString (snd th)])"

lemma lib_writeFormatted_ok:
  assumes "ld_enabled d" and "c_format f args = Some t"
  shows "lib_writeFormatted lib f args d w = Some (lib_put lib d (LibUtf8 (Some (take 65535 t @ [NUL]))) w)"
  using assms by (simp add: lib_writeFormatted_def snprintf_mem_def)

lemma lib_write_ok:
  assumes "ld_enabled d" and "lib_value_of hex v = Some lv"
  shows "lib_write lib hex v d w = Some (lib_put lib d lv w)"
proof (cases v)
  case (VView s)
  with assms(2) have len: "int (length s) < 2 ^ 31" and lv: "lv = LibUtf8 (Some (take 65535 (cstr s) @ [NUL]))"
    by (auto split: if_splits)
  have "to_signed 32 (int (length s)) = int (length s)" using len by (intro to_signed_id) auto
  moreover have "take (length s) (cstr s) = cstr s" by (simp add: cstr_def length_takeWhile_le)
  ultimately have "c_format ''%.*s'' [AInt (to_signed 32 (int (length s))), AStr s] = Some (cstr s)" by simp
  with VView lv show ?thesis by (simp add: lib_writeFormatted_ok[OF assms(1)] del: c_format.simps)
qed (use assms(2) in auto)

lemma lib_do_ok:
  "ld_enabled d \<Longrightarrow> lib_op_value op = Some lv \<Longrightarrow> lib_do lib op d w = Some (lib_put lib d lv w)"
  by (cases op) (auto simp: lib_write_ok lib_writeFormatted_ok)

lemma lib_run_calls:
  "ld_enabled d \<Longrightarrow> map lib_op_value ops = map Some lvs \<Longrightarrow>
     \<exists>w'. lib_run lib ops d w = Some w' \<and> lib_calls w' = lib_calls w @ map (WriteValue (ld_address d)) lvs"
proof (induction ops arbitrary: lvs w)
  case (Cons op ops)
  then obtain lv lvs' where l: "lvs = lv # lvs'" "lib_op_value op = Some lv" "map lib_op_value ops = map Some lvs'"
    by (cases lvs) auto
  from Cons.IH[OF Cons.prems(1) l(3), of "lib_put lib d lv w"] show ?case
    using lib_do_ok[OF Cons.prems(1) l(2), of lib w] l(1) by auto
qed simp

lemma lib_dtor_calls:
  "ld_enabled d \<Longrightarrow> lib_calls (lib_dtor lib sourceInfo thread li d w) = lib_calls w @
     map (WriteValue (ld_address d)) ((if sourceInfo then location_values li else []) @ thread_values thread) @
     [WriteFinish (ld_address d)]"
  by (simp add: lib_dtor_def lib_write_location_def lib_write_thread_def location_values_def
      thread_values_def Let_def split: option.split)

text \<open>
  The life of an entry: created, given its calls as the front end does (only while enabled), and
  destroyed.
\<close>

definition lib_entry :: "dlt_api \<Rightarrow> (lib_call \<Rightarrow> 's \<Rightarrow> int \<times> 's) \<Rightarrow> bool \<Rightarrow> (int \<times> string) option \<Rightarrow>
    LogInfo \<Rightarrow> lib_ctx \<Rightarrow> nat \<Rightarrow> log_op list \<Rightarrow> 's lib_world \<Rightarrow> 's lib_world option" where
  "lib_entry api lib sourceInfo thread li c a ops w = do {
     let (d, w) = lib_init api lib c li (lib_data_new a) w;
     w \<leftarrow> (if ld_enabled d then lib_run lib ops d w else Some w);
     Some (lib_dtor lib sourceInfo thread li d w) }"

fun lib_register_all :: "(lib_call \<Rightarrow> 's \<Rightarrow> int \<times> 's) \<Rightarrow> platform \<Rightarrow> lib_ctx list \<Rightarrow>
    process \<times> 's lib_world \<Rightarrow> (process \<times> 's lib_world) option" where
  "lib_register_all lib os [] pw = Some pw"
| "lib_register_all lib os (c # cs) pw = lib_registerContext lib os c pw \<bind> lib_register_all lib os cs"

section \<open>The same message as the built-in back end's\<close>

text \<open>
  What the documentation of the library says each call puts into the message: the type word of the
  argument and its value in little-endian order.
\<close>

definition documented_encoding :: "(lib_value \<Rightarrow> dlt_arg) \<Rightarrow> bool" where
  "documented_encoding enc \<longleftrightarrow>
     (\<forall>b. enc (LibBool b) = DltValue 0x10 [if b then 1 else 0]) \<and>
     (\<forall>m. enc (LibUtf8 (Some m)) = DltString (cstr m)) \<and>
     (\<forall>v. enc (LibFloat32 v) = DltValue 0x83 (le_nat 4 (unat v))) \<and>
     (\<forall>v. enc (LibFloat64 v) = DltValue 0x84 (le_nat 8 (unat v))) \<and>
     (\<forall>v. enc (LibUInt8 v) = DltValue 0x41 [v]) \<and>
     (\<forall>v. enc (LibUInt16 v) = DltValue 0x42 (le_nat 2 (unat v))) \<and>
     (\<forall>v. enc (LibUInt32 v) = DltValue 0x43 (le_nat 4 (unat v))) \<and>
     (\<forall>v. enc (LibUInt64 v) = DltValue 0x44 (le_nat 8 (unat v))) \<and>
     (\<forall>v. enc (LibUInt8Hex v) = DltValue 0x10041 [v]) \<and>
     (\<forall>v. enc (LibUInt16Hex v) = DltValue 0x10042 (le_nat 2 (unat v))) \<and>
     (\<forall>v. enc (LibUInt32Hex v) = DltValue 0x10043 (le_nat 4 (unat v))) \<and>
     (\<forall>v. enc (LibUInt64Hex v) = DltValue 0x10044 (le_nat 8 (unat v))) \<and>
     (\<forall>v. enc (LibInt8 v) = DltValue 0x21 [v]) \<and>
     (\<forall>v. enc (LibInt16 v) = DltValue 0x22 (le_nat 2 (unat v))) \<and>
     (\<forall>v. enc (LibInt32 v) = DltValue 0x23 (le_nat 4 (unat v))) \<and>
     (\<forall>v. enc (LibInt64 v) = DltValue 0x24 (le_nat 8 (unat v)))"

text \<open>
  What the library does with the calls between a start and a finish: \<open>received lvs\<close> are the arguments of
  the message it sends. As documented, these are the arguments of the calls, in order, as long as they fit
  into the library's message buffer of \<open>buf\<close> bytes (\<open>DLT_USER_BUF_MAX_SIZE\<close>, 1390 unless configured
  otherwise); what becomes of a message that does not fit is not said here.
\<close>

definition documented_library :: "nat \<Rightarrow> (lib_value \<Rightarrow> dlt_arg) \<Rightarrow> (lib_value list \<Rightarrow> dlt_arg list) \<Rightarrow> bool" where
  "documented_library buf enc received \<longleftrightarrow> documented_encoding enc \<and>
     (\<forall>lvs. length (enc_args dlt_documented (map enc lvs)) \<le> buf \<longrightarrow> received lvs = map enc lvs)"

text \<open>Text without a NUL in it; of the others the back end over the library passes the start only.\<close>

fun plain_text :: "log_value \<Rightarrow> bool" where
  "plain_text (VView s) = nul_free s"
| "plain_text (VString s) = nul_free s"
| "plain_text _ = True"

lemma le_int_word: "le_int 4 x = le_nat 4 (unat (word_of_int x :: 32 word))"
  by (simp add: le_int_def unsigned_of_int take_bit_eq_mod nat_mod_distrib)

lemma lib_value_matches:
  assumes "documented_encoding enc" and "plain_text v" and "arg_of dlt_documented hex v = Some b"
    and "length (enc_arg dlt_documented b) < 16366"
  shows "\<exists>lv. lib_value_of hex v = Some lv \<and> enc lv = b"
proof (cases v)
  case (VView s)
  with assms have "length s < 16366" "nul_free s" "b = DltString s" by (auto simp: length_enc_arg)
  with VView assms(1) show ?thesis by (simp add: documented_encoding_def)
next
  case (VChar x)
  then show ?thesis using assms(1,3) le_int_word[of "sint x"]
    by (simp add: documented_encoding_def dlt_documented_def)
qed (use assms in \<open>cases hex; auto simp: documented_encoding_def dlt_documented_def hex_flag_def split: option.splits\<close>)+

text \<open>
  The contract both back ends fulfil: as long as there is room, writing a value adds its argument.
  \<open>p\<close> is what the back end works with, \<open>holds p as s\<close> that its state \<open>s\<close> stands for the arguments \<open>as\<close>.
\<close>

fun put_values :: "('v \<Rightarrow> 's \<Rightarrow> 's option) \<Rightarrow> 'v list \<Rightarrow> 's \<Rightarrow> 's option" where
  "put_values put [] s = Some s"
| "put_values put (v # vs) s = put v s \<bind> put_values put vs"

locale argument_backend =
  fixes put :: "'p \<Rightarrow> bool \<Rightarrow> log_value \<Rightarrow> 's \<Rightarrow> 's option"
    and ok :: "'p \<Rightarrow> bool"
    and holds :: "'p \<Rightarrow> dlt_arg list \<Rightarrow> 's \<Rightarrow> bool"
  assumes put_holds: "ok p \<Longrightarrow> holds p as s \<Longrightarrow> plain_text v \<Longrightarrow> arg_of dlt_documented hex v = Some b \<Longrightarrow>
    length (enc_args dlt_documented (as @ [b])) < 16366 \<Longrightarrow>
    \<exists>s'. put p hex v s = Some s' \<and> holds p (as @ [b]) s'"
begin

lemma values_held:
  "ok p \<Longrightarrow> holds p as s \<Longrightarrow> list_all plain_text vs \<Longrightarrow> map (arg_of dlt_documented hex) vs = map Some bs \<Longrightarrow>
    length (enc_args dlt_documented (as @ bs)) < 16366 \<Longrightarrow>
    \<exists>s'. put_values (put p hex) vs s = Some s' \<and> holds p (as @ bs) s'"
proof (induction vs arbitrary: as bs s)
  case (Cons v vs)
  then obtain b bs' where b: "bs = b # bs'" "arg_of dlt_documented hex v = Some b"
    "map (arg_of dlt_documented hex) vs = map Some bs'" by (cases bs) auto
  have "length (enc_args dlt_documented (as @ [b])) < 16366"
    using Cons.prems(5) b(1) by (simp add: enc_args_simps enc_args_Cons)
  with put_holds[OF Cons.prems(1,2) _ b(2)] Cons.prems(3) obtain s1 where
    s1: "put p hex v s = Some s1" "holds p (as @ [b]) s1" by auto
  from Cons.IH[OF Cons.prems(1) s1(2) _ b(3)] Cons.prems(3,5) s1(1) b(1) show ?case by simp
qed simp

end

lemma dlt_run_values: "dlt_run api (map (OpWrite hex) vs) d = put_values (dlt_write api hex) vs d"
proof (induction vs arbitrary: d)
  case (Cons v vs)
  then show ?case by (cases "dlt_write api hex v d") simp_all
qed simp

lemma lib_run_values: "lib_run lib (map (OpWrite hex) vs) d w = put_values (\<lambda>v. lib_write lib hex v d) vs w"
proof (induction vs arbitrary: w)
  case (Cons v vs)
  then show ?case by (cases "lib_write lib hex v d w") simp_all
qed simp

text \<open>The built-in back end: its payload refines the arguments; it leaves out empty strings.\<close>

definition builtin_holds :: "dlt_arg list \<Rightarrow> dlt_data \<Rightarrow> bool" where
  "builtin_holds as d \<longleftrightarrow> dlt_rel dlt_documented d (no_empty as, False)"

lemma builtin_put_holds:
  assumes "builtin_holds as d" and "arg_of dlt_documented hex v = Some b"
    and "length (enc_args dlt_documented (as @ [b])) < 16366"
  shows "\<exists>d'. dlt_write dlt_documented hex v d = Some d' \<and> builtin_holds (as @ [b]) d'"
proof -
  have "length (enc_args dlt_documented (no_empty as)) \<le> length (enc_args dlt_documented as)"
    by (induction as) (simp_all add: enc_args_Cons enc_args_simps)
  then have "spec_put dlt_documented b (no_empty as, False) = (no_empty (as @ [b]), False)"
    using assms(3) spec_put_fits[of dlt_documented "no_empty as" b] by (simp add: enc_args_simps size_constants)
  then show ?thesis
    using dlt_write_rel[OF assms(1)[unfolded builtin_holds_def], of hex v] assms(2)
    by (auto simp: builtin_holds_def option_rel_Some2)
qed

interpretation builtin: argument_backend "\<lambda>_ :: unit. dlt_write dlt_documented" "\<lambda>_. True" "\<lambda>_. builtin_holds"
  by unfold_locales (rule builtin_put_holds)

text \<open>The back end over the library: the calls it has made, read through their documentation.\<close>

record 's lib_params =
  lp_lib :: "lib_call \<Rightarrow> 's \<Rightarrow> int \<times> 's"
  lp_enc :: "lib_value \<Rightarrow> dlt_arg"
  lp_data :: lib_data
  lp_before :: "lib_call list"

definition client_ok :: "'s lib_params \<Rightarrow> bool" where
  "client_ok p \<longleftrightarrow> documented_encoding (lp_enc p) \<and> ld_enabled (lp_data p)"

definition client_holds :: "'s lib_params \<Rightarrow> dlt_arg list \<Rightarrow> 's lib_world \<Rightarrow> bool" where
  "client_holds p as w \<longleftrightarrow> (\<exists>lvs. lib_calls w = lp_before p @ map (WriteValue (ld_address (lp_data p))) lvs \<and>
     map (lp_enc p) lvs = as)"

definition client_put :: "'s lib_params \<Rightarrow> bool \<Rightarrow> log_value \<Rightarrow> 's lib_world \<Rightarrow> 's lib_world option" where
  "client_put p hex v w = lib_write (lp_lib p) hex v (lp_data p) w"

lemma client_put_holds:
  assumes "client_ok p" and "client_holds p as w" and "plain_text v" and "arg_of dlt_documented hex v = Some b"
    and "length (enc_args dlt_documented (as @ [b])) < 16366"
  shows "\<exists>w'. client_put p hex v w = Some w' \<and> client_holds p (as @ [b]) w'"
proof -
  from assms(1) have en: "documented_encoding (lp_enc p)" "ld_enabled (lp_data p)" by (simp_all add: client_ok_def)
  have "length (enc_arg dlt_documented b) < 16366" using assms(5) by (simp add: enc_args_simps)
  from lib_value_matches[OF en(1) assms(3,4) this] obtain lv where
    lv: "lib_value_of hex v = Some lv" "lp_enc p lv = b" by blast
  let ?w = "lib_put (lp_lib p) (lp_data p) lv w"
  from assms(2) obtain lvs where "lib_calls w = lp_before p @ map (WriteValue (ld_address (lp_data p))) lvs"
    "map (lp_enc p) lvs = as" by (auto simp: client_holds_def)
  with lv(2) have "client_holds p (as @ [b]) ?w"
    unfolding client_holds_def by (intro exI[of _ "lvs @ [lv]"]) simp
  then show ?thesis by (simp add: client_put_def lib_write_ok[OF en(2) lv(1)])
qed

interpretation client: argument_backend client_put client_ok client_holds
  by unfold_locales (rule client_put_holds)

section \<open>Registration\<close>

definition description_with_pid :: "string \<Rightarrow> int \<Rightarrow> string" where
  "description_with_pid description pid =
     take 1023 (cstr description @ '' / PID:'' @ dec_text (to_signed 32 pid))"

definition app_calls :: "(lib_call \<Rightarrow> 's \<Rightarrow> int \<times> 's) \<Rightarrow> int \<Rightarrow> string \<Rightarrow> string \<Rightarrow> 's \<Rightarrow> lib_call list" where
  "app_calls lib pid ident description s =
     (let text = description_with_pid description pid; first = RegisterLibApp (cstr ident) text
      in first # (if fst (lib first s) \<noteq> 0
                  then [RegisterLibApp (take 4 (hex_text (to_unsigned 32 pid))) text] else []))"

lemma registerDLTApp_calls:
  "\<exists>w'. registerDLTApp lib pid ident description w = Some w' \<and> m_appRegistered w' \<and>
     lib_calls w' = lib_calls w @ app_calls lib pid ident description (lib_state w)"
proof -
  let ?t = "cstr description @ '' / PID:'' @ dec_text (to_signed 32 pid)" and ?x = "hex_text (to_unsigned 32 pid)"
  have "c_format ''%s / PID:%i'' [AStr description, AInt pid] = Some ?t"
    by (simp add: printf_eval dec_text_def)
  moreover have "c_string (snprintf_mem 1024 ?t) = Some (description_with_pid description pid)"
    by (subst c_string_snprintf) (simp_all add: description_with_pid_def)
  ultimately obtain T where T: "c_format ''%s / PID:%i'' [AStr description, AInt pid] = Some T"
    "c_string (snprintf_mem 1024 T) = Some (description_with_pid description pid)" by blast
  have p: "c_string (snprintf_mem 5 ?x) = Some (take 4 ?x)" by (subst c_string_snprintf) simp_all
  obtain r w1 where i: "invoke lib (RegisterLibApp (cstr ident) (description_with_pid description pid)) w = (r, w1)"
    by force
  show ?thesis
    using invoke_calls[OF i]
    by (simp add: registerDLTApp_def T p i app_calls_def Let_def del: c_format.simps c_string_snprintf)
qed

lemma registerContextBase_app_id [simp]:
  "s_pAppLogContext (registerContextBase os p) = s_pAppLogContext p"
  by (simp add: registerContextBase_def)

definition context_call :: "lib_ctx \<Rightarrow> lib_call" where
  "context_call c = RegisterLibContext (lx_address c) (cstr (ctx_id (lx_context c))) (cstr (ctx_description (lx_context c)))"

lemma lib_registerContext_first:
  assumes "\<not> m_appRegistered w" and "s_pAppLogContext p = Some app"
  shows "\<exists>w'. lib_registerContext lib os c (p, w) = Some (registerContextBase os p, w') \<and> m_appRegistered w' \<and>
    lib_calls w' = lib_calls w @ app_calls lib (getpid os) (app_id app) (app_description app) (lib_state w) @ [context_call c]"
proof -
  from registerDLTApp_calls[of lib "getpid os" "app_id app" "app_description app" w] obtain w1 where
    "registerDLTApp lib (getpid os) (app_id app) (app_description app) w = Some w1"
    "lib_calls w1 = lib_calls w @ app_calls lib (getpid os) (app_id app) (app_description app) (lib_state w)"
    by blast
  then show ?thesis using assms by (simp add: lib_registerContext_def context_call_def)
qed

lemma lib_register_rest:
  "m_appRegistered w \<Longrightarrow> \<exists>p' w'. lib_register_all lib os cs (p, w) = Some (p', w') \<and> m_appRegistered w' \<and>
     lib_calls w' = lib_calls w @ map context_call cs"
proof (induction cs arbitrary: p w)
  case (Cons c cs)
  let ?w = "snd (invoke lib (context_call c) w)"
  have "lib_registerContext lib os c (p, w) = Some (registerContextBase os p, ?w)"
    using Cons.prems by (simp add: lib_registerContext_def context_call_def)
  with Cons.IH[of ?w "registerContextBase os p"] Cons.prems show ?case by simp
qed simp

section \<open>Properties\<close>

text \<open>
  C27. Every entry is well bracketed: one start; if the library wants the message, one call per
  streamed value in order, then source location and thread if enabled, and exactly one finish; if
  not, nothing more is called.
\<close>

theorem lib_entry_bracketed:
  assumes "map lib_op_value ops = map Some lvs"
  shows "\<exists>w'. lib_entry api lib sourceInfo thread li c a ops w = Some w' \<and>
    lib_calls w' = lib_calls w @
      [WriteStart (lx_address c) a (getDLTLogLevel api (m_level li))] @
      (if fst (lib (WriteStart (lx_address c) a (getDLTLogLevel api (m_level li))) (lib_state w)) > 0
       then map (WriteValue a) (lvs @ (if sourceInfo then location_values li else []) @ thread_values thread) @
         [WriteFinish a]
       else [])"
proof -
  let ?start = "WriteStart (lx_address c) a (getDLTLogLevel api (m_level li))"
  obtain r w1 where i: "invoke lib ?start w = (r, w1)" by force
  note r = invoke_calls[OF i]
  let ?d = "\<lparr>ld_address = a, ld_enabled = r > 0\<rparr>"
  have init: "lib_init api lib c li (lib_data_new a) w = (?d, w1)"
    using i by (simp add: lib_init_def lib_data_new_def)
  show ?thesis
  proof (cases "r > 0")
    case True
    then have en: "ld_enabled ?d" by simp
    from lib_run_calls[OF en assms, of lib w1] obtain w2 where
      "lib_run lib ops ?d w1 = Some w2" "lib_calls w2 = lib_calls w1 @ map (WriteValue a) lvs" by auto
    with True r lib_dtor_calls[OF en, of lib sourceInfo thread li w2] show ?thesis
      by (simp add: lib_entry_def init)
  next
    case False
    with r show ?thesis by (simp add: lib_entry_def init lib_dtor_def)
  qed
qed

lemma sample_ops_lib:
  "map lib_op_value sample_ops = map Some [LibUtf8 (Some (''temperature'' @ [NUL])), LibUtf8 (Some [NUL]),
     LibUInt16Hex 0x1F, LibUtf8 (Some (''hot!'' @ [NUL]))]"
  by (simp add: sample_ops_def printf_eval)

theorem lib_entry_bracketed_witness:
  "\<exists>w'. lib_entry dlt_documented (\<lambda>_ (s :: unit). (1, s)) False None
      (LogInfo_ctor LvInfo ''a.c'' 1 ''f'')
      \<lparr>lx_address = 1, lx_context = \<lparr>ctx_id = ''MAIN'', ctx_description = ''main''\<rparr>\<rparr> 2 sample_ops
      \<lparr>lib_state = (), lib_calls = [], m_appRegistered = True\<rparr> = Some w' \<and>
    length (lib_calls w') = 6 \<and> last (lib_calls w') = WriteFinish 2"
  using lib_entry_bracketed[OF sample_ops_lib, of dlt_documented "\<lambda>_ (s :: unit). (1, s)" False None]
  by (fastforce simp: thread_values_def)

text \<open>
  C26. Both DLT back ends send the same arguments: for values whose arguments fit into both message
  buffers (the library's holds \<open>buf\<close> bytes, that of the built-in back end less than 16366), whose texts
  hold no NUL and none of which is an empty text, what a reader decodes from the message of the built-in
  back end is what the library, by its documentation, makes of the calls it gets: one argument per value,
  in order, with the value's type word.
\<close>

theorem dlt_backends_agree:
  assumes "documented_library buf enc received" and "list_all plain_text vs"
    and "map (arg_of dlt_documented hex) vs = map Some bs" and "DltString [] \<notin> set bs"
    and "length (enc_args dlt_documented bs) \<le> buf" and "length (enc_args dlt_documented bs) < 16366"
    and "ld_enabled x"
  shows "\<exists>d lvs w'. dlt_run dlt_documented (map (OpWrite hex) vs) dlt_data_new = Some d \<and>
    lib_run lib (map (OpWrite hex) vs) x w = Some w' \<and>
    lib_calls w' = lib_calls w @ map (WriteValue (ld_address x)) lvs \<and>
    dec_args (dd_content d) = Some bs \<and> received lvs = bs"
proof -
  let ?p = "\<lparr>lp_lib = lib, lp_enc = enc, lp_data = x, lp_before = lib_calls w\<rparr>"
  have "client_ok ?p" "client_holds ?p [] w"
    using assms(1,7) by (simp_all add: client_ok_def client_holds_def documented_library_def)
  from client.values_held[OF this assms(2,3)] assms(6) obtain lvs w' where
    w': "lib_run lib (map (OpWrite hex) vs) x w = Some w'"
    "lib_calls w' = lib_calls w @ map (WriteValue (ld_address x)) lvs" "map enc lvs = bs"
    by (auto simp: client_put_def[abs_def] client_holds_def lib_run_values)
  have new: "builtin_holds [] dlt_data_new"
    unfolding builtin_holds_def by (simp add: dlt_new_rel dlt_data_new_def)
  from builtin.values_held[OF _ new assms(2,3)] assms(6) obtain d where
    d: "dlt_run dlt_documented (map (OpWrite hex) vs) dlt_data_new = Some d" "builtin_holds bs d"
    by (auto simp: dlt_run_values)
  have none: "no_empty bs = bs" using assms(4) by (auto intro: filter_True)
  have run: "spec_run dlt_documented (map (OpWrite hex) vs) ([], False) = Some (bs, False)"
    using spec_run_fits[OF assms(3), of "[]"] assms(6) by (simp add: size_constants enc_args_simps none)
  from spec_run_wf[OF run] have "dec_args (enc_args dlt_documented bs) = Some bs"
    by (intro dec_enc_args) simp
  with d(2) have "dec_args (dd_content d) = Some bs" by (simp add: builtin_holds_def dlt_rel_def none)
  moreover have "received lvs = bs"
    using assms(1,5) w'(3) by (auto simp: documented_library_def)
  ultimately show ?thesis using d(1) w'(1,2) by blast
qed

fun sample_encoding :: "lib_value \<Rightarrow> dlt_arg" where
  "sample_encoding (LibBool b) = DltValue 0x10 [if b then 1 else 0]"
| "sample_encoding (LibUtf8 m) = DltString (case m of Some s \<Rightarrow> cstr s | None \<Rightarrow> [])"
| "sample_encoding (LibString s) = DltString s"
| "sample_encoding (LibFloat32 v) = DltValue 0x83 (le_nat 4 (unat v))"
| "sample_encoding (LibFloat64 v) = DltValue 0x84 (le_nat 8 (unat v))"
| "sample_encoding (LibUInt8 v) = DltValue 0x41 [v]"
| "sample_encoding (LibUInt16 v) = DltValue 0x42 (le_nat 2 (unat v))"
| "sample_encoding (LibUInt32 v) = DltValue 0x43 (le_nat 4 (unat v))"
| "sample_encoding (LibUInt64 v) = DltValue 0x44 (le_nat 8 (unat v))"
| "sample_encoding (LibUInt8Hex v) = DltValue 0x10041 [v]"
| "sample_encoding (LibUInt16Hex v) = DltValue 0x10042 (le_nat 2 (unat v))"
| "sample_encoding (LibUInt32Hex v) = DltValue 0x10043 (le_nat 4 (unat v))"
| "sample_encoding (LibUInt64Hex v) = DltValue 0x10044 (le_nat 8 (unat v))"
| "sample_encoding (LibInt8 v) = DltValue 0x21 [v]"
| "sample_encoding (LibInt16 v) = DltValue 0x22 (le_nat 2 (unat v))"
| "sample_encoding (LibInt32 v) = DltValue 0x23 (le_nat 4 (unat v))"
| "sample_encoding (LibInt64 v) = DltValue 0x24 (le_nat 8 (unat v))"

theorem dlt_backends_agree_witness:
  "\<exists>d lvs w'. dlt_run dlt_documented (map (OpWrite True) [VUChar 31, VBool True, VView ''ok'']) dlt_data_new = Some d \<and>
    lib_run (\<lambda>_ (s :: unit). (1, s)) (map (OpWrite True) [VUChar 31, VBool True, VView ''ok'']) \<lparr>ld_address = 2, ld_enabled = True\<rparr>
      \<lparr>lib_state = (), lib_calls = [], m_appRegistered = True\<rparr> = Some w' \<and>
    lib_calls w' = map (WriteValue 2) lvs \<and>
    dec_args (dd_content d) = Some [DltValue 0x10041 [31], DltValue 0x10 [1], DltString ''ok''] \<and>
    map sample_encoding lvs = [DltValue 0x10041 [31], DltValue 0x10 [1], DltString ''ok'']"
proof -
  let ?vs = "[VUChar 31, VBool True, VView ''ok'']"
  let ?bs = "[DltValue 0x10041 [31], DltValue 0x10 [1], DltString ''ok'']"
  have e: "documented_library 1390 sample_encoding (map sample_encoding)"
    by (simp add: documented_library_def documented_encoding_def)
  have m: "map (arg_of dlt_documented True) ?vs = map Some ?bs"
    by (simp add: dlt_documented_def hex_flag_def)
  have l: "length (enc_args dlt_documented ?bs) \<le> 1390" "length (enc_args dlt_documented ?bs) < 16366"
    by (simp_all add: enc_args_def)
  show ?thesis
    using dlt_backends_agree[OF e _ m _ l, of "\<lparr>ld_address = 2, ld_enabled = True\<rparr>" "\<lambda>_ (s :: unit). (1, s)"
      "\<lparr>lib_state = (), lib_calls = [], m_appRegistered = True\<rparr>"] by simp
qed

text \<open>An empty text is where they differ: the library is asked to write it, the built-in back end leaves it out.\<close>

lemma empty_text_differs:
  assumes "ld_enabled x"
  shows "dlt_run api [OpWrite hex (VView [])] dlt_data_new = Some dlt_data_new"
    and "lib_run lib [OpWrite hex (VView [])] x w = Some (lib_put lib x (LibUtf8 (Some [NUL])) w)"
  using assms lib_write_ok[of x hex "VView []" "LibUtf8 (Some [NUL])" lib w]
  by (simp_all add: write_chars_def Let_def)

text \<open>
  C28. Registration with the library: whatever it answers, the application is registered once, before
  any context, with a second attempt under the process id exactly when the first one is refused; then
  every context is registered, in order.
\<close>

theorem lib_registers_app_once:
  assumes "\<not> m_appRegistered w" and "s_pAppLogContext p = Some app"
  shows "\<exists>p' w'. lib_register_all lib os (c # cs) (p, w) = Some (p', w') \<and> m_appRegistered w' \<and>
    lib_calls w' = lib_calls w @
      app_calls lib (getpid os) (app_id app) (app_description app) (lib_state w) @ map context_call (c # cs)"
proof -
  from lib_registerContext_first[OF assms, of lib os c] obtain w1 where
    w1: "lib_registerContext lib os c (p, w) = Some (registerContextBase os p, w1)" "m_appRegistered w1"
    "lib_calls w1 = lib_calls w @ app_calls lib (getpid os) (app_id app) (app_description app) (lib_state w) @ [context_call c]"
    by blast
  from lib_register_rest[OF w1(2), of lib os cs "registerContextBase os p"] w1(1,3) show ?thesis by auto
qed

theorem lib_registers_app_once_witness:
  "\<exists>p' w'. lib_register_all (\<lambda>c (s :: unit). (if c = RegisterLibApp ''APP'' ''app / PID:7'' then -1 else 0, s))
      \<lparr>getenv = (\<lambda>_. None), getpid = 7, proc_dir = False, proc_cmdline = None\<rparr>
      [\<lparr>lx_address = 1, lx_context = \<lparr>ctx_id = ''A'', ctx_description = ''a''\<rparr>\<rparr>,
       \<lparr>lx_address = 2, lx_context = \<lparr>ctx_id = ''B'', ctx_description = ''b''\<rparr>\<rparr>]
      (process_init\<lparr>s_pAppLogContext := Some \<lparr>app_id = ''APP'', app_description = ''app''\<rparr>\<rparr>,
       \<lparr>lib_state = (), lib_calls = [], m_appRegistered = False\<rparr>) = Some (p', w') \<and>
    lib_calls w' = [RegisterLibApp ''APP'' ''app / PID:7'', RegisterLibApp ''7'' ''app / PID:7'',
      RegisterLibContext 1 ''A'' ''a'', RegisterLibContext 2 ''B'' ''b'']"
proof -
  have d: "description_with_pid ''app'' 7 = ''app / PID:7''"
    by (simp add: description_with_pid_def dec_text_def printf_eval)
  have h: "hex_text (to_unsigned 32 7) = ''7''" by (simp add: hex_text_def printf_eval)
  show ?thesis
    using lib_registers_app_once[of "\<lparr>lib_state = (), lib_calls = [], m_appRegistered = False\<rparr>"
      "process_init\<lparr>s_pAppLogContext := Some \<lparr>app_id = ''APP'', app_description = ''app''\<rparr>\<rparr>"
      "\<lparr>app_id = ''APP'', app_description = ''app''\<rparr>"
      "\<lambda>c (s :: unit). (if c = RegisterLibApp ''APP'' ''app / PID:7'' then -1 else 0, s)"
      "\<lparr>getenv = (\<lambda>_. None), getpid = 7, proc_dir = False, proc_cmdline = None\<rparr>"
      "\<lparr>lx_address = 1, lx_context = \<lparr>ctx_id = ''A'', ctx_description = ''a''\<rparr>\<rparr>"
      "[\<lparr>lx_address = 2, lx_context = \<lparr>ctx_id = ''B'', ctx_description = ''b''\<rparr>\<rparr>]"]
    by (auto simp: app_calls_def d h context_call_def Let_def simp del: lib_register_all.simps)
qed

text \<open>
  An error of the library reads as enabled: with version 2.9, a negative answer to the question
  whether a level is enabled makes the context say yes, so that a statement is evaluated, while the
  entry created next stays disabled and nothing is written.
\<close>

lemma lib_error_counts_as_enabled:
  assumes "\<And>x a l s. fst (lib (WriteStart x a l) s) = e" and "e < 0"
  shows "fst (lib_isEnabled True api lib level_ptr c (m_level li) w) \<and>
    lib_entry api lib sourceInfo thread li c a ops w' =
      Some (snd (invoke lib (WriteStart (lx_address c) a (getDLTLogLevel api (m_level li))) w'))"
proof -
  obtain r w1 where i: "invoke lib (WriteStart (lx_address c) a (getDLTLogLevel api (m_level li))) w' = (r, w1)"
    by force
  with assms invoke_calls[OF i] have "\<not> r > 0" by simp
  then have "lib_entry api lib sourceInfo thread li c a ops w' = Some w1"
    by (simp add: lib_entry_def lib_init_def i lib_data_new_def lib_dtor_def)
  moreover have "fst (lib_isEnabled True api lib level_ptr c (m_level li) w)"
    using assms by (simp add: lib_isEnabled_def case_prod_beta)
  ultimately show ?thesis using i by simp
qed

lemma lib_error_counts_as_enabled_witness:
  "fst (lib_isEnabled True dlt_documented (\<lambda>_ (s :: unit). (- 1, s)) (\<lambda>_ _. None)
      \<lparr>lx_address = 1, lx_context = \<lparr>ctx_id = ''A'', ctx_description = ''a''\<rparr>\<rparr> LvInfo
      \<lparr>lib_state = (), lib_calls = [], m_appRegistered = True\<rparr>)"
  using lib_error_counts_as_enabled[of "\<lambda>_ (s :: unit). (- 1, s)" "- 1" dlt_documented "\<lambda>_ _. None"
      "\<lparr>lx_address = 1, lx_context = \<lparr>ctx_id = ''A'', ctx_description = ''a''\<rparr>\<rparr>"
      "LogInfo_ctor LvInfo ''a.c'' 1 ''f''" "\<lparr>lib_state = (), lib_calls = [], m_appRegistered = True\<rparr>"]
  by (simp add: LogInfo_ctor_def)

end
