(* ===== verification/Dlt_Reader.thy ===== *)
theory Dlt_Reader
  imports Dlt_Session
begin

text \<open>
  The life of the daemon connection's receiving side, from \<open>src/ivi-logging-dltcpp.cpp\<close>: the
  creation of the application's FIFO (\<open>DaemonConnection::init\<close>), the reader thread, and the
  destructor that stops it through a flag and a pipe. The answers of the file system are the record
  \<open>fs_answers\<close>, the calls made are recorded in \<open>fs_calls\<close>. The threads interleave in the step
  relation \<open>conn_step\<close>.
\<close>

section \<open>Creating the FIFO\<close>

datatype mkdir_answer = DirCreated | DirExists | DirRefused

record fs_answers =
  ans_mkdir :: mkdir_answer
  ans_chmod_dir :: bool
  ans_mkfifo :: bool
  ans_chmod_fifo :: bool
  ans_open :: int

datatype fs_call = Mkdir string nat | Chmod string nat | Unlink string | Mkfifo string nat | OpenFifo string

record fifo_state =
  m_initialized :: bool
  m_appFileDescriptor :: int
  fs_calls :: "fs_call list"
  fs_errors :: string
  reader_started :: bool

datatype init_result = Ready fifo_state | Aborted fifo_state

definition dltFifoBaseDir :: string where "dltFifoBaseDir = ''/tmp/dltpipes''"

text \<open>File modes, as the POSIX values of the flags the source combines.\<close>

definition DIR_MKDIR_MODE :: nat where "DIR_MKDIR_MODE = 0x3F6"
definition DIR_CHMOD_MODE :: nat where "DIR_CHMOD_MODE = 0x7FF"
definition FIFO_MODE :: nat where "FIFO_MODE = 0x1B0"

definition fs_call :: "fs_call \<Rightarrow> fifo_state \<Rightarrow> fifo_state" where
  "fs_call c s = s\<lparr>fs_calls := fs_calls s @ [c]\<rparr>"

definition fs_abort :: "string \<Rightarrow> fifo_state \<Rightarrow> init_result" where
  "fs_abort message s = Aborted (s\<lparr>fs_errors := fs_errors s @ message\<rparr>)"

text \<open>The directory: created with its mode, or already there.\<close>

definition make_base_dir :: "fs_answers \<Rightarrow> fifo_state \<Rightarrow> init_result" where
  "make_base_dir ans s = (
     let s = fs_call (Mkdir dltFifoBaseDir DIR_MKDIR_MODE) s
     in case ans_mkdir ans of
          DirRefused \<Rightarrow> fs_abort (''FIFO user dir '' @ dltFifoBaseDir @ '' cannot be created!'' @ [LF]) s
        | DirExists \<Rightarrow> Ready s
        | DirCreated \<Rightarrow>
            (let s = fs_call (Chmod dltFifoBaseDir DIR_CHMOD_MODE) s
             in if ans_chmod_dir ans then Ready s
                else fs_abort (''FIFO user dir '' @ dltFifoBaseDir @ '' cannot be chmoded!'' @ [LF]) s))"

text \<open>
  \<open>ndebug\<close>: assertions are compiled out, so that a refused \<open>chmod\<close> of the FIFO is only reported.
  \<open>fd_init\<close> is the library's \<open>DLT_FD_INIT\<close>, \<open>path_max\<close> its \<open>DLT_PATH_MAX\<close>.
\<close>

definition make_fifo :: "bool \<Rightarrow> int \<Rightarrow> string \<Rightarrow> fs_answers \<Rightarrow> fifo_state \<Rightarrow> init_result" where
  "make_fifo ndebug fd_init filename ans s = (
     let s = fs_call (Mkfifo filename FIFO_MODE) (fs_call (Unlink filename) s)
     in if \<not> ans_mkfifo ans
        then fs_abort (''Logging disabled, FIFO user '' @ filename @ '' cannot be created!'' @ [LF]) s
        else
          let s = fs_call (Chmod filename FIFO_MODE) s;
              complained = s\<lparr>fs_errors := fs_errors s @ ''FIFO user %s cannot be chmoded!'' @ [LF]\<rparr>
          in if \<not> ans_chmod_fifo ans \<and> \<not> ndebug then Aborted complained
             else
               let s = fs_call (OpenFifo filename) (if ans_chmod_fifo ans then s else complained);
                   s = s\<lparr>m_appFileDescriptor := ans_open ans\<rparr>
               in if m_appFileDescriptor s = fd_init then Aborted s
                  else Ready (s\<lparr>m_initialized := True, reader_started := True\<rparr>))"

definition connection_init :: "bool \<Rightarrow> int \<Rightarrow> nat \<Rightarrow> int \<Rightarrow> fs_answers \<Rightarrow> fifo_state \<Rightarrow> init_result option" where
  "connection_init ndebug fd_init path_max pid ans s = (if \<not> m_initialized s then
     (case make_base_dir ans s of
        Aborted s \<Rightarrow> Some (Aborted s)
      | Ready s \<Rightarrow> do {
          t \<leftarrow> c_format ''%s/dlt%d'' [AStr dltFifoBaseDir, AInt pid];
          filename \<leftarrow> c_string (snprintf_mem path_max t);
          Some (make_fifo ndebug fd_init filename ans s) })
     else Some (Ready s))"

section \<open>The reader thread and its end\<close>

datatype reader_pc = ReaderTest | ReaderPoll | ReaderDone
datatype destructor_pc = Alive | StopSet | PipeWritten | Joined

record connection =
  cn_reader :: reader_pc
  cn_destructor :: destructor_pc
  m_stopRequested :: bool
  cn_stopPipe :: "byte list"
  cn_fifo :: "byte list"
  cn_daemon :: daemon

definition connection_new :: "(nat \<Rightarrow> dlt_ctx) \<Rightarrow> connection" where
  "connection_new st = \<lparr>cn_reader = ReaderTest, cn_destructor = Alive, m_stopRequested = False,
     cn_stopPipe = [], cn_fifo = [], cn_daemon = daemon_new st\<rparr>"

text \<open>\<open>poll\<close> returns once a descriptor can be read; the pipe is never emptied.\<close>

definition poll_ready :: "connection \<Rightarrow> bool" where
  "poll_ready cn \<longleftrightarrow> cn_fifo cn \<noteq> [] \<or> cn_stopPipe cn \<noteq> []"

fun reader_loop_step :: "dlt_api \<Rightarrow> byte list \<Rightarrow> connection \<Rightarrow> connection option" where
  "reader_loop_step api junk cn = (case cn_reader cn of
     ReaderTest \<Rightarrow> Some (cn\<lparr>cn_reader := if \<not> m_stopRequested cn then ReaderPoll else ReaderDone\<rparr>)
   | ReaderPoll \<Rightarrow> (if poll_ready cn then do {
         dm \<leftarrow> handleIncomingMessage api (cn_fifo cn \<noteq> []) (Some (cn_fifo cn)) junk (cn_daemon cn);
         Some (cn\<lparr>cn_reader := ReaderTest, cn_fifo := drop INCOMING_SIZE (cn_fifo cn), cn_daemon := dm\<rparr>) }
       else None)
   | ReaderDone \<Rightarrow> None)"

text \<open>\<open>~DaemonConnection\<close>: \<open>None\<close> while \<open>join\<close> waits.\<close>

fun destructor_step :: "connection \<Rightarrow> connection option" where
  "destructor_step cn = (case cn_destructor cn of
     Alive \<Rightarrow> Some (cn\<lparr>m_stopRequested := True, cn_destructor := StopSet\<rparr>)
   | StopSet \<Rightarrow> Some (cn\<lparr>cn_stopPipe := cn_stopPipe cn @ [1], cn_destructor := PipeWritten\<rparr>)
   | PipeWritten \<Rightarrow> (if cn_reader cn = ReaderDone then Some (cn\<lparr>cn_destructor := Joined\<rparr>) else None)
   | Joined \<Rightarrow> None)"

text \<open>
  The program uses the connection, from any of its threads, until its destructor starts. A context can
  be registered again (\<open>step_register\<close>), as when two threads use it for the first time.
\<close>

inductive conn_step :: "dlt_api \<Rightarrow> AppLogContext \<Rightarrow> connection \<Rightarrow> connection \<Rightarrow> bool"
  for api :: dlt_api and app :: AppLogContext where
  conn_reader: "reader_loop_step api junk cn = Some cn' \<Longrightarrow> conn_step api app cn cn'"
| conn_destructor: "destructor_step cn = Some cn' \<Longrightarrow> conn_step api app cn cn'"
| conn_daemon_writes: "conn_step api app cn (cn\<lparr>cn_fifo := cn_fifo cn @ bs\<rparr>)"
| conn_program: "cn_destructor cn = Alive \<Longrightarrow> dm_step api app (cn_daemon cn) dm \<Longrightarrow>
     conn_step api app cn (cn\<lparr>cn_daemon := dm\<rparr>)"

inductive conn_reachable :: "dlt_api \<Rightarrow> AppLogContext \<Rightarrow> (nat \<Rightarrow> dlt_ctx) \<Rightarrow> connection \<Rightarrow> bool"
  for api :: dlt_api and app :: AppLogContext and st :: "nat \<Rightarrow> dlt_ctx" where
  conn_new: "conn_reachable api app st (connection_new st)"
| conn_next: "conn_reachable api app st cn \<Longrightarrow> conn_step api app cn cn' \<Longrightarrow> conn_reachable api app st cn'"

section \<open>The FIFO is ready or the process ends\<close>

definition fifo_name :: "int \<Rightarrow> string" where
  "fifo_name pid = ''/tmp/dltpipes/dlt'' @ dec_text (to_signed 32 pid)"

definition fifo_new :: fifo_state where
  "fifo_new = \<lparr>m_initialized = False, m_appFileDescriptor = 0, fs_calls = [], fs_errors = [], reader_started = False\<rparr>"

definition dir_calls :: "fs_answers \<Rightarrow> fs_call list" where
  "dir_calls ans = Mkdir dltFifoBaseDir DIR_MKDIR_MODE #
     (if ans_mkdir ans = DirCreated then [Chmod dltFifoBaseDir DIR_CHMOD_MODE] else [])"

definition fifo_answers_good :: "bool \<Rightarrow> int \<Rightarrow> fs_answers \<Rightarrow> bool" where
  "fifo_answers_good ndebug fd_init ans \<longleftrightarrow>
     (ans_mkdir ans = DirExists \<or> ans_mkdir ans = DirCreated \<and> ans_chmod_dir ans) \<and>
     ans_mkfifo ans \<and> (ans_chmod_fifo ans \<or> ndebug) \<and> ans_open ans \<noteq> fd_init"

lemma length_dec_text_pid: "length (dec_text (to_signed 32 pid)) \<le> 11"
proof -
  have r: "- (2 ^ 31) \<le> to_signed 32 pid" "to_signed 32 pid < 2 ^ 31"
    using to_signed_range[of 32 pid] by simp_all
  then have "nat \<bar>to_signed 32 pid\<bar> < 10 ^ 10" by (simp add: nat_less_iff abs_if)
  then have "length (radix 10 (nat \<bar>to_signed 32 pid\<bar>)) \<le> Suc 9"
    by (subst length_radix_le) simp_all
  then show ?thesis by (auto simp: dec_text_def split: if_splits)
qed

lemma fifo_filename:
  assumes "28 < path_max"
  shows "c_format ''%s/dlt%d'' [AStr dltFifoBaseDir, AInt pid] \<bind> (\<lambda>t. c_string (snprintf_mem path_max t) \<bind> g) =
    g (fifo_name pid)"
proof -
  have f: "c_format ''%s/dlt%d'' [AStr dltFifoBaseDir, AInt pid] = Some (fifo_name pid)"
    by (simp add: printf_eval dltFifoBaseDir_def fifo_name_def dec_text_def)
  have "length (fifo_name pid) < path_max"
    using length_dec_text_pid[of pid] assms by (simp add: fifo_name_def)
  moreover have "nul_free (fifo_name pid)" by (simp add: fifo_name_def)
  ultimately have "c_string (snprintf_mem path_max (fifo_name pid)) = Some (fifo_name pid)"
    by (simp add: snprintf_mem_fits)
  then show ?thesis by (simp add: f del: c_format.simps)
qed

lemma make_base_dir_result:
  "make_base_dir ans s = (if ans_mkdir ans = DirExists \<or> ans_mkdir ans = DirCreated \<and> ans_chmod_dir ans
     then Ready (s\<lparr>fs_calls := fs_calls s @ dir_calls ans\<rparr>)
     else Aborted (s\<lparr>fs_calls := fs_calls s @ dir_calls ans, fs_errors := fs_errors s @ ''FIFO user dir '' @
       dltFifoBaseDir @ (if ans_mkdir ans = DirRefused then '' cannot be created!'' else '' cannot be chmoded!'') @ [LF]\<rparr>))"
  by (cases "ans_mkdir ans") (simp_all add: make_base_dir_def fs_call_def fs_abort_def dir_calls_def Let_def)

lemma make_fifo_ready:
  assumes "ans_mkfifo ans" and "ans_chmod_fifo ans \<or> ndebug" and "ans_open ans \<noteq> fd_init"
  shows "\<exists>s'. make_fifo ndebug fd_init filename ans s = Ready s' \<and> m_initialized s' \<and> reader_started s' \<and>
    m_appFileDescriptor s' = ans_open ans \<and> fs_calls s' = fs_calls s @
      [Unlink filename, Mkfifo filename FIFO_MODE, Chmod filename FIFO_MODE, OpenFifo filename]"
  using assms by (auto simp: make_fifo_def fs_call_def Let_def)

lemma make_fifo_aborts:
  assumes "\<not> (ans_mkfifo ans \<and> (ans_chmod_fifo ans \<or> ndebug) \<and> ans_open ans \<noteq> fd_init)"
    and "\<not> m_initialized s" and "\<not> reader_started s"
  shows "\<exists>s'. make_fifo ndebug fd_init filename ans s = Aborted s' \<and> \<not> m_initialized s' \<and> \<not> reader_started s'"
  using assms by (auto simp: make_fifo_def fs_call_def fs_abort_def Let_def)

section \<open>The threads\<close>

inductive_simps conn_step_simps: "conn_step api app cn cn'"

text \<open>How many more steps of its own the reader takes once it has been asked to stop.\<close>

fun reader_rank :: "reader_pc \<Rightarrow> nat" where
  "reader_rank ReaderPoll = 2"
| "reader_rank ReaderTest = 1"
| "reader_rank ReaderDone = 0"

definition conn_inv :: "dlt_api \<Rightarrow> AppLogContext \<Rightarrow> connection \<Rightarrow> bool" where
  "conn_inv api app cn \<longleftrightarrow> (cn_destructor cn \<noteq> Alive \<longleftrightarrow> m_stopRequested cn) \<and>
     (cn_destructor cn \<in> {PipeWritten, Joined} \<longrightarrow> cn_stopPipe cn \<noteq> []) \<and>
     (cn_reader cn = ReaderDone \<longrightarrow> m_stopRequested cn) \<and>
     (cn_destructor cn = Joined \<longrightarrow> cn_reader cn = ReaderDone) \<and> dm_inv api app (cn_daemon cn)"

lemma reader_step_inv:
  assumes "reader_loop_step api junk cn = Some cn'" and "conn_inv api app cn"
  shows "conn_inv api app cn'"
proof (cases "cn_reader cn")
  case ReaderPoll
  with assms(1) obtain dm where
    "handleIncomingMessage api (cn_fifo cn \<noteq> []) (Some (cn_fifo cn)) junk (cn_daemon cn) = Some dm"
    "cn' = cn\<lparr>cn_reader := ReaderTest, cn_fifo := drop INCOMING_SIZE (cn_fifo cn), cn_daemon := dm\<rparr>"
    by (auto split: if_splits bind_splits)
  with assms(2) ReaderPoll show ?thesis
    using dm_step_inv[OF step_incoming] by (auto simp: conn_inv_def)
qed (use assms in \<open>auto simp: conn_inv_def split: if_splits\<close>)

lemma destructor_step_inv:
  "destructor_step cn = Some cn' \<Longrightarrow> conn_inv api app cn \<Longrightarrow> conn_inv api app cn'"
  by (cases "cn_destructor cn") (auto simp: conn_inv_def split: if_splits)

lemma conn_step_inv:
  assumes "conn_step api app cn cn'" and "conn_inv api app cn"
  shows "conn_inv api app cn'"
  using assms(1)
proof cases
  case (conn_reader junk)
  then show ?thesis using reader_step_inv assms(2) by blast
next
  case conn_destructor
  then show ?thesis using destructor_step_inv assms(2) by blast
next
  case (conn_daemon_writes bs)
  then show ?thesis using assms(2) by (simp add: conn_inv_def)
next
  case (conn_program dm)
  then show ?thesis using assms(2) dm_step_inv by (auto simp: conn_inv_def)
qed

lemma conn_reachable_inv: "conn_reachable api app st cn \<Longrightarrow> conn_inv api app cn"
proof (induction rule: conn_reachable.induct)
  case conn_new
  show ?case using dm_reachable_inv[OF reach_new] by (simp add: conn_inv_def connection_new_def)
next
  case (conn_next cn cn')
  then show ?case by (blast intro: conn_step_inv)
qed

text \<open>After the stop request no step of anyone raises the reader's rank, and its own lower it.\<close>

lemma reader_rank_decreases:
  "m_stopRequested cn \<Longrightarrow> reader_loop_step api junk cn = Some cn' \<Longrightarrow>
     reader_rank (cn_reader cn') < reader_rank (cn_reader cn)"
  by (cases "cn_reader cn") (auto split: if_splits bind_splits)

lemma rank_monotone:
  assumes "conn_step api app cn cn'" and "m_stopRequested cn"
  shows "reader_rank (cn_reader cn') \<le> reader_rank (cn_reader cn)"
  using assms(1)
proof cases
  case (conn_reader junk)
  then show ?thesis using reader_rank_decreases[OF assms(2)] by fastforce
next
  case conn_destructor
  then show ?thesis by (cases "cn_destructor cn") (auto split: if_splits)
qed simp_all

section \<open>Properties\<close>

text \<open>
  C14. Shutting down never hangs: in every reachable state in which the destructor has written to the
  pipe, the reader is not blocked in \<open>poll\<close>; unless it is done it can take a step (its only way not
  to is a malformed message of the daemon), which brings it closer to its end, no step of any thread
  takes it further away, and once it is done \<open>join\<close> returns.
\<close>

theorem shutdown_terminates:
  assumes "conn_reachable api app st cn" and "cn_destructor cn = PipeWritten"
  shows "(cn_reader cn = ReaderDone \<longrightarrow> destructor_step cn = Some (cn\<lparr>cn_destructor := Joined\<rparr>)) \<and>
    (cn_reader cn \<noteq> ReaderDone \<longrightarrow>
       (\<exists>cn'. reader_loop_step api junk cn = Some cn' \<and> reader_rank (cn_reader cn') < reader_rank (cn_reader cn)) \<or>
       handleIncomingMessage api True (Some (cn_fifo cn)) junk (cn_daemon cn) = None) \<and>
    (\<forall>cn'. conn_step api app cn cn' \<longrightarrow> reader_rank (cn_reader cn') \<le> reader_rank (cn_reader cn)) \<and>
    reader_rank (cn_reader cn) \<le> 2"
proof -
  note inv = conn_reachable_inv[OF assms(1)]
  with assms(2) have stop: "m_stopRequested cn" "poll_ready cn" by (auto simp: conn_inv_def poll_ready_def)
  have step: "\<exists>cn'. reader_loop_step api junk cn = Some cn'"
    if "cn_reader cn \<noteq> ReaderDone" "handleIncomingMessage api True (Some (cn_fifo cn)) junk (cn_daemon cn) \<noteq> None"
    using that stop by (cases "cn_reader cn"; cases "cn_fifo cn") (auto simp: handleIncomingMessage_def)
  have "reader_rank (cn_reader cn) \<le> 2" by (cases "cn_reader cn") simp_all
  moreover have "cn_reader cn = ReaderDone \<longrightarrow> destructor_step cn = Some (cn\<lparr>cn_destructor := Joined\<rparr>)"
    using assms(2) by simp
  ultimately show ?thesis
    using step reader_rank_decreases[OF stop(1)] rank_monotone[OF _ stop(1)] by blast
qed

lemma sample_shutdown:
  "conn_reachable api app st ((connection_new st)\<lparr>cn_reader := ReaderPoll, m_stopRequested := True,
     cn_stopPipe := [1], cn_destructor := PipeWritten\<rparr>)"
proof -
  let ?c0 = "connection_new st"
  let ?c1 = "?c0\<lparr>cn_reader := ReaderPoll\<rparr>"
  let ?c2 = "?c1\<lparr>m_stopRequested := True, cn_destructor := StopSet\<rparr>"
  let ?c3 = "?c2\<lparr>cn_stopPipe := [1], cn_destructor := PipeWritten\<rparr>"
  have "conn_step api app ?c0 ?c1" by (rule conn_reader[of _ "[]"]) (simp add: connection_new_def)
  moreover have "conn_step api app ?c1 ?c2" by (rule conn_destructor) (simp add: connection_new_def)
  moreover have "conn_step api app ?c2 ?c3" by (rule conn_destructor) (simp add: connection_new_def)
  ultimately have "conn_reachable api app st ?c3" by (blast intro: conn_new conn_next)
  then show ?thesis by (simp add: connection_new_def)
qed

theorem shutdown_terminates_witness:
  "\<exists>cn cn'. conn_reachable dlt_documented sample_app (\<lambda>_. sample_ctx) cn \<and> cn_reader cn = ReaderPoll \<and>
    reader_loop_step dlt_documented [] cn = Some cn' \<and> reader_rank (cn_reader cn') < 2"
proof -
  let ?cn = "(connection_new (\<lambda>_. sample_ctx))\<lparr>cn_reader := ReaderPoll, m_stopRequested := True,
     cn_stopPipe := [1], cn_destructor := PipeWritten\<rparr>"
  have "handleIncomingMessage dlt_documented True (Some (cn_fifo ?cn)) [] (cn_daemon ?cn) \<noteq> None"
    by (simp add: handleIncomingMessage_def connection_new_def incoming_loop.simps)
  with shutdown_terminates[OF sample_shutdown[of dlt_documented sample_app "\<lambda>_. sample_ctx"], of "[]"]
    sample_shutdown[of dlt_documented sample_app "\<lambda>_. sample_ctx"] show ?thesis
    by (auto simp del: reader_loop_step.simps)
qed

text \<open>
  C15. The order of the destructor: in every reachable state the reader has ended only after the stop
  was requested; the destructor returns only after the reader has ended, and from then on no step of
  anyone touches the destroyed connection's contexts; and whatever interleaving of the reader, the
  daemon and the program happened, contexts registered more than once included, the position a
  registered context knows is one the vector has it at.
\<close>

theorem destroyed_after_reader:
  assumes "conn_reachable api app st cn"
  shows "(cn_reader cn = ReaderDone \<longrightarrow> m_stopRequested cn) \<and>
    (cn_destructor cn = Joined \<longrightarrow> cn_reader cn = ReaderDone \<and>
       (\<forall>cn'. conn_step api app cn cn' \<longrightarrow> cn_destructor cn' = Joined \<and> cn_daemon cn' = cn_daemon cn)) \<and>
    (\<forall>k \<in> set (m_contexts (cn_daemon cn)). \<exists>i < length (m_contexts (cn_daemon cn)).
       m_contexts (cn_daemon cn) ! i = k \<and> log_level_pos (dm_store (cn_daemon cn) k) = int i)"
  using conn_reachable_inv[OF assms] by (auto simp: conn_inv_def dm_inv_def conn_step_simps)

text \<open>
  A whole life: the context is registered twice, the reader polls, the destructor stops it through the
  flag and the pipe, and joins.
\<close>

lemma sample_registered_again:
  "\<exists>pos dm. registerContext dlt_documented os_down (Some sample_app) 3 sample_registered = Some (pos, dm) \<and>
     m_contexts dm = [3, 3]"
  by (simp add: registerContext_def initDaemonConnection_def isDaemonConnected_def disconnectedFromDaemonFd_def
      os_down_def sample_registered_def Let_def)

lemma sample_joined:
  "\<exists>cn. conn_reachable dlt_documented sample_app (\<lambda>_. sample_ctx) cn \<and> cn_destructor cn = Joined \<and>
     m_contexts (cn_daemon cn) = [3, 3]"
proof -
  let ?step = "conn_step dlt_documented sample_app"
  let ?c0 = "connection_new (\<lambda>_. sample_ctx)"
  obtain pos dm where again: "registerContext dlt_documented os_down (Some sample_app) 3 sample_registered = Some (pos, dm)"
    "m_contexts dm = [3, 3]" using sample_registered_again by blast
  let ?c1 = "?c0\<lparr>cn_daemon := sample_registered\<rparr>"
  let ?c2 = "?c1\<lparr>cn_daemon := dm\<rparr>"
  let ?c3 = "?c2\<lparr>cn_reader := ReaderPoll\<rparr>"
  let ?c4 = "?c3\<lparr>m_stopRequested := True, cn_destructor := StopSet\<rparr>"
  let ?c5 = "?c4\<lparr>cn_stopPipe := [1], cn_destructor := PipeWritten\<rparr>"
  let ?c6 = "?c5\<lparr>cn_reader := ReaderTest\<rparr>"
  let ?c7 = "?c6\<lparr>cn_reader := ReaderDone\<rparr>"
  let ?c8 = "?c7\<lparr>cn_destructor := Joined\<rparr>"
  have first: "dm_step dlt_documented sample_app (cn_daemon ?c0) sample_registered"
    using step_register[OF sample_register_step] by (simp add: connection_new_def)
  have second: "dm_step dlt_documented sample_app (cn_daemon ?c1) dm"
    using step_register[OF again(1)] by simp
  have "?step ?c0 ?c1" by (rule conn_program[OF _ first]) (simp add: connection_new_def)
  moreover have "?step ?c1 ?c2" by (rule conn_program[OF _ second]) (simp add: connection_new_def)
  moreover have "?step ?c2 ?c3" by (rule conn_reader[of _ "[]"]) (simp add: connection_new_def)
  moreover have "?step ?c3 ?c4" "?step ?c4 ?c5" by (rule conn_destructor, simp add: connection_new_def)+
  moreover have "?step ?c5 ?c6" "?step ?c6 ?c7"
    by (rule conn_reader[of _ "[]"], simp add: connection_new_def poll_ready_def handleIncomingMessage_def)+
  moreover have "?step ?c7 ?c8" by (rule conn_destructor) (simp add: connection_new_def)
  ultimately have "conn_reachable dlt_documented sample_app (\<lambda>_. sample_ctx) ?c8" by (meson conn_new conn_next)
  moreover have "cn_destructor ?c8 = Joined \<and> m_contexts (cn_daemon ?c8) = [3, 3]" by (simp add: again(2))
  ultimately show ?thesis by blast
qed

theorem destroyed_after_reader_witness:
  "\<exists>cn. conn_reachable dlt_documented sample_app (\<lambda>_. sample_ctx) cn \<and> cn_destructor cn = Joined \<and>
     cn_reader cn = ReaderDone \<and> m_stopRequested cn \<and> m_contexts (cn_daemon cn) = [3, 3] \<and>
     (\<exists>i < 2. log_level_pos (dm_store (cn_daemon cn) 3) = int i) \<and>
     (\<forall>cn'. conn_step dlt_documented sample_app cn cn' \<longrightarrow> cn_daemon cn' = cn_daemon cn)"
proof -
  obtain cn where cn: "conn_reachable dlt_documented sample_app (\<lambda>_. sample_ctx) cn" "cn_destructor cn = Joined"
    "m_contexts (cn_daemon cn) = [3, 3]" using sample_joined by blast
  from destroyed_after_reader[OF cn(1)] cn show ?thesis
    by (intro exI[of _ cn]) (auto simp: numeral_2_eq_2)
qed

text \<open>
  C16. The application's FIFO: \<open>init\<close> either makes the connection ready, with the reader started, on
  the FIFO \<open>/tmp/dltpipes/dlt<pid>\<close> that replaces any stale one, or ends the process; it is ready
  exactly when the directory can be had and the FIFO be made, (with assertions) given its rights,
  and opened; a second \<open>init\<close> makes no call.
\<close>

theorem fifo_ready_or_abort:
  assumes "28 < path_max"
  shows "(if fifo_answers_good ndebug fd_init ans
     then \<exists>s. connection_init ndebug fd_init path_max pid ans fifo_new = Some (Ready s) \<and>
       m_initialized s \<and> reader_started s \<and> m_appFileDescriptor s = ans_open ans \<and>
       fs_calls s = dir_calls ans @ [Unlink (fifo_name pid), Mkfifo (fifo_name pid) FIFO_MODE,
         Chmod (fifo_name pid) FIFO_MODE, OpenFifo (fifo_name pid)] \<and>
       connection_init ndebug fd_init path_max pid ans' s = Some (Ready s)
     else \<exists>s. connection_init ndebug fd_init path_max pid ans fifo_new = Some (Aborted s) \<and>
       \<not> m_initialized s \<and> \<not> reader_started s)"
proof -
  let ?dir = "ans_mkdir ans = DirExists \<or> ans_mkdir ans = DirCreated \<and> ans_chmod_dir ans"
  let ?s1 = "fifo_new\<lparr>fs_calls := fs_calls fifo_new @ dir_calls ans\<rparr>"
  have run: "connection_init ndebug fd_init path_max pid ans fifo_new =
      Some (make_fifo ndebug fd_init (fifo_name pid) ans ?s1)" if ?dir
    using that fifo_filename[OF assms, of pid "\<lambda>f. Some (make_fifo ndebug fd_init f ans ?s1)"]
    by (simp add: connection_init_def make_base_dir_result fifo_new_def)
  have s1: "\<not> m_initialized ?s1" "\<not> reader_started ?s1" by (simp_all add: fifo_new_def)
  show ?thesis
  proof (cases "fifo_answers_good ndebug fd_init ans")
    case True
    then have "?dir" "ans_mkfifo ans" "ans_chmod_fifo ans \<or> ndebug" "ans_open ans \<noteq> fd_init"
      by (auto simp: fifo_answers_good_def)
    with run make_fifo_ready[of ans ndebug fd_init "fifo_name pid" ?s1] True show ?thesis
      by (fastforce simp: fifo_new_def connection_init_def)
  next
    case False
    then show ?thesis
    proof (cases ?dir)
      case True
      with False make_fifo_aborts[OF _ s1, of ans ndebug fd_init "fifo_name pid"] run show ?thesis
        by (auto simp: fifo_answers_good_def)
    qed (auto simp: connection_init_def make_base_dir_result fifo_new_def)
  qed
qed

theorem fifo_ready_or_abort_witness:
  "\<exists>s. connection_init False (- 1) 100 42 \<lparr>ans_mkdir = DirExists, ans_chmod_dir = True, ans_mkfifo = True,
      ans_chmod_fifo = True, ans_open = 5\<rparr> fifo_new = Some (Ready s) \<and> m_appFileDescriptor s = 5 \<and>
    last (fs_calls s) = OpenFifo (fifo_name 42)"
proof -
  let ?ans = "\<lparr>ans_mkdir = DirExists, ans_chmod_dir = True, ans_mkfifo = True, ans_chmod_fifo = True, ans_open = 5\<rparr>"
  show ?thesis
    using fifo_ready_or_abort[of 100 False "- 1" ?ans 42 ?ans] by (auto simp: fifo_answers_good_def)
qed

end
