(* ===== verification/Dlt_Statement.thy ===== *)
theory Dlt_Statement
  imports Log_Context
begin

text \<open>
  A whole log statement over the built-in DLT back end: registration and construction of the entry,
  the streamed values, the trailing source location and thread, and the message on the wire. This
  composes the front end (Log\_Context), the payload (Dlt\_Data) and the connection (Dlt\_Daemon).
\<close>

section \<open>What the payload operations leave alone\<close>

definition same_header :: "dlt_data \<Rightarrow> dlt_data \<Rightarrow> bool" where
  "same_header d d' \<longleftrightarrow> dd_enabled d' = dd_enabled d \<and> dd_dltLogLevel d' = dd_dltLogLevel d \<and>
     dd_messageCount d' = dd_messageCount d"

lemma same_header_refl [simp]: "same_header d d"
  by (simp add: same_header_def)

lemma same_header_trans: "same_header a b \<Longrightarrow> same_header b c \<Longrightarrow> same_header a c"
  by (simp add: same_header_def)

lemma same_header_ops:
  "same_header d (addMessageTooLargeIndication api d)" "same_header d (writeBuffer bs d)"
  "same_header d (writeType t d)" "same_header d (d\<lparr>dd_content := c\<rparr>)"
  "same_header d (snd (checkOverflow api n d))"
  by (simp_all add: same_header_def addMessageTooLargeIndication_def writeBuffer_def writeType_def
      checkOverflow_def Let_def)

lemma same_header_writeWithTypeInfo: "same_header d (writeWithTypeInfo api t v d)"
  by (simp add: writeWithTypeInfo_def same_header_def writeBuffer_def writeType_def checkOverflow_def
      addMessageTooLargeIndication_def Let_def)

lemma same_header_write_chars: "same_header d (write_chars api s d)"
  by (simp add: write_chars_def same_header_def writeBuffer_def writeType_def
      addMessageTooLargeIndication_def Let_def)

lemma same_header_writeFormatted: "dlt_writeFormatted api f args d = Some d' \<Longrightarrow> same_header d d'"
  by (auto simp: dlt_writeFormatted_def same_header_def writeBuffer_def writeType_def reserve_def
      addMessageTooLargeIndication_def Let_def split: bind_splits if_splits)

lemma same_header_do: "dlt_do api op d = Some d' \<Longrightarrow> same_header d d'"
proof (cases op)
  case (OpWrite hex v)
  assume "dlt_do api op d = Some d'"
  with OpWrite show ?thesis
    by (cases v) (auto simp: same_header_writeWithTypeInfo same_header_write_chars split: option.splits)
qed (simp add: same_header_writeFormatted)

lemma same_header_run: "dlt_run api ops d = Some d' \<Longrightarrow> same_header d d'"
proof (induction ops arbitrary: d)
  case (Cons op ops)
  then obtain d1 where "dlt_do api op d = Some d1" "dlt_run api ops d1 = Some d'"
    by (auto simp: bind_eq_Some_conv)
  with Cons.IH same_header_do same_header_trans show ?case by blast
qed simp

lemma dlt_run_append: "dlt_run api (xs @ ys) d = dlt_run api xs d \<bind> dlt_run api ys"
proof (induction xs arbitrary: d)
  case (Cons x xs)
  then show ?case by (cases "dlt_do api x d") simp_all
qed simp

section \<open>The trailing arguments\<close>

definition location_ops :: "LogInfo \<Rightarrow> log_op list" where
  "location_ops li = [OpWrite False (VView location_separator), OpWrite False (VView (fst (getFileName li)))] @
     (if m_lineNumber li \<noteq> -1 then [OpWrite False (VInt (word_of_int (m_lineNumber li)))] else []) @
     [OpWrite False (VView (m_prettyFunction li))]"

definition thread_ops :: "(int \<times> string) option \<Rightarrow> log_op list" where
  "thread_ops thread = (case thread of None \<Rightarrow> []
     | Some th \<Rightarrow> [OpWrite False (VView ''ThreadID''), OpWrite False (VInt (word_of_int (fst th))),
         OpWrite False (VView (snd th))])"

lemma dlt_finish_run:
  "dd_enabled d \<Longrightarrow> dlt_finish api sourceInfo thread li d =
     dlt_run api ((if sourceInfo then location_ops li else []) @ thread_ops thread) d"
  by (auto simp: dlt_finish_def dlt_write_location_def dlt_write_thread_def location_ops_def thread_ops_def
      dlt_run_append Let_def split: option.splits)

section \<open>Streaming into one DLT back end\<close>

lemma stream_dlt:
  "lc_contexts ctx = [DltCtx k] \<Longrightarrow> le_data e = [DltData d] \<Longrightarrow> dd_enabled d \<Longrightarrow>
   dlt_run (sr_api sr) (calls_ops (m_hexEnabled (le_li e)) calls) d = Some d' \<Longrightarrow>
   \<exists>h. stream_items sr ctx (pure_items calls) e w =
     Some (\<lparr>le_li = (le_li e)\<lparr>m_hexEnabled := h\<rparr>, le_data = [DltData d']\<rparr>, w)"
proof (induction calls arbitrary: e d)
  case Nil
  then show ?case by (intro exI[of _ "m_hexEnabled (le_li e)"]) simp
next
  case (Cons call calls)
  show ?case
  proof (cases call)
    case (CallSetHex on)
    let ?e = "e\<lparr>le_li := (le_li e)\<lparr>m_hexEnabled := on\<rparr>\<rparr>"
    from Cons.IH[of ?e d] Cons.prems CallSetHex show ?thesis by auto
  next
    case (CallWrite v)
    with Cons.prems(4) obtain d1 where d1: "dlt_do (sr_api sr) (OpWrite (m_hexEnabled (le_li e)) v) d = Some d1"
      "dlt_run (sr_api sr) (calls_ops (m_hexEnabled (le_li e)) calls) d1 = Some d'"
      by (auto simp: bind_eq_Some_conv)
    have "dd_enabled d1" using same_header_do[OF d1(1)] Cons.prems(3) by (simp add: same_header_def)
    with Cons.IH[of "e\<lparr>le_data := [DltData d1]\<rparr>" d1] Cons.prems d1 CallWrite show ?thesis by auto
  next
    case (CallFormatted f args)
    with Cons.prems(4) obtain d1 where d1: "dlt_do (sr_api sr) (OpFormatted f args) d = Some d1"
      "dlt_run (sr_api sr) (calls_ops (m_hexEnabled (le_li e)) calls) d1 = Some d'"
      by (auto simp: bind_eq_Some_conv)
    have "dd_enabled d1" using same_header_do[OF d1(1)] Cons.prems(3) by (simp add: same_header_def)
    with Cons.IH[of "e\<lparr>le_data := [DltData d1]\<rparr>" d1] Cons.prems d1 CallFormatted show ?thesis by auto
  qed
qed

section \<open>The message on the wire\<close>

text \<open>The message a statement sends: its arguments, its level, and the context's next counter.\<close>

definition statement_message :: "surroundings \<Rightarrow> LogLevel \<Rightarrow> dlt_ctx \<Rightarrow> dlt_arg list \<Rightarrow> byte list" where
  "statement_message sr level c as = concat (log_message (sr_api sr) (sr_os sr) c
     (dlt_data_new\<lparr>dd_content := enc_args (sr_api sr) as, dd_argsCount := word_of_nat (length as),
        dd_dltLogLevel := getDLTLogLevel (sr_api sr) level, dd_messageCount := dc_messageCount c\<rparr>))"

lemma log_message_cong:
  assumes "dd_content d' = dd_content d" "dd_argsCount d' = dd_argsCount d"
    "dd_dltLogLevel d' = dd_dltLogLevel d" "dd_messageCount d' = dd_messageCount d"
    and "extendedHeader c' = extendedHeader c"
  shows "log_message api os c' d' = log_message api os c d"
  using assms by (simp add: log_message_def standardheaderLen_def log_extended_header_def)

lemma dlt_flush_sends:
  assumes "isDaemonConnected dm" and "dd_enabled d" and "dlt_finish api sourceInfo thread li d = Some d'"
    and "writev_result os (dm_writes dm) = Some n"
    and "length (concat (log_message api os (dm_store dm k) d')) \<le> n"
  shows "dlt_flush api os s_app sourceInfo thread li k d dm = Some (dd_printed d', dm\<lparr>dm_writes := dm_writes dm + 1,
    dm_wire := dm_wire dm @ [concat (log_message api os (dm_store dm k) d')]\<rparr>)"
  using assms send_accepted[OF assms(1,4,5)]
  by (simp add: dlt_flush_def sendLog_def initDaemonConnection_def del: concat.simps)

lemma hex_getFileName [simp]: "fst (getFileName (li\<lparr>m_hexEnabled := h\<rparr>)) = fst (getFileName li)"
  by (simp add: getFileName_def Let_def split: option.split)

lemma location_ops_hex [simp]: "location_ops (li\<lparr>m_hexEnabled := h\<rparr>) = location_ops li"
  by (simp add: location_ops_def)

text \<open>The operations of a whole statement, in the order the message gets them.\<close>

definition statement_ops :: "surroundings \<Rightarrow> world \<Rightarrow> LogInfo \<Rightarrow> entry_call list \<Rightarrow> log_op list" where
  "statement_ops sr w li calls = calls_ops False calls @
     (if m_enableSourceCodeLocationInfo (w_process w) then location_ops li else []) @
     thread_ops (fst (ask_thread sr w))"

lemma dlt_entry_sends:
  assumes run: "dlt_run (sr_api sr) (statement_ops sr w li calls) d = Some d2" and en: "dd_enabled d"
    and up: "isDaemonConnected (w_daemon w)"
    and acc: "writev_result (sr_os sr) (dm_writes (w_daemon w)) = Some n"
      "length (concat (log_message (sr_api sr) (sr_os sr) (dm_store (w_daemon w) k) d2)) \<le> n"
    and ctx: "lc_contexts ctx = [DltCtx k]" and li: "\<not> m_hexEnabled li"
  shows "\<exists>w'. stream_items sr ctx (pure_items calls) \<lparr>le_li = li, le_data = [DltData d]\<rparr> w \<bind>
      (\<lambda>(e, w). entry_dtor sr ctx e w) = Some w' \<and>
    dm_wire (w_daemon w') = dm_wire (w_daemon w) @
      [concat (log_message (sr_api sr) (sr_os sr) (dm_store (w_daemon w) k) d2)] \<and>
    dm_store (w_daemon w') = dm_store (w_daemon w) \<and>
    w_printed w' = w_printed w @ stdout_part (dd_printed d2) @ fatal_message (m_level li) \<and>
    (w_aborted w' \<longleftrightarrow> w_aborted w \<or> m_level li = LvFatal)"
proof -
  let ?src = "m_enableSourceCodeLocationInfo (w_process w)"
  obtain th w1 where a: "ask_thread sr w = (th, w1)" by force
  note a' = ask_thread_same[OF a]
  from run obtain d1 where d1: "dlt_run (sr_api sr) (calls_ops False calls) d = Some d1"
    "dlt_run (sr_api sr) ((if ?src then location_ops li else []) @ thread_ops th) d1 = Some d2"
    using a by (auto simp: statement_ops_def dlt_run_append[of _ "calls_ops False calls"] bind_eq_Some_conv)
  have en1: "dd_enabled d1" using same_header_run[OF d1(1)] en by (simp add: same_header_def)
  from stream_dlt[of ctx k "\<lparr>le_li = li, le_data = [DltData d]\<rparr>" d sr calls d1 w] ctx en d1(1) li
  obtain h where st: "stream_items sr ctx (pure_items calls) \<lparr>le_li = li, le_data = [DltData d]\<rparr> w =
      Some (\<lparr>le_li = li\<lparr>m_hexEnabled := h\<rparr>, le_data = [DltData d1]\<rparr>, w)" by auto
  have "dlt_finish (sr_api sr) ?src th (li\<lparr>m_hexEnabled := h\<rparr>) d1 = Some d2"
    using d1(2) by (cases ?src) (simp_all add: dlt_finish_run[OF en1])
  from dlt_flush_sends[OF up en1 this acc]
  have fl: "dlt_flush (sr_api sr) (sr_os sr) s_app ?src th (li\<lparr>m_hexEnabled := h\<rparr>) k d1 (w_daemon w) =
      Some (dd_printed d2, (w_daemon w)\<lparr>dm_writes := dm_writes (w_daemon w) + 1, dm_wire := dm_wire (w_daemon w) @
        [concat (log_message (sr_api sr) (sr_os sr) (dm_store (w_daemon w) k) d2)]\<rparr>)" for s_app .
  let ?w2 = "w1\<lparr>w_daemon := (w_daemon w)\<lparr>dm_writes := dm_writes (w_daemon w) + 1, dm_wire := dm_wire (w_daemon w) @
        [concat (log_message (sr_api sr) (sr_os sr) (dm_store (w_daemon w) k) d2)]\<rparr>,
        w_printed := w_printed w1 @ stdout_part (dd_printed d2)\<rparr>"
  have same: "w_daemon w1 = w_daemon w" "w_process w1 = w_process w" "w_printed w1 = w_printed w" "w_aborted w1 = w_aborted w"
    using a' by (simp_all add: same_world_def)
  have "data_dtor sr (DltCtx k, DltData d1) (li\<lparr>m_hexEnabled := h\<rparr>) w = Some (li\<lparr>m_hexEnabled := h\<rparr>, ?w2)"
    using en1 a fl same by (simp add: Let_def)
  then show ?thesis
    using ctx same by (simp add: st entry_dtor_def LogInfo_dtor_def fatal_message_def del: data_dtor.simps)
qed

section \<open>Properties\<close>

text \<open>
  C5. A log statement on a registered, enabled DLT context with the daemon connected: it returns, and
  exactly one message reaches the wire, with the identifiers of the context, the next message counter,
  the level, and a payload that a reader decodes into the statement's arguments: the streamed values,
  then the source location and thread when those are switched on. The terminal shows the warning of a
  truncated message exactly when the message is closed, and after a fatal one the process ends.
\<close>

theorem dlt_statement_end_to_end:
  assumes "sr_api sr = dlt_documented" and "m_bRegistered ctx" and "lc_contexts ctx = [DltCtx k]"
    and "dlt_isEnabled dlt_documented (dm_store (w_daemon w) k) level" and "isDaemonConnected (w_daemon w)"
    and "spec_run dlt_documented (statement_ops sr w (LogInfo_ctor level path line function) calls) ([], False) =
           Some (as, closed)"
    and "writev_result (sr_os sr) (dm_writes (w_daemon w)) = Some n"
    and "length (statement_message sr level (dm_store (w_daemon w) k) as) \<le> n"
  shows "\<exists>w'. log_with_context sr level path line function (pure_items calls) ctx w = Some (ctx, w') \<and>
    dm_wire (w_daemon w') = dm_wire (w_daemon w) @ [statement_message sr level (dm_store (w_daemon w) k) as] \<and>
    dec_args (enc_args dlt_documented as) = Some as \<and>
    dc_messageCount (dm_store (w_daemon w') k) = dc_messageCount (dm_store (w_daemon w) k) + 1 \<and>
    w_printed w' = w_printed w @ stdout_part (too_large_warning closed) @ fatal_message level \<and>
    (w_aborted w' \<longleftrightarrow> w_aborted w \<or> level = LvFatal)"
proof -
  let ?li = "LogInfo_ctor level path line function" and ?c = "dm_store (w_daemon w) k"
  have li: "m_level ?li = level" "\<not> m_hexEnabled ?li" by (simp_all add: LogInfo_ctor_def)
  obtain d0 c1 where i: "dlt_init dlt_documented ?c ?li dlt_data_new = (d0, c1)" by force
  note c1 = dlt_init_ctx[OF i]
  have d0: "dd_content d0 = []" "dd_argsCount d0 = 0" "\<not> dd_isFull d0" "dd_dltLogLevel d0 = getDLTLogLevel dlt_documented level"
    "told d0"
    using i li by (auto simp: told_defs dlt_init_def messageCounter_def dlt_data_new_def Let_def)
  let ?w1 = "w\<lparr>w_daemon := (w_daemon w)\<lparr>dm_store := (dm_store (w_daemon w))(k := c1)\<rparr>\<rparr>"
  have ops: "statement_ops sr ?w1 ?li calls = statement_ops sr w ?li calls"
    by (simp add: statement_ops_def ask_thread_def split: prod.split)
  have spec: "spec_run (sr_api sr) (statement_ops sr ?w1 ?li calls) ([], False) = Some (as, closed)"
    using assms(1,6) ops by simp
  from dlt_run_rel[OF dlt_new_rel[OF d0(1-3)] spec] obtain d2 where
    d2: "dlt_run (sr_api sr) (statement_ops sr ?w1 ?li calls) d0 = Some d2" "dlt_rel (sr_api sr) d2 (as, closed)" by blast
  have warn: "dd_printed d2 = too_large_warning closed"
    using told_dlt_run[OF d0(5) d2(1)] d2(2) by (simp add: told_def dlt_rel_def)
  have msg: "concat (log_message (sr_api sr) (sr_os sr) (dm_store (w_daemon ?w1) k) d2) = statement_message sr level ?c as"
    unfolding statement_message_def
    using d2(2) same_header_run[OF d2(1)] c1 d0(4) assms(1)
    by (intro arg_cong[where f = concat] log_message_cong) (simp_all add: dlt_rel_def same_header_def)
  have en: "dd_enabled d0" using c1(3) assms(4) li by simp
  have up: "isDaemonConnected (w_daemon ?w1)" using assms(5) by (simp add: isDaemonConnected_def)
  have acc: "writev_result (sr_os sr) (dm_writes (w_daemon ?w1)) = Some n"
    "length (concat (log_message (sr_api sr) (sr_os sr) (dm_store (w_daemon ?w1) k) d2)) \<le> n"
    unfolding msg using assms(7,8) by simp_all
  obtain w' where w': "stream_items sr ctx (pure_items calls) \<lparr>le_li = ?li, le_data = [DltData d0]\<rparr> ?w1 \<bind>
      (\<lambda>(e, w). entry_dtor sr ctx e w) = Some w'" "dm_store (w_daemon w') = dm_store (w_daemon ?w1)"
    "dm_wire (w_daemon w') = dm_wire (w_daemon w) @ [statement_message sr level ?c as]"
    "w_printed w' = w_printed w @ stdout_part (too_large_warning closed) @ fatal_message level"
    "w_aborted w' \<longleftrightarrow> w_aborted w \<or> level = LvFatal"
    using dlt_entry_sends[OF d2(1) en up acc assms(3) li(2)] unfolding msg li warn by auto
  have "createLog sr level path line function ctx w = Some (\<lparr>le_li = ?li, le_data = [DltData d0]\<rparr>, ?w1)"
    using assms(1,3) i by (simp add: createLog_def LogEntry_ctor_def Let_def)
  moreover have "\<exists>c \<in> set (lc_contexts ctx). ctx_isEnabled sr w level c"
    using assms(1,3,4) by simp
  ultimately have "log_with_context sr level path line function (pure_items calls) ctx w = Some (ctx, w')"
    using w'(1) enabled_statement[OF assms(2)]
    by (auto simp: bind_eq_Some_conv split: prod.splits)
  moreover have "dec_args (enc_args dlt_documented as) = Some as"
    using spec_run_wf[OF assms(6)] by (intro dec_enc_args) simp
  ultimately show ?thesis using w' c1(1) by simp
qed

definition sample_connected :: world where
  "sample_connected = sample_world\<lparr>w_daemon := sample_registered\<lparr>m_daemonFileDescriptor := 7\<rparr>\<rparr>"

lemma sample_message_length:
  "length (statement_message (sample_surroundings\<lparr>sr_os := os_up {}\<rparr>) LvInfo
     (dm_store (w_daemon sample_connected) 3) [DltString ''ok'']) \<le> 100000"
  by (simp add: statement_message_def log_message_def DltUserHeader_def DltStandardHeader_def
      DltStandardHeaderExtra_def enc_DltExtendedHeader_def log_extended_header_def enc_args_simps length_enc_arg
      dlt_documented_def sample_surroundings_def sample_connected_def sample_registered_def sample_ctx_def
      dlt_ctx_new_def DltExtendedHeader_init_def id_array_def dlt_data_new_def Let_def)

theorem dlt_statement_end_to_end_witness:
  "\<exists>w'. log_with_context (sample_surroundings\<lparr>sr_os := os_up {}\<rparr>) LvInfo ''a.c'' 7 ''f''
      (pure_items [CallWrite (VView ''ok'')]) (sample_log_ctx [DltCtx 3] True) sample_connected =
      Some (sample_log_ctx [DltCtx 3] True, w') \<and>
    dm_wire (w_daemon w') = [statement_message (sample_surroundings\<lparr>sr_os := os_up {}\<rparr>) LvInfo
      (dm_store (w_daemon sample_connected) 3) [DltString ''ok'']] \<and> \<not> w_aborted w'"
proof -
  let ?sr = "sample_surroundings\<lparr>sr_os := os_up {}\<rparr>" and ?w = sample_connected
  have th: "fst (ask_thread ?sr ?w) = None" "\<not> m_enableSourceCodeLocationInfo (w_process ?w)"
    by (simp_all add: ask_thread_def sample_connected_def sample_world_def process_init_def)
  have spec: "spec_run dlt_documented (statement_ops ?sr ?w (LogInfo_ctor LvInfo ''a.c'' 7 ''f'')
      [CallWrite (VView ''ok'')]) ([], False) = Some ([DltString ''ok''], False)"
    by (simp add: statement_ops_def th thread_ops_def room_def enc_args_simps size_constants)
  have en: "dlt_isEnabled dlt_documented (dm_store (w_daemon ?w) 3) LvInfo" "isDaemonConnected (w_daemon ?w)"
    "dm_wire (w_daemon ?w) = []" "\<not> w_aborted ?w" "sr_api ?sr = dlt_documented"
    "writev_result (sr_os ?sr) (dm_writes (w_daemon ?w)) = Some 100000"
    by (simp_all add: dlt_isEnabled_def sample_connected_def sample_registered_def sample_ctx_def dlt_ctx_new_def
        dlt_documented_def isDaemonConnected_def disconnectedFromDaemonFd_def sample_world_def
        sample_surroundings_def os_up_def)
  have ctx: "m_bRegistered (sample_log_ctx [DltCtx 3] True)" "lc_contexts (sample_log_ctx [DltCtx 3] True) = [DltCtx 3]"
    by (simp_all add: sample_log_ctx_def)
  from dlt_statement_end_to_end[OF en(5) ctx en(1,2) spec en(6) sample_message_length] en(3,4)
  show ?thesis by auto
qed

end
