(* ===== verification/Hex_Dump.thy ===== *)
theory Hex_Dump
  imports Printf
begin

unbundle bit_operations_syntax

text \<open>
  The two hexadecimal dumps of the program: \<open>byteArrayToString\<close> of \<open>src/ivi-logging.cpp\<close>, which
  writes into a static buffer of 1024 characters, and \<open>binaryToHex\<close> of
  \<open>src/ivi-logging-dltcpp.cpp\<close>, which writes into a thread-local one of 65535. Every store is
  checked against the size of the buffer (\<open>put_at\<close>), so \<open>None\<close> is a buffer overflow.
\<close>

section \<open>Definitions\<close>

fun hex_fill :: "byte list \<Rightarrow> nat \<Rightarrow> mem \<Rightarrow> (nat \<times> mem) option" where
  "hex_fill [] dest m = Some (dest, m)"
| "hex_fill (b # bs) dest m = do {
     m \<leftarrow> put_at dest (hexcode ! unat (drop_bit 4 b)) m;
     m \<leftarrow> put_at (dest + 1) (hexcode ! unat (b AND 0xF)) m;
     m \<leftarrow> put_at (dest + 2) (CHR '' '') m;
     hex_fill bs (dest + 3) m }"

definition TEXT_BUFFER_SIZE :: nat where "TEXT_BUFFER_SIZE = 1024"

definition byteArrayToString :: "mem \<Rightarrow> byte list \<Rightarrow> string option" where
  "byteArrayToString textBuffer buffer = (
     let len = (if length buffer + 1 > TEXT_BUFFER_SIZE div 3 then TEXT_BUFFER_SIZE div 3
                else length buffer)
     in do {
       (dest, m) \<leftarrow> hex_fill (take len buffer) 0 textBuffer;
       m \<leftarrow> put_at dest NUL m;
       c_string m })"

definition printableAscii :: "byte \<Rightarrow> char" where
  "printableAscii c = (if sint c > 32 \<and> sint c < 126 then char_of (unat c) else CHR ''.'')"

fun ascii_fill :: "byte list \<Rightarrow> nat \<Rightarrow> mem \<Rightarrow> (nat \<times> mem) option" where
  "ascii_fill [] dest m = Some (dest, m)"
| "ascii_fill (b # bs) dest m = do {
     m \<leftarrow> put_at dest (printableAscii b) m;
     m \<leftarrow> put_at (dest + 1) (CHR '' '') m;
     ascii_fill bs (dest + 2) m }"

definition HEX_OUT_SIZE :: nat where "HEX_OUT_SIZE = 65535"

definition binaryToHex :: "mem \<Rightarrow> byte list \<Rightarrow> string option" where
  "binaryToHex out inSt = do {
     (i, m) \<leftarrow> hex_fill inSt 0 out;
     m \<leftarrow> put_at i (CHR '' '') m;
     m \<leftarrow> put_at (i + 1) (CHR ''|'') m;
     m \<leftarrow> put_at (i + 2) (CHR '' '') m;
     (i, m) \<leftarrow> ascii_fill inSt (i + 3) m;
     m \<leftarrow> put_at i NUL m;
     c_string m }"

section \<open>Reference text\<close>

definition hex_byte :: "byte \<Rightarrow> string" where
  "hex_byte b = [hexcode ! unat (drop_bit 4 b), hexcode ! unat (b AND 0xF), CHR '' '']"

definition ascii_byte :: "byte \<Rightarrow> string" where
  "ascii_byte b = [printableAscii b, CHR '' '']"

fun hex_parse :: "string \<Rightarrow> byte list" where
  "hex_parse (h # l # s # cs) =
     word_of_nat (16 * char_digit h + char_digit l) # hex_parse cs"
| "hex_parse _ = []"

lemma nibbles: "unat (drop_bit 4 b) = unat b div 16" "unat (b AND 0xF) = unat b mod 16" for b :: byte
proof -
  show "unat (drop_bit 4 b) = unat b div 16"
    by (simp only: unat_drop_bit_eq) (simp add: drop_bit_eq_div)
  have low: "b AND 0xF = take_bit 4 b" by (simp add: take_bit_eq_mask mask_eq_exp_minus_1)
  show "unat (b AND 0xF) = unat b mod 16"
    unfolding low unsigned_take_bit_eq by (simp add: take_bit_eq_mod)
qed

lemma unat_byte_less: "unat (b :: byte) < 256"
  by (rule order.strict_trans2[OF unsigned_less]) simp

lemma hex_byte_eq: "hex_byte b = [digit_char (unat b div 16), digit_char (unat b mod 16), CHR '' '']"
  using unat_byte_less[of b] by (simp add: hex_byte_def nibbles digit_char_def)

lemma hex_parse_hex_bytes: "hex_parse (concat (map hex_byte bs)) = bs"
proof (induction bs)
  case (Cons b bs)
  have "unat b div 16 < 16" "unat b mod 16 < 16" using unat_byte_less[of b] by auto
  then have "16 * char_digit (digit_char (unat b div 16)) + char_digit (digit_char (unat b mod 16)) = unat b"
    by (simp add: char_digit_digit_char)
  with Cons show ?case by (simp add: hex_byte_eq)
qed simp

lemma length_hex_bytes: "length (concat (map hex_byte bs)) = 3 * length bs"
  by (induction bs) (simp_all add: hex_byte_def)

lemma nul_free_hex_bytes: "nul_free (concat (map hex_byte bs))"
  by (induction bs) (simp_all add: hex_byte_eq)

lemma length_ascii_bytes: "length (concat (map ascii_byte bs)) = 2 * length bs"
  by (induction bs) (simp_all add: ascii_byte_def)

lemma nul_free_ascii_bytes: "nul_free (concat (map ascii_byte bs))"
proof (induction bs)
  case (Cons b bs)
  have "printableAscii b \<noteq> NUL"
  proof (cases "sint b > 32 \<and> sint b < 126")
    case True
    have "char_of (unat b) \<noteq> NUL"
    proof
      assume "char_of (unat b) = NUL"
      then have "of_char (char_of (unat b) :: char) = (of_char NUL :: nat)" by simp
      then have "unat b = 0" using unat_byte_less[of b] by simp
      then have "b = 0" by (simp add: unat_eq_zero)
      with True show False by simp
    qed
    then show ?thesis by (simp add: printableAscii_def)
  next
    case False
    then show ?thesis unfolding printableAscii_def if_not_P[OF False] by simp
  qed
  with Cons show ?case by (simp add: ascii_byte_def)
qed simp

section \<open>The loops against the reference\<close>

lemma hex_fill_ok:
  "dest + 3 * length bs \<le> length m \<Longrightarrow>
     hex_fill bs dest m = Some (dest + 3 * length bs, blit m dest (concat (map hex_byte bs)))"
proof (induction bs arbitrary: dest m)
  case (Cons b bs)
  then show ?case
    by (simp add: put_at_def hex_byte_def blit_update add.commute[of dest] numeral_3_eq_3)
qed simp

lemma ascii_fill_ok:
  "dest + 2 * length bs \<le> length m \<Longrightarrow>
     ascii_fill bs dest m = Some (dest + 2 * length bs, blit m dest (concat (map ascii_byte bs)))"
proof (induction bs arbitrary: dest m)
  case (Cons b bs)
  then show ?case
    by (simp add: put_at_def ascii_byte_def blit_update)
qed simp

lemma hex_fill_overflow: "length m < dest + 3 * length bs \<Longrightarrow> dest \<le> length m \<Longrightarrow> hex_fill bs dest m = None"
proof (induction bs arbitrary: dest m)
  case (Cons b bs)
  then show ?case by (auto simp: put_at_def bind_eq_None_conv)
qed simp

lemma ascii_fill_full:
  "length m < dest + 2 * length bs + 1 \<Longrightarrow> ascii_fill bs dest m = Some (i, m') \<Longrightarrow>
     put_at i c m' = None"
proof (induction bs arbitrary: dest m)
  case (Cons b bs)
  let ?m = "m[dest := printableAscii b, dest + 1 := CHR '' '']"
  have "ascii_fill bs (dest + 2) ?m = Some (i, m')"
    using Cons.prems(2) by (simp add: put_at_def split: if_splits)
  moreover have "length ?m < dest + 2 + 2 * length bs + 1" using Cons.prems(1) by simp
  ultimately show ?case by (intro Cons.IH)
qed (simp add: put_at_def)

lemma byteArrayToString_eq:
  assumes "length textBuffer = TEXT_BUFFER_SIZE"
  shows "byteArrayToString textBuffer bs = Some (concat (map hex_byte (take 341 bs)))"
proof -
  let ?len = "if length bs + 1 > TEXT_BUFFER_SIZE div 3 then TEXT_BUFFER_SIZE div 3 else length bs"
  have len: "take ?len bs = take 341 bs" by (auto simp: TEXT_BUFFER_SIZE_def)
  let ?h = "concat (map hex_byte (take 341 bs))"
  have bound: "length ?h < length textBuffer"
    by (simp only: length_hex_bytes assms TEXT_BUFFER_SIZE_def) simp
  have "hex_fill (take 341 bs) 0 textBuffer = Some (length ?h, blit textBuffer 0 ?h)"
    using bound by (subst hex_fill_ok) (simp_all add: length_hex_bytes)
  moreover have "put_at (length ?h) NUL (blit textBuffer 0 ?h) = Some (blit textBuffer 0 (?h @ [NUL]))"
    using bound blit_append[of 0 ?h textBuffer "[NUL]"]
    by (simp add: put_at_def list_update_blit)
  moreover have "c_string (blit textBuffer 0 (?h @ [NUL])) = Some ?h"
    by (simp add: blit_def nul_free_hex_bytes)
  ultimately show ?thesis
    unfolding byteArrayToString_def Let_def len by simp
qed

lemma binaryToHex_eq:
  assumes "length out = HEX_OUT_SIZE" and "5 * length bs + 4 \<le> HEX_OUT_SIZE"
  shows "binaryToHex out bs =
    Some (concat (map hex_byte bs) @ '' | '' @ concat (map ascii_byte bs))"
proof -
  let ?h = "concat (map hex_byte bs)" and ?a = "concat (map ascii_byte bs)"
  have lens: "length ?h = 3 * length bs" "length ?a = 2 * length bs"
    by (rule length_hex_bytes length_ascii_bytes)+
  define m where "m = blit out 0 ?h"
  have m: "length m = length out" using assms lens by (simp add: m_def)
  have h: "hex_fill bs 0 out = Some (length ?h, m)"
    using assms lens by (simp add: hex_fill_ok m_def)
  define m3 where "m3 = blit out 0 (?h @ '' | '')"
  have sep: "m[length ?h := CHR '' '', length ?h + 1 := CHR ''|'', length ?h + 2 := CHR '' ''] = m3"
    using assms lens blit_append[of 0 ?h out "'' | ''"] m
    by (subst list_update3_blit) (simp_all add: m3_def m_def)
  have m3: "length m3 = length out" using assms lens by (simp add: m3_def)
  have a: "ascii_fill bs (length ?h + 3) m3 = Some (length ?h + 3 + length ?a, blit out 0 (?h @ '' | '' @ ?a))"
    using assms lens m3 blit_append[of 0 "?h @ '' | ''" out ?a]
    by (subst ascii_fill_ok) (simp_all add: m3_def numeral_3_eq_3)
  have fin: "put_at (length ?h + 3 + length ?a) NUL (blit out 0 (?h @ '' | '' @ ?a))
      = Some (blit out 0 ((?h @ '' | '' @ ?a) @ [NUL]))"
    using assms lens blit_append[of 0 "?h @ '' | '' @ ?a" out "[NUL]"]
    by (simp add: put_at_def list_update_blit numeral_3_eq_3)
  have str: "c_string (blit out 0 ((?h @ '' | '' @ ?a) @ [NUL])) = Some (?h @ '' | '' @ ?a)"
    using c_string_append_NUL[of "?h @ '' | '' @ ?a"]
    by (simp add: blit_def nul_free_hex_bytes nul_free_ascii_bytes)
  have "put_at (length ?h) (CHR '' '') m = Some (m[length ?h := CHR '' ''])"
    "put_at (length ?h + 1) (CHR ''|'') (m[length ?h := CHR '' ''])
      = Some (m[length ?h := CHR '' '', length ?h + 1 := CHR ''|''])"
    "put_at (length ?h + 2) (CHR '' '') (m[length ?h := CHR '' '', length ?h + 1 := CHR ''|''])
      = Some m3"
    using assms lens m sep by (simp_all add: put_at_def)
  then show ?thesis
    unfolding binaryToHex_def by (simp only: h bind.bind_lunit case_prod_conv a fin str)
qed

text \<open>
  One byte more than fits and the dump runs off its buffer: 13106 bytes are the most, while a
  message part handed to it (in a build with the IPC trace) may have 16384.
\<close>

lemma binaryToHex_overflow:
  assumes "length out = HEX_OUT_SIZE" and "HEX_OUT_SIZE < 5 * length bs + 4"
  shows "binaryToHex out bs = None"
proof (cases "3 * length bs \<le> length out")
  case False
  with hex_fill_overflow[of out 0 bs] show ?thesis by (simp add: binaryToHex_def)
next
  case True
  then have "hex_fill bs 0 out = Some (3 * length bs, blit out 0 (concat (map hex_byte bs)))"
    by (simp add: hex_fill_ok)
  then show ?thesis
  proof (cases "3 * length bs + 2 < length out")
    case False
    with True show ?thesis
      by (simp add: binaryToHex_def put_at_def hex_fill_ok length_hex_bytes bind_eq_None_conv)
  next
    case in_range: True
    define m3 where "m3 = (blit out 0 (concat (map hex_byte bs)))
      [3 * length bs := CHR '' '', 3 * length bs + 1 := CHR ''|'', 3 * length bs + 2 := CHR '' '']"
    have eq: "binaryToHex out bs = do {
        (i, m) \<leftarrow> ascii_fill bs (3 * length bs + 3) m3; m \<leftarrow> put_at i NUL m; c_string m }"
      using True in_range
      by (simp add: binaryToHex_def put_at_def[of _ "CHR '' ''"] put_at_def[of _ "CHR ''|''"]
          hex_fill_ok length_hex_bytes m3_def)
    have "length m3 < 3 * length bs + 3 + 2 * length bs + 1"
      using assms True by (simp add: m3_def length_hex_bytes)
    note full = ascii_fill_full[OF this]
    show ?thesis
      unfolding eq by (cases "ascii_fill bs (3 * length bs + 3) m3") (auto simp: full)
  qed
qed

section \<open>Properties\<close>

text \<open>
  C39. The dump of a byte array stays in its static buffer for every length, and reads back: it is
  three characters per byte, and parsing them gives the bytes, of which the first 341 are shown
  at most.
\<close>

theorem byteArrayToString_reads_back:
  assumes "length textBuffer = TEXT_BUFFER_SIZE"
  shows "\<exists>s. byteArrayToString textBuffer bs = Some s \<and> length s = 3 * min 341 (length bs) \<and>
    hex_parse s = take 341 bs"
  using byteArrayToString_eq[OF assms, of bs]
  by (simp add: hex_parse_hex_bytes length_hex_bytes min.commute)

theorem byteArrayToString_reads_back_witness:
  "\<exists>s. byteArrayToString (replicate TEXT_BUFFER_SIZE NUL) [0x1F, 0xA0] = Some s \<and>
     hex_parse s = [0x1F, 0xA0]"
  using byteArrayToString_reads_back[of "replicate TEXT_BUFFER_SIZE NUL" "[0x1F, 0xA0]"] by auto

text \<open>
  C40. The trace dump of a message part is exact up to 13106 bytes and leaves its buffer above: a
  log message's content part may have 16384.
\<close>

theorem binaryToHex_in_bounds_iff:
  assumes "length out = HEX_OUT_SIZE"
  shows "(binaryToHex out bs \<noteq> None) = (length bs \<le> 13106) \<and>
    (length bs \<le> 13106 \<longrightarrow> binaryToHex out bs =
       Some (concat (map hex_byte bs) @ '' | '' @ concat (map ascii_byte bs)))"
proof -
  have "5 * length bs + 4 \<le> HEX_OUT_SIZE \<longleftrightarrow> length bs \<le> 13106" by (auto simp: HEX_OUT_SIZE_def)
  with binaryToHex_eq[OF assms, of bs] binaryToHex_overflow[OF assms, of bs] show ?thesis
    by (cases "length bs \<le> 13106") auto
qed

theorem binaryToHex_in_bounds_iff_witness:
  "binaryToHex (replicate HEX_OUT_SIZE NUL) (replicate 13106 0x41) \<noteq> None \<and>
   binaryToHex (replicate HEX_OUT_SIZE NUL) (replicate 13107 0x41) = None"
proof -
  have len: "length (replicate HEX_OUT_SIZE NUL) = HEX_OUT_SIZE" by (rule length_replicate)
  show ?thesis
    using binaryToHex_in_bounds_iff[OF len, of "replicate 13106 0x41"]
      binaryToHex_in_bounds_iff[OF len, of "replicate 13107 0x41"]
    by (simp only: length_replicate) simp
qed

end
