(* ===== verification/Dlt_Wire.thy ===== *)
theory Dlt_Wire
  imports Dlt_Session
begin

text \<open>
  The other end of the FIFO. What the connection writes is one stream of bytes without separators; the
  daemon has to find the messages in it, and has to know an application and a context before they log.
  \<open>parse_stream\<close> splits the stream by the headers and length fields of the protocol, \<open>receive\<close> is
  what a daemon does with a message, and \<open>daemon_view\<close>, the two together, is what the daemon knows
  after a stream. The invariant \<open>tells\<close> relates it to the client's table of contexts.
\<close>

section \<open>Messages in a stream\<close>

datatype frame =
    FApp "byte list" "byte list"
  | FContext "byte list" "byte list" nat "byte list"
  | FLog byte byte byte "byte list" "byte list" "byte list"

definition split_bytes :: "nat \<Rightarrow> byte list \<Rightarrow> (byte list \<times> byte list) option" where
  "split_bytes n bs = (if n \<le> length bs then Some (take n bs, drop n bs) else None)"

text \<open>
  The bodies of the three messages; their sizes are those of the packed structures. The length field
  of a log message counts from the standard header, in network byte order.
\<close>

definition parse_app :: "byte list \<Rightarrow> (frame \<times> byte list) option" where
  "parse_app bs = do {
     (b, bs) \<leftarrow> split_bytes 12 bs;
     (t, bs) \<leftarrow> split_bytes (nat_of_le (drop 8 b)) bs;
     Some (FApp (take 4 b) t, bs) }"

definition parse_context :: "byte list \<Rightarrow> (frame \<times> byte list) option" where
  "parse_context bs = do {
     (b, bs) \<leftarrow> split_bytes 22 bs;
     (t, bs) \<leftarrow> split_bytes (nat_of_le (drop 18 b)) bs;
     Some (FContext (take 4 b) (take 4 (drop 4 b)) (nat_of_le (take 4 (drop 8 b))) t, bs) }"

definition parse_log :: "byte list \<Rightarrow> (frame \<times> byte list) option" where
  "parse_log bs = do {
     (s, bs) \<leftarrow> split_bytes 4 bs;
     (b, bs) \<leftarrow> split_bytes (nat_of_le (rev (drop 2 s)) - 4) bs;
     (x, p) \<leftarrow> split_bytes 22 b;
     Some (FLog (s ! 1) (x ! 12) (x ! 13) (take 4 (drop 14 x)) (drop 18 x) p, bs) }"

definition parse_frame :: "byte list \<Rightarrow> (frame \<times> byte list) option" where
  "parse_frame bs = do {
     (h, bs) \<leftarrow> split_bytes 8 bs;
     if take 4 h \<noteq> text_bytes ''DUH'' @ [1] then None
     else if nat_of_le (drop 4 h) = 1 then parse_log bs
     else if nat_of_le (drop 4 h) = 2 then parse_app bs
     else if nat_of_le (drop 4 h) = 4 then parse_context bs
     else None }"

lemma split_bytes_Some: "split_bytes n bs = Some (a, r) \<longleftrightarrow> bs = a @ r \<and> length a = n"
  by (auto simp: split_bytes_def)

lemma split_bytes_append: "length a = n \<Longrightarrow> split_bytes n (a @ r) = Some (a, r)"
  by (simp add: split_bytes_def)

lemma split_bytes_longer: "split_bytes n bs = Some (a, r) \<Longrightarrow> split_bytes n (bs @ xs) = Some (a, r @ xs)"
  by (auto simp: split_bytes_Some)

lemma parse_frame_shorter: "parse_frame bs = Some (f, r) \<Longrightarrow> length r < length bs"
  by (auto simp: parse_frame_def parse_log_def parse_app_def parse_context_def split_bytes_Some
      split: bind_splits if_splits)

lemma parse_body_longer:
  "parse_app bs = Some (f, r) \<Longrightarrow> parse_app (bs @ xs) = Some (f, r @ xs)"
  "parse_context bs = Some (f, r) \<Longrightarrow> parse_context (bs @ xs) = Some (f, r @ xs)"
  "parse_log bs = Some (f, r) \<Longrightarrow> parse_log (bs @ xs) = Some (f, r @ xs)"
  by (auto simp: parse_app_def parse_context_def parse_log_def split_bytes_longer split: bind_splits)

lemma parse_frame_longer:
  assumes "parse_frame bs = Some (f, r)"
  shows "parse_frame (bs @ xs) = Some (f, r @ xs)"
  using assms
  by (auto simp: parse_frame_def parse_body_longer split_bytes_longer split: bind_splits if_splits)

function parse_stream :: "byte list \<Rightarrow> frame list option" where
  "parse_stream bs = (if bs = [] then Some [] else
     (case parse_frame bs of None \<Rightarrow> None | Some (f, r) \<Rightarrow> map_option ((#) f) (parse_stream r)))"
  by pat_completeness auto
termination
  by (relation "measure length") (auto dest: parse_frame_shorter)

declare parse_stream.simps [simp del]

lemma parse_stream_Nil [simp]: "parse_stream [] = Some []"
  by (simp add: parse_stream.simps)

lemma parse_frame_Nil [simp]: "parse_frame [] = None"
  by (simp add: parse_frame_def split_bytes_def)

lemma parse_stream_frame:
  "parse_frame bs = Some (f, r) \<Longrightarrow> parse_stream bs = map_option ((#) f) (parse_stream r)"
  by (subst parse_stream.simps) auto

lemma parse_stream_append:
  "parse_stream xs = Some fs \<Longrightarrow> parse_stream (xs @ ys) = map_option ((@) fs) (parse_stream ys)"
proof (induction xs arbitrary: fs rule: parse_stream.induct)
  case (1 bs)
  show ?case
  proof (cases "bs = []")
    case True
    with 1 show ?thesis by (cases "parse_stream ys") simp_all
  next
    case False
    with "1.prems" obtain f r gs where p: "parse_frame bs = Some (f, r)" "parse_stream r = Some gs" "fs = f # gs"
      by (subst (asm) parse_stream.simps) (auto split: option.splits)
    from parse_stream_frame[OF parse_frame_longer[OF p(1)], of ys] "1.IH"[OF False p(1) refl p(2)] p(3)
    show ?thesis by (cases "parse_stream ys") simp_all
  qed
qed

section \<open>What the daemon knows\<close>

record view =
  vw_app :: "byte list option"
  vw_table :: "nat \<rightharpoonup> byte list \<times> byte list"
  vw_messages :: "(byte list \<times> byte list \<times> byte list) list"

definition view_start :: view where
  "view_start = \<lparr>vw_app = None, vw_table = Map.empty, vw_messages = []\<rparr>"

text \<open>
  \<open>None\<close>: a context of an application that has not introduced itself, or a message of a context that
  the daemon does not know.
\<close>

fun receive :: "frame \<Rightarrow> view \<Rightarrow> view option" where
  "receive (FApp a t) v = Some (v\<lparr>vw_app := Some a, vw_table := Map.empty\<rparr>)"
| "receive (FContext a c pos t) v = (if vw_app v = Some a
     then Some (v\<lparr>vw_table := (vw_table v)(pos \<mapsto> (a, c))\<rparr>) else None)"
| "receive (FLog mcnt msin noar a c p) v = (if vw_app v = Some a \<and> (a, c) \<in> ran (vw_table v)
     then Some (v\<lparr>vw_messages := vw_messages v @ [(a, c, p)]\<rparr>) else None)"

fun receive_all :: "frame list \<Rightarrow> view \<Rightarrow> view option" where
  "receive_all [] v = Some v"
| "receive_all (f # fs) v = do { v \<leftarrow> receive f v; receive_all fs v }"

lemma receive_all_append: "receive_all (fs @ gs) v = receive_all fs v \<bind> receive_all gs"
  by (induction fs arbitrary: v) (auto split: bind_split)

definition daemon_view :: "byte list list \<Rightarrow> view option" where
  "daemon_view w = do { fs \<leftarrow> parse_stream (concat w); receive_all fs view_start }"

lemma daemon_view_Nil [simp]: "daemon_view [] = Some view_start"
  by (simp add: daemon_view_def)

lemma daemon_view_snoc:
  assumes "daemon_view w = Some v" and "parse_frame m = Some (f, [])"
  shows "daemon_view (w @ [m]) = receive f v"
proof -
  from assms(1) obtain fs where fs: "parse_stream (concat w) = Some fs" "receive_all fs view_start = Some v"
    by (auto simp: daemon_view_def split: bind_splits)
  have "parse_stream (concat (w @ [m])) = Some (fs @ [f])"
    using parse_stream_append[OF fs(1), of m] parse_stream_frame[OF assms(2)] by simp
  with fs(2) show ?thesis by (cases "receive f v") (simp_all add: daemon_view_def receive_all_append)
qed

section \<open>The client's messages are frames\<close>

lemma id_size [simp]: "DLT_ID_SIZE dlt_documented = 4"
  by (simp add: dlt_documented_def)

lemma user_header:
  "DltUserHeader dlt_documented m = (text_bytes ''DUH'' @ [1]) @ le_nat 4 (message_value m)"
  by (simp add: DltUserHeader_def id_array_def)

lemma message_number [simp]: "nat_of_le (le_nat 4 (message_value m)) = message_value m"
  by (rule nat_of_le_id) (cases m; simp)

lemma parse_frame_header:
  "parse_frame (DltUserHeader dlt_documented m @ bs) =
     (if m = SendLog then parse_log bs else if m = RegisterApp then parse_app bs
      else if m = RegisterContext then parse_context bs else None)"
proof -
  have "split_bytes 8 (DltUserHeader dlt_documented m @ bs) = Some (DltUserHeader dlt_documented m, bs)"
    by (rule split_bytes_append) (simp add: user_header)
  moreover have "take 4 (DltUserHeader dlt_documented m) = text_bytes ''DUH'' @ [1]"
    "drop 4 (DltUserHeader dlt_documented m) = le_nat 4 (message_value m)"
    unfolding user_header by (simp_all del: append_assoc)
  ultimately show ?thesis by (cases m) (simp_all add: parse_frame_def nat_of_le_id)
qed

lemma parse_app_message:
  assumes "length a = 4" and "length t < 2 ^ 32"
  shows "parse_frame (concat [DltUserHeader dlt_documented RegisterApp,
      DltUserControlMsgRegisterApplication a pid (length t), t]) = Some (FApp a t, [])"
proof -
  let ?b = "a @ le_int 4 pid @ le_nat 4 (length t)"
  have "split_bytes 12 (?b @ t) = Some (?b, t)" by (rule split_bytes_append) (simp add: assms(1))
  moreover have "nat_of_le (drop 8 ?b) = length t" using assms by (simp add: nat_of_le_id)
  moreover have "split_bytes (length t) t = Some (t, [])" by (simp add: split_bytes_def)
  moreover have "take 4 ?b = a" using assms(1) by simp
  ultimately have "parse_app (?b @ t) = Some (FApp a t, [])" by (simp only: parse_app_def bind.simps prod.case)
  then show ?thesis
    by (simp add: parse_frame_header DltUserControlMsgRegisterApplication_def)
qed

lemma parse_context_message:
  assumes "length a = 4" and "length c = 4" and "length t < 2 ^ 32" and "0 \<le> pos" and "pos < 2 ^ 32"
  shows "parse_frame (concat [DltUserHeader dlt_documented RegisterContext,
      DltUserControlMsgRegisterContext a c pos l s pid (length t), t]) =
    Some (FContext a c (nat pos) t, [])"
proof -
  let ?b = "a @ c @ le_int 4 pos @ le_int 1 l @ le_int 1 s @ le_int 4 pid @ le_nat 4 (length t)"
  have "split_bytes 22 (?b @ t) = Some (?b, t)" by (rule split_bytes_append) (simp add: assms(1,2))
  moreover have "nat_of_le (drop 18 ?b) = length t" using assms(1-3) by (simp add: nat_of_le_id)
  moreover have "split_bytes (length t) t = Some (t, [])" by (simp add: split_bytes_def)
  moreover have "take 4 ?b = a" "take 4 (drop 4 ?b) = c" "take 4 (drop 8 ?b) = le_int 4 pos"
    using assms(1,2) by simp_all
  moreover have "nat_of_le (le_int 4 pos) = nat pos"
    using assms(4,5) by (simp add: le_int_def nat_of_le_id nat_less_iff)
  ultimately have "parse_context (?b @ t) = Some (FContext a c (nat pos) t, [])"
    by (simp only: parse_context_def bind.simps prod.case)
  then show ?thesis
    by (simp add: parse_frame_header DltUserControlMsgRegisterContext_def)
qed

lemma parse_log_message:
  assumes "has_ids dlt_documented app c" and "length (dd_content d) \<le> 16384"
  shows "\<exists>mcnt msin noar. parse_frame (concat (log_message dlt_documented os c d)) =
    Some (FLog mcnt msin noar (eh_apid (extendedHeader c)) (eh_ctid (extendedHeader c)) (dd_content d), [])"
proof -
  let ?api = "dlt_documented" and ?h = "log_extended_header dlt_documented c d"
  have ids: "length (eh_apid (extendedHeader c)) = 4" "length (eh_ctid (extendedHeader c)) = 4"
    using has_ids_length[OF assms(1)] by simp_all
  have eh: "eh_apid ?h = eh_apid (extendedHeader c)" "eh_ctid ?h = eh_ctid (extendedHeader c)"
    by (simp_all add: log_extended_header_def Let_def)
  let ?s = "DltStandardHeader ?api (dd_messageCount d) (standardheaderLen ?api d)"
  let ?x = "DltStandardHeaderExtra ?api (os_pid os) (dlt_uptime os) @ enc_DltExtendedHeader ?h"
  have lx: "length ?x = 22"
    using ids by (simp add: DltStandardHeaderExtra_def enc_DltExtendedHeader_def eh id_array_def)
  have ls: "length ?s = 4" by (simp add: DltStandardHeader_def)
  have "unat (standardheaderLen ?api d) = length (?s @ ?x @ dd_content d)"
    using log_message_length[OF refl ids assms(2), of os] by (simp add: log_message_def)
  then have len: "unat (standardheaderLen ?api d) = 26 + length (dd_content d)" using lx ls by simp
  have "nat_of_le (rev (drop 2 ?s)) = unat (standardheaderLen ?api d)"
    unfolding DltStandardHeader_def be_nat_def using len assms(2) by (simp add: nat_of_le_id)
  then have "nat_of_le (rev (drop 2 ?s)) - 4 = length (?x @ dd_content d)" using len lx by simp
  then have "parse_log (?s @ ?x @ dd_content d) =
      Some (FLog (?s ! 1) (?x ! 12) (?x ! 13) (take 4 (drop 14 ?x)) (drop 18 ?x) (dd_content d), [])"
    using ls lx split_bytes_append[of ?s 4] split_bytes_append[of ?x 22]
    by (simp only: parse_log_def bind.simps prod.case) (simp add: split_bytes_def)
  moreover have "take 4 (drop 14 ?x) = eh_apid (extendedHeader c)" "drop 18 ?x = eh_ctid (extendedHeader c)"
    using ids by (simp_all add: DltStandardHeaderExtra_def enc_DltExtendedHeader_def eh id_array_def)
  ultimately show ?thesis by (simp add: log_message_def parse_frame_header)
qed

section \<open>What the client told the daemon\<close>

text \<open>
  \<open>writev\<close> on the FIFO, which is opened for blocking writes, fails or takes the whole message, here of
  messages up to 64 KiB of description; a shorter result would leave a torn message in the stream.
\<close>

definition whole_writes :: "dlt_os \<Rightarrow> bool" where
  "whole_writes os \<longleftrightarrow> (\<forall>k n. writev_result os k = Some n \<longrightarrow> 66000 \<le> n)"

definition short_description :: "dlt_ctx \<Rightarrow> bool" where
  "short_description c \<longleftrightarrow> length (cstr (ctx_description (dc_context c))) \<le> 65536"

lemma send_whole:
  assumes "whole_writes os" and "length (concat bs) \<le> 66000"
  shows "isDaemonConnected (send os bs dm) \<and> isDaemonConnected dm \<and> dm_wire (send os bs dm) = dm_wire dm @ [concat bs] \<or>
    \<not> isDaemonConnected (send os bs dm) \<and> dm_wire (send os bs dm) = dm_wire dm"
proof (cases "isDaemonConnected (send os bs dm)")
  case True
  from send_connected_wire[OF this] obtain n where
    n: "writev_result os (dm_writes dm) = Some n" "dm_wire (send os bs dm) = dm_wire dm @ [take n (concat bs)]" by blast
  have "66000 \<le> n" using assms(1) n(1) by (simp add: whole_writes_def)
  then have "take n (concat bs) = concat bs" using assms(2) by (intro take_all) simp
  with True n send_stays_disconnected show ?thesis by auto
next
  case False
  then show ?thesis by (auto simp: send_def Let_def isDaemonConnected_def split: option.splits if_splits)
qed

text \<open>
  The invariant: the stream so far is understood and, while the connection is up, the daemon knows the
  application and has the identifiers of every context of \<open>S\<close> at the context's position.
\<close>

abbreviation context_ids :: "AppLogContext \<Rightarrow> dlt_ctx \<Rightarrow> (byte list \<times> byte list) option" where
  "context_ids \<equiv> ids_of dlt_documented"

definition knows :: "AppLogContext \<Rightarrow> (nat \<Rightarrow> dlt_ctx) \<Rightarrow> nat set \<Rightarrow> view \<Rightarrow> bool" where
  "knows app store S v \<longleftrightarrow> vw_app v = assign_id dlt_documented (app_id app) \<and>
     (\<forall>k \<in> S. context_ids app (store k) \<noteq> None \<and>
       vw_table v (nat (log_level_pos (store k))) = context_ids app (store k))"

definition tells :: "AppLogContext \<Rightarrow> nat set \<Rightarrow> (byte list \<times> byte list \<times> byte list) list \<Rightarrow> daemon \<Rightarrow> bool" where
  "tells app S ms dm \<longleftrightarrow> (\<exists>v. daemon_view (dm_wire dm) = Some v \<and> vw_messages v = ms \<and>
     (isDaemonConnected dm \<longrightarrow> knows app (dm_store dm) S v))"

text \<open>Positions of contexts in \<open>S\<close> are valid and different.\<close>

definition positions :: "(nat \<Rightarrow> dlt_ctx) \<Rightarrow> nat set \<Rightarrow> bool" where
  "positions store S \<longleftrightarrow> (\<forall>k \<in> S. 0 \<le> log_level_pos (store k) \<and> log_level_pos (store k) < 2 ^ 31 \<and>
     short_description (store k)) \<and> inj_on (\<lambda>k. log_level_pos (store k)) S"

lemma positions_subset: "positions store S \<Longrightarrow> T \<subseteq> S \<Longrightarrow> positions store T"
  by (auto simp: positions_def intro: inj_on_subset)

lemma positions_cong:
  assumes "\<And>k. log_level_pos (st' k) = log_level_pos (st k) \<and> dc_context (st' k) = dc_context (st k)"
  shows "positions st' S = positions st S"
  using assms by (simp add: positions_def short_description_def)

lemma knows_cong:
  assumes "\<And>k. k \<in> S \<Longrightarrow> log_level_pos (st' k) = log_level_pos (st k) \<and> dc_context (st' k) = dc_context (st k)"
  shows "knows app st' S v = knows app st S v"
  using assms by (simp add: knows_def ids_of_def)

lemma knows_stamp [simp]: "knows app (st(k := stamp_ids dlt_documented app (st k))) S v = knows app st S v"
  by (rule knows_cong) simp

lemma positions_stamp [simp]:
  "positions (st(k := stamp_ids dlt_documented app (st k))) S = positions st S"
  by (rule positions_cong) simp

lemma tells_disconnected:
  "tells app S ms dm \<Longrightarrow> \<not> isDaemonConnected dm' \<Longrightarrow> dm_wire dm' = dm_wire dm \<Longrightarrow> tells app T ms dm'"
  by (auto simp: tells_def)

lemma concat3: "concat [a, b, c] = a @ b @ c"
  by simp

lemma sendContextRegistration_tells:
  assumes t: "tells app S ms dm" and run: "sendContextRegistration dlt_documented os (Some app) k dm = Some dm'"
    and w: "whole_writes os" and p: "positions (dm_store dm) (insert k S)"
  shows "tells app (insert k S) ms dm'"
proof -
  let ?c = "dm_store dm k" and ?dm = "dm\<lparr>dm_store := (dm_store dm)(k := stamp_ids dlt_documented app (dm_store dm k))\<rparr>"
  from sendContextRegistration_frame(2)[OF run] obtain a b where ids: "context_ids app ?c = Some (a, b)" by auto
  let ?t = "cstr (ctx_description (dc_context ?c))"
  let ?bs = "[DltUserHeader dlt_documented RegisterContext, DltUserControlMsgRegisterContext a b
      (log_level_pos ?c) (-2) (-2) (os_pid os) (length ?t), text_bytes ?t]"
  have dm': "dm' = send os ?bs ?dm"
    using run ids by (simp add: sendContextRegistration_eq Let_def)
  have len: "length a = 4" "length b = 4"
    using ids by (auto simp: ids_of_def dest!: assign_id_length split: bind_splits)
  have short: "length ?t \<le> 65536" "0 \<le> log_level_pos ?c" "log_level_pos ?c < 2 ^ 32"
    using p by (auto simp: positions_def short_description_def)
  have "length (concat ?bs) \<le> 66000"
    using short(1) len by (simp add: user_header DltUserControlMsgRegisterContext_def)
  from send_whole[OF w this, of ?dm] consider
      (up) "isDaemonConnected dm'" "isDaemonConnected dm" "dm_wire dm' = dm_wire dm @ [concat ?bs]"
    | (down) "\<not> isDaemonConnected dm'" "dm_wire dm' = dm_wire dm"
    unfolding dm' by (auto simp: isDaemonConnected_def)
  then show ?thesis
  proof cases
    case down
    with t show ?thesis by (rule tells_disconnected)
  next
    case up
    from t up(2) obtain v where v: "daemon_view (dm_wire dm) = Some v" "vw_messages v = ms" "knows app (dm_store dm) S v"
      by (auto simp: tells_def)
    have "parse_frame (concat ?bs) = Some (FContext a b (nat (log_level_pos ?c)) (text_bytes ?t), [])"
      using parse_context_message[OF len _ short(2,3), of "text_bytes ?t"] short(1) by simp
    note seen = daemon_view_snoc[OF v(1) this]
    have app: "vw_app v = Some a" using v(3) ids by (auto simp: knows_def ids_of_def split: bind_splits)
    have other: "nat (log_level_pos (dm_store dm j)) \<noteq> nat (log_level_pos ?c)" if "j \<in> S" "j \<noteq> k" for j
      using p that by (auto simp: positions_def inj_on_def eq_nat_nat_iff)
    have "knows app (dm_store dm) (insert k S) (v\<lparr>vw_table := (vw_table v)(nat (log_level_pos ?c) \<mapsto> (a, b))\<rparr>)"
      using v(3) ids other by (auto simp: knows_def) metis
    then show ?thesis
      using up seen app v(2) by (simp add: tells_def dm' send_frame del: concat.simps)
  qed
qed

lemma registerAll_tells:
  assumes "tells app S ms dm" and "registerAll dlt_documented os (Some app) cids dm = Some dm'"
    and "whole_writes os" and "positions (dm_store dm) (S \<union> set cids)"
  shows "tells app (S \<union> set cids) ms dm'"
  using assms
proof (induction cids arbitrary: S dm)
  case (Cons k cids)
  from Cons.prems(2) obtain dm1 where
    r: "sendContextRegistration dlt_documented os (Some app) k dm = Some dm1"
    "registerAll dlt_documented os (Some app) cids dm1 = Some dm'" by (auto split: bind_splits)
  have "positions (dm_store dm) (insert k S)" using Cons.prems(4) by (rule positions_subset) auto
  note t = sendContextRegistration_tells[OF Cons.prems(1) r(1) Cons.prems(3) this]
  have "positions (dm_store dm1) (insert k S \<union> set cids)"
    using Cons.prems(4) by (simp add: sendContextRegistration_frame(3)[OF r(1)])
  from Cons.IH[OF t r(2) Cons.prems(3) this] show ?case by simp
qed simp

lemma initDaemonConnection_tells:
  assumes t: "tells app (set (m_contexts dm)) ms dm" and w: "whole_writes os"
    and run: "initDaemonConnection dlt_documented os (Some app) dm = Some dm'"
    and p: "positions (dm_store dm) (set (m_contexts dm))"
  shows "tells app (set (m_contexts dm)) ms dm'"
proof (cases "isDaemonConnected dm")
  case True
  with t run show ?thesis by simp
next
  case off: False
  show ?thesis
  proof (cases "isDaemonConnected (reopened os dm)")
    case False
    from run initDaemonConnection_refused[OF off False, of dlt_documented "Some app"] have "dm' = reopened os dm" by simp
    with tells_disconnected[OF t False] show ?thesis by simp
  next
    case True
    let ?L = "length (app_text os app)" and ?e = "established (reopened os dm)"
    let ?t = "text_bytes (take ?L (snprintf_mem 1024 (app_text os app)))"
    from run[unfolded initDaemonConnection_eq[OF off True]] obtain a where
      a: "assign_id dlt_documented (app_id app) = Some a" and L: "?L \<le> 1024"
      and reg: "registerAll dlt_documented os (Some app) (m_contexts dm) (send os [DltUserHeader dlt_documented RegisterApp,
        DltUserControlMsgRegisterApplication a (os_pid os) ?L, ?t] ?e) = Some dm'"
      by (auto split: bind_splits if_splits)
    let ?bs = "[DltUserHeader dlt_documented RegisterApp, DltUserControlMsgRegisterApplication a (os_pid os) ?L, ?t]"
    have len: "length a = 4" using assign_id_length[OF a] by simp
    have lt: "length ?t = ?L" using L by (simp add: length_snprintf_mem)
    have "length (concat ?bs) \<le> 66000"
      using L len lt by (simp add: user_header DltUserControlMsgRegisterApplication_def)
    note s = send_whole[OF w this, of ?e]
    from t obtain v where v: "daemon_view (dm_wire dm) = Some v" "vw_messages v = ms" by (auto simp: tells_def)
    have "parse_frame (concat ?bs) = Some (FApp a ?t, [])"
      using parse_app_message[OF len, of ?t "os_pid os"] L unfolding lt by simp
    note seen = daemon_view_snoc[OF v(1) this]
    have "tells app {} ms (send os ?bs ?e)"
      using s seen v a by (auto simp: tells_def knows_def simp del: concat.simps)
    from registerAll_tells[OF this reg w] p show ?thesis by (simp add: send_frame)
  qed
qed

lemma initDaemonConnection_context:
  assumes "initDaemonConnection api os (Some app) dm = Some dm'"
  shows "log_level_pos (dm_store dm' k) = log_level_pos (dm_store dm k) \<and> dc_context (dm_store dm' k) = dc_context (dm_store dm k)"
  using initDaemonConnection_frame[OF assms] by (auto simp: stamp_all_def)

lemma registerContext_tells:
  assumes t: "tells app (set (m_contexts dm)) ms dm" and w: "whole_writes os" and new: "cid \<notin> set (m_contexts dm)"
    and run: "registerContext dlt_documented os (Some app) cid dm = Some (pos, dm')"
    and p: "positions ((dm_store dm)(cid := (dm_store dm cid)\<lparr>log_level_pos := int (length (m_contexts dm))\<rparr>))
      (insert cid (set (m_contexts dm)))"
  shows "tells app (insert cid (set (m_contexts dm))) ms dm'"
proof -
  let ?st = "(dm_store dm)(cid := (dm_store dm cid)\<lparr>log_level_pos := int (length (m_contexts dm))\<rparr>)"
  let ?dm1 = "dm\<lparr>dm_store := ?st, m_contexts := m_contexts dm @ [cid]\<rparr>" and ?S = "insert cid (set (m_contexts dm))"
  from run obtain dm2 where i: "initDaemonConnection dlt_documented os (Some app) ?dm1 = Some dm2"
    and s: "if isDaemonConnected dm2 then sendContextRegistration dlt_documented os (Some app) cid dm2 = Some dm' else dm' = dm2"
    by (auto simp: registerContext_def Let_def split: bind_splits if_splits)
  have "tells app (set (m_contexts dm)) ms dm2 \<and> isDaemonConnected dm2 \<or> tells app ?S ms dm2"
  proof (cases "isDaemonConnected ?dm1")
    case True
    with i have "dm2 = ?dm1" by simp
    moreover have "knows app ?st (set (m_contexts dm)) v = knows app (dm_store dm) (set (m_contexts dm)) v" for v
      using new by (intro knows_cong) auto
    ultimately show ?thesis using t True by (auto simp: tells_def isDaemonConnected_def)
  next
    case False
    then have "tells app (set (m_contexts ?dm1)) ms ?dm1" using t by (auto simp: tells_def)
    from initDaemonConnection_tells[OF this w i] p show ?thesis by simp
  qed
  moreover have p2: "positions (dm_store dm2) (insert cid T)" if "T \<subseteq> ?S" for T
  proof -
    have "positions (dm_store dm2) ?S = positions ?st ?S"
      using initDaemonConnection_context[OF i] by (intro positions_cong) simp
    with p that show ?thesis by (auto elim: positions_subset)
  qed
  have reg: "tells app ?S ms dm'" if "tells app T ms dm2" "T \<subseteq> ?S" "set (m_contexts dm) \<subseteq> T" "isDaemonConnected dm2" for T
  proof -
    have "insert cid T = ?S" using that by auto
    with sendContextRegistration_tells[OF that(1) _ w p2[OF that(2)]] s that(4) show ?thesis by simp
  qed
  ultimately show ?thesis
    using s reg[of "set (m_contexts dm)"] reg[of ?S] by (auto split: if_splits)
qed

text \<open>A message of a context is delivered with the content of the entry.\<close>

definition log_entry :: "AppLogContext \<Rightarrow> dlt_ctx \<Rightarrow> dlt_data \<Rightarrow> byte list \<times> byte list \<times> byte list" where
  "log_entry app c d = (let (a, b) = the (context_ids app c) in (a, b, dd_content d))"

lemma sendLog_tells:
  assumes t: "tells app (set (m_contexts dm)) ms dm" and w: "whole_writes os" and cid: "cid \<in> set (m_contexts dm)"
    and run: "sendLog dlt_documented os (Some app) cid d dm = Some dm'"
    and p: "positions (dm_store dm) (set (m_contexts dm))" and inv: "dm_inv dlt_documented app dm"
    and short: "length (dd_content d) \<le> maxMessageSize"
  shows "tells app (set (m_contexts dm)) (ms @ (if isDaemonConnected dm' then [log_entry app (dm_store dm cid) d] else [])) dm'"
proof -
  from run obtain dm1 where i: "initDaemonConnection dlt_documented os (Some app) dm = Some dm1"
    and dm': "dm' = (if isDaemonConnected dm1 then send os (log_message dlt_documented os (dm_store dm1 cid) d) dm1 else dm1)"
    by (auto simp: sendLog_def split: bind_splits)
  note t1 = initDaemonConnection_tells[OF t w i p] and inv1 = initDaemonConnection_inv[OF inv i]
  have ctxs: "m_contexts dm1 = m_contexts dm" using initDaemonConnection_frame[OF i] by simp
  show ?thesis
  proof (cases "isDaemonConnected dm1")
    case False
    with t1 dm' show ?thesis by simp
  next
    case up: True
    let ?c = "dm_store dm1 cid"
    let ?bs = "log_message dlt_documented os ?c d"
    have ids: "has_ids dlt_documented app ?c" using inv1 up cid ctxs by (simp add: dm_inv_def)
    have small: "length (dd_content d) \<le> 16384" using short by (simp add: maxMessageSize_def)
    have "length (concat ?bs) \<le> 66000"
      using has_ids_length[OF ids] small
      by (simp add: log_message_def user_header DltStandardHeader_def DltStandardHeaderExtra_def id_array_def
          enc_DltExtendedHeader_def log_extended_header_def Let_def)
    note s = send_whole[OF w this, of dm1]
    obtain v where v: "daemon_view (dm_wire dm1) = Some v" "vw_messages v = ms" "knows app (dm_store dm1) (set (m_contexts dm)) v"
      using t1 up by (auto simp: tells_def)
    obtain a b where ab: "context_ids app ?c = Some (a, b)" "eh_apid (extendedHeader ?c) = a" "eh_ctid (extendedHeader ?c) = b"
      using ids by (auto simp: has_ids_def)
    from parse_log_message[OF ids small, of os] obtain mcnt msin noar where
      "parse_frame (concat ?bs) = Some (FLog mcnt msin noar a b (dd_content d), [])" unfolding ab by blast
    note seen = daemon_view_snoc[OF v(1) this]
    have "vw_app v = Some a" using v(3) ab(1) by (auto simp: knows_def ids_of_def split: bind_splits)
    moreover have "(a, b) \<in> ran (vw_table v)"
      using v(3) ab(1) cid by (intro ranI[of _ "nat (log_level_pos ?c)"]) (simp add: knows_def)
    ultimately have seen': "daemon_view (dm_wire dm1 @ [concat ?bs]) = Some (v\<lparr>vw_messages := ms @ [(a, b, dd_content d)]\<rparr>)"
      using seen v(2) by simp
    have "context_ids app (dm_store dm cid) = Some (a, b)"
      using ab(1) initDaemonConnection_context[OF i, of cid] by (simp add: ids_of_def)
    then have entry: "log_entry app (dm_store dm cid) d = (a, b, dd_content d)" by (simp add: log_entry_def)
    show ?thesis
    proof (cases "isDaemonConnected dm'")
      case True
      have "knows app (dm_store dm') (set (m_contexts dm)) (v\<lparr>vw_messages := ms @ [(a, b, dd_content d)]\<rparr>)"
        using v(3) up by (simp add: knows_def dm' send_frame)
      with True s up seen' entry show ?thesis by (auto simp: tells_def dm')
    next
      case False
      with s up have "dm_wire dm' = dm_wire dm1" by (auto simp: dm')
      with tells_disconnected[OF t1 False] False show ?thesis by simp
    qed
  qed
qed

section \<open>Sessions\<close>

text \<open>
  The events of a connection, as in \<open>dm_step\<close>, with the messages that were sent and left the connection
  up: \<open>session app st ms dm\<close>, from the contexts \<open>st\<close>.
\<close>

inductive session :: "AppLogContext \<Rightarrow> (nat \<Rightarrow> dlt_ctx) \<Rightarrow> (byte list \<times> byte list \<times> byte list) list \<Rightarrow> daemon \<Rightarrow> bool"
  for app st where
  session_new: "session app st [] (daemon_new st)"
| session_register: "session app st ms dm \<Longrightarrow> whole_writes os \<Longrightarrow> cid \<notin> set (m_contexts dm) \<Longrightarrow>
     registerContext dlt_documented os (Some app) cid dm = Some (pos, dm') \<Longrightarrow> session app st ms dm'"
| session_entry: "session app st ms dm \<Longrightarrow> dlt_init dlt_documented (dm_store dm cid) li d = (d', c) \<Longrightarrow>
     session app st ms (dm\<lparr>dm_store := (dm_store dm)(cid := c)\<rparr>)"
| session_log: "session app st ms dm \<Longrightarrow> whole_writes os \<Longrightarrow> cid \<in> set (m_contexts dm) \<Longrightarrow>
     length (dd_content d) \<le> maxMessageSize \<Longrightarrow> sendLog dlt_documented os (Some app) cid d dm = Some dm' \<Longrightarrow>
     session app st (ms @ (if isDaemonConnected dm' then [log_entry app (dm_store dm cid) d] else [])) dm'"
| session_incoming: "session app st ms dm \<Longrightarrow>
     handleIncomingMessage dlt_documented readable received junk dm = Some dm' \<Longrightarrow> session app st ms dm'"

lemma session_reachable: "session app st ms dm \<Longrightarrow> dm_reachable dlt_documented app st dm"
  by (induction rule: session.induct) (blast intro: dm_reachable.intros dm_step.intros)+

lemma sendLog_contexts:
  assumes "sendLog api os (Some app) cid d dm = Some dm'"
  shows "m_contexts dm' = m_contexts dm \<and> (\<forall>k. dc_context (dm_store dm' k) = dc_context (dm_store dm k) \<and>
    log_level_pos (dm_store dm' k) = log_level_pos (dm_store dm k))"
proof -
  from assms obtain dm1 where i: "initDaemonConnection api os (Some app) dm = Some dm1"
    and dm': "dm' = (if isDaemonConnected dm1 then send os (log_message api os (dm_store dm1 cid) d) dm1 else dm1)"
    by (auto simp: sendLog_def split: bind_splits)
  with initDaemonConnection_context[OF i] initDaemonConnection_frame[OF i] show ?thesis by (simp add: send_frame)
qed

lemma registerContext_context:
  assumes "registerContext api os (Some app) cid dm = Some (pos, dm')"
  shows "dc_context (dm_store dm' k) = dc_context (dm_store dm k)"
proof -
  let ?dm1 = "dm\<lparr>dm_store := (dm_store dm)(cid := (dm_store dm cid)\<lparr>log_level_pos := int (length (m_contexts dm))\<rparr>),
                 m_contexts := m_contexts dm @ [cid]\<rparr>"
  from assms obtain dm2 where i: "initDaemonConnection api os (Some app) ?dm1 = Some dm2"
    and s: "if isDaemonConnected dm2 then sendContextRegistration api os (Some app) cid dm2 = Some dm' else dm' = dm2"
    by (auto simp: registerContext_def Let_def split: bind_splits if_splits)
  have "dc_context (dm_store dm' k) = dc_context (dm_store dm2 k)"
    using s sendContextRegistration_frame(3)[of api os app cid dm2 dm'] by (auto split: if_splits)
  with initDaemonConnection_context[OF i, of k] show ?thesis by simp
qed

lemma session_distinct: "session app st ms dm \<Longrightarrow> distinct (m_contexts dm)"
proof (induction rule: session.induct)
  case (session_register ms dm os cid pos dm')
  have "dm_inv dlt_documented app dm" using session_register(1) by (blast intro: session_reachable dm_reachable_inv)
  from registerContext_inv[OF this session_register(4)] session_register(3,5) show ?case by simp
next
  case (session_log ms dm os cid d dm')
  with sendLog_contexts[OF session_log(5)] show ?case by simp
next
  case (session_incoming ms dm readable received junk dm')
  with handleIncomingMessage_frame[OF session_incoming(2)] show ?case by simp
qed (simp_all add: daemon_new_def)

lemma session_context: "session app st ms dm \<Longrightarrow> dc_context (dm_store dm k) = dc_context (st k)"
proof (induction arbitrary: k rule: session.induct)
  case session_new
  show ?case by (simp add: daemon_new_def)
next
  case (session_register ms dm os cid pos dm')
  with registerContext_context[OF session_register(4)] show ?case by simp
next
  case (session_entry ms dm cid li d d' c)
  with dlt_init_ctx(1)[OF session_entry(2)] show ?case by simp
next
  case (session_log ms dm os cid d dm')
  with sendLog_contexts[OF session_log(5)] show ?case by simp
next
  case (session_incoming ms dm readable received junk dm')
  with handleIncomingMessage_frame[OF session_incoming(2)] show ?case by simp
qed

lemma inv_positions:
  assumes "dm_inv api app dm" and "length (m_contexts dm) \<le> 2 ^ 31" and "\<And>k. short_description (dm_store dm k)"
  shows "positions (dm_store dm) (set (m_contexts dm))"
proof -
  have "\<forall>k \<in> set (m_contexts dm). \<exists>i < length (m_contexts dm). m_contexts dm ! i = k \<and> log_level_pos (dm_store dm k) = int i"
    using assms(1) by (simp add: dm_inv_def)
  then have "log_level_pos (dm_store dm k) \<noteq> log_level_pos (dm_store dm k')"
    if "k \<in> set (m_contexts dm)" "k' \<in> set (m_contexts dm)" "k \<noteq> k'" for k k'
    using that by (metis of_nat_eq_iff)
  moreover have "0 \<le> log_level_pos (dm_store dm k) \<and> log_level_pos (dm_store dm k) < 2 ^ 31"
    if "k \<in> set (m_contexts dm)" for k
    using assms(1,2) that by (fastforce simp: dm_inv_def)
  ultimately show ?thesis unfolding positions_def inj_on_def using assms(3) by blast
qed

lemma positions_insert:
  assumes "positions st S" and "cid \<notin> S" and "\<And>k. k \<in> S \<Longrightarrow> log_level_pos (st k) < p"
    and "0 \<le> p" and "p < 2 ^ 31" and "short_description (st cid)"
  shows "positions (st(cid := (st cid)\<lparr>log_level_pos := p\<rparr>)) (insert cid S)" (is "positions ?st _")
proof -
  have same: "?st k = st k" if "k \<in> S" for k using that assms(2) by auto
  have "inj_on (\<lambda>k. log_level_pos (?st k)) S"
    using assms(1) inj_on_cong[of S "\<lambda>k. log_level_pos (?st k)" "\<lambda>k. log_level_pos (st k)"] same
    by (simp add: positions_def)
  moreover have "log_level_pos (?st cid) \<notin> (\<lambda>k. log_level_pos (?st k)) ` (S - {cid})"
    using assms(3) same by fastforce
  moreover have "short_description (?st cid)" using assms(6) by (simp add: short_description_def)
  ultimately show ?thesis
    using assms(1,4,5) same by (simp add: positions_def del: fun_upd_apply) simp
qed

text \<open>The number of contexts only grows.\<close>

lemma session_tells:
  "session app st ms dm \<Longrightarrow> (\<And>k. short_description (st k)) \<Longrightarrow> length (m_contexts dm) \<le> 2 ^ 31 \<Longrightarrow>
     tells app (set (m_contexts dm)) ms dm"
proof (induction rule: session.induct)
  case session_new
  show ?case by (simp add: tells_def daemon_new_def isDaemonConnected_def view_start_def)
next
  case (session_register ms dm os cid pos dm')
  have inv: "dm_inv dlt_documented app dm" using session_register(1) by (blast intro: session_reachable dm_reachable_inv)
  note r = registerContext_inv[OF inv session_register(4)]
  have short: "short_description (dm_store dm k)" for k
    using session_register(6)[of k] session_context[OF session_register(1), of k] by (simp add: short_description_def)
  have len: "length (m_contexts dm) < 2 ^ 31" using r session_register(7) by simp
  have "positions (dm_store dm) (set (m_contexts dm))" using inv_positions[OF inv] short len by simp
  moreover have "log_level_pos (dm_store dm k) < int (length (m_contexts dm))" if "k \<in> set (m_contexts dm)" for k
    using that inv by (auto simp: dm_inv_def)
  ultimately have "positions ((dm_store dm)(cid := (dm_store dm cid)\<lparr>log_level_pos := int (length (m_contexts dm))\<rparr>))
      (insert cid (set (m_contexts dm)))"
    using session_register(3) len short by (intro positions_insert) simp_all
  from registerContext_tells[OF session_register(5)[OF session_register(6)] session_register(2,3,4) this] len r
  show ?case by simp
next
  case (session_entry ms dm cid li d d' c)
  have c: "log_level_pos c = log_level_pos (dm_store dm cid)" "dc_context c = dc_context (dm_store dm cid)"
    using dlt_init_ctx(1)[OF session_entry(2)] by simp_all
  have "knows app ((dm_store dm)(cid := c)) S v = knows app (dm_store dm) S v" for S v
    using c by (intro knows_cong) simp
  with session_entry show ?case by (simp add: tells_def isDaemonConnected_def)
next
  case (session_log ms dm os cid d dm')
  have inv: "dm_inv dlt_documented app dm" using session_log(1) by (blast intro: session_reachable dm_reachable_inv)
  have short: "short_description (dm_store dm k)" for k
    using session_log(7)[of k] session_context[OF session_log(1), of k] by (simp add: short_description_def)
  have ctxs: "m_contexts dm' = m_contexts dm" using sendLog_contexts[OF session_log(5)] by simp
  with session_log(8) have "length (m_contexts dm) \<le> 2 ^ 31" by simp
  from sendLog_tells[OF session_log(6)[OF session_log(7) this] session_log(2,3,5) inv_positions[OF inv this short] inv session_log(4)]
  show ?case by (simp add: ctxs)
next
  case (session_incoming ms dm readable received junk dm')
  note f = handleIncomingMessage_frame[OF session_incoming(2)]
  have "knows app (dm_store dm') S v = knows app (dm_store dm) S v" for S v
    using f by (intro knows_cong) simp
  with session_incoming f show ?case by (simp add: tells_def)
qed

section \<open>Properties\<close>

text \<open>
  C7. The daemon understands the client. Whatever an application does - register contexts, log, lose the
  connection at any write and reconnect, receive level requests - the bytes on the FIFO split into
  complete messages, the daemon is never told of a context before its application or given a message
  of a context it does not know, it receives exactly the messages that did not fail, in order and
  unchanged, and while the connection is up it has, at the position of every context, its identifiers.
\<close>

theorem daemon_follows_stream:
  assumes "session app st ms dm" and "\<And>k. short_description (st k)" and "length (m_contexts dm) \<le> 2 ^ 31"
  shows "\<exists>v. daemon_view (dm_wire dm) = Some v \<and> vw_messages v = ms \<and>
    (isDaemonConnected dm \<longrightarrow> (\<forall>i < length (m_contexts dm). \<exists>a b.
       assign_id dlt_documented (app_id app) = Some a \<and> vw_app v = Some a \<and>
       assign_id dlt_documented (ctx_id (dc_context (dm_store dm (m_contexts dm ! i)))) = Some b \<and>
       vw_table v i = Some (a, b)))"
proof -
  from session_tells[OF assms] obtain v where v: "daemon_view (dm_wire dm) = Some v" "vw_messages v = ms"
    "isDaemonConnected dm \<Longrightarrow> knows app (dm_store dm) (set (m_contexts dm)) v" by (auto simp: tells_def)
  have pos: "log_level_pos (dm_store dm (m_contexts dm ! i)) = int i" if "i < length (m_contexts dm)" for i
    by (rule dm_inv_position[OF dm_reachable_inv[OF session_reachable[OF assms(1)]] session_distinct[OF assms(1)] that])
  have "\<exists>a b. assign_id dlt_documented (app_id app) = Some a \<and> vw_app v = Some a \<and>
      assign_id dlt_documented (ctx_id (dc_context (dm_store dm (m_contexts dm ! i)))) = Some b \<and>
      vw_table v i = Some (a, b)" if "isDaemonConnected dm" "i < length (m_contexts dm)" for i
    using v(3)[OF that(1)] pos[OF that(2)] nth_mem[OF that(2)]
    by (fastforce simp: knows_def ids_of_def split: bind_splits)
  with v(1,2) show ?thesis by blast
qed

theorem daemon_follows_stream_witness:
  "\<exists>dm v. session sample_app (\<lambda>_. sample_ctx) [log_entry sample_app (dm_store sample_registered 3) sample_entry] dm \<and>
    isDaemonConnected dm \<and> daemon_view (dm_wire dm) = Some v \<and> map (snd \<circ> snd) (vw_messages v) = [[1, 2, 3]] \<and>
    vw_table v 0 = Some (text_bytes ''DEMO'', text_bytes ''MAIN'')"
proof -
  have down: "whole_writes os_down" "whole_writes (os_up {})" by (simp_all add: whole_writes_def os_down_def os_up_def)
  have "session sample_app (\<lambda>_. sample_ctx) [] sample_registered"
    by (rule session_register[OF session_new down(1) _ sample_register_step]) (simp add: daemon_new_def)
  moreover have "\<not> isDaemonConnected sample_registered" "3 \<in> set (m_contexts sample_registered)"
    "open_result (os_up {}) (dm_opens sample_registered) \<noteq> -1" "dm_writes sample_registered = 0"
    by (simp_all add: sample_registered_def isDaemonConnected_def disconnectedFromDaemonFd_def os_up_def)
  then obtain dm where dm: "sendLog dlt_documented (os_up {}) (Some sample_app) 3 sample_entry sample_registered = Some dm"
    "isDaemonConnected dm"
    using sendLog_reconnects[of sample_registered "os_up {}" dlt_documented sample_app 3 sample_entry]
      sample_can_register[of "{}"] sample_accepted[of 0 "{}"] by auto
  ultimately have s: "session sample_app (\<lambda>_. sample_ctx) [log_entry sample_app (dm_store sample_registered 3) sample_entry] dm"
    using session_log[of sample_app _ "[]" sample_registered "os_up {}" 3 sample_entry dm, OF _ down(2)]
    by (simp add: sample_registered_def sample_entry_def maxMessageSize_def dlt_data_new_def)
  have ctxs: "m_contexts dm = [3]" "dc_context (dm_store dm 3) = dc_context sample_ctx"
    using sendLog_contexts[OF dm(1)] by (simp_all add: sample_registered_def)
  have "short_description sample_ctx"
    by (simp add: short_description_def sample_ctx_def dlt_ctx_new_def cstr_def)
  from daemon_follows_stream[OF s this] ctxs dm(2) obtain v where
    v: "daemon_view (dm_wire dm) = Some v"
    "vw_messages v = [log_entry sample_app (dm_store sample_registered 3) sample_entry]"
    "\<exists>a b. assign_id dlt_documented (app_id sample_app) = Some a \<and>
      assign_id dlt_documented (ctx_id (dc_context sample_ctx)) = Some b \<and> vw_table v 0 = Some (a, b)" by auto
  have "vw_table v 0 = Some (text_bytes ''DEMO'', text_bytes ''MAIN'')"
    using v(3) by (auto simp: assign_id_def sample_app_def sample_ctx_def dlt_ctx_new_def)
  moreover have "snd (snd (log_entry sample_app (dm_store sample_registered 3) sample_entry)) = [1, 2, 3]"
    by (simp add: log_entry_def sample_entry_def dlt_data_new_def case_prod_beta)
  ultimately show ?thesis using s dm(2) v(1,2) by auto
qed

end
