(* ===== verification/Registration.thy ===== *)
theory Registration
  imports Dlt_Session
begin

text \<open>
  Contexts registered by several threads at once. \<open>LogContextT::checkContext\<close> tests and sets
  \<open>m_bRegistered\<close> without a lock, so that two threads whose first statements use the same context can
  both register it; \<open>DaemonConnection::registerContext\<close> and \<open>applyLogLevel\<close> take the mutex of the
  connection. Threads \<open>0\<close> to \<open>n - 1\<close> interleave with each other and with the reader thread, one step
  at a time; the contexts here have the DLT back end, and are numbered as in \<open>dm_store\<close>.
\<close>

section \<open>Steps\<close>

datatype check_pc = Idle | Check nat | Ids nat | Base nat | Lock nat | Inside nat | Unlock nat | Flag nat

record registry =
  rg_process :: process
  rg_daemon :: daemon
  rg_registered :: "nat \<Rightarrow> bool"
  rg_mutex :: "nat option"
  rg_pc :: "nat \<Rightarrow> check_pc"

definition registry_start :: "process \<Rightarrow> (nat \<Rightarrow> dlt_ctx) \<Rightarrow> registry" where
  "registry_start p st = \<lparr>rg_process = p, rg_daemon = daemon_new st, rg_registered = (\<lambda>_. False),
     rg_mutex = None, rg_pc = (\<lambda>_. Idle)\<rparr>"

definition at_pc :: "nat \<Rightarrow> check_pc \<Rightarrow> registry \<Rightarrow> registry" where
  "at_pc t pc S = S\<lparr>rg_pc := (rg_pc S)(t := pc)\<rparr>"

text \<open>
  \<open>checkContext\<close> and the \<open>registerContext\<close> of the back end; \<open>None\<close> while the mutex is taken. The
  default application context is a static object of a function, which is constructed once.
\<close>

fun check_step :: "platform \<Rightarrow> dlt_api \<Rightarrow> dlt_os \<Rightarrow> nat \<Rightarrow> check_pc \<Rightarrow> registry \<Rightarrow> registry option" where
  "check_step pf api os t Idle S = None"
| "check_step pf api os t (Check c) S = Some (at_pc t (if \<not> rg_registered S c then Ids c else Idle) S)"
| "check_step pf api os t (Ids c) S = do {
     p \<leftarrow> setDefaultAPPIDSIfNeeded pf (rg_process S);
     Some (at_pc t (Base c) (S\<lparr>rg_process := p\<rparr>)) }"
| "check_step pf api os t (Base c) S =
     Some (at_pc t (Lock c) (S\<lparr>rg_process := registerContextBase pf (rg_process S)\<rparr>))"
| "check_step pf api os t (Lock c) S =
     (if rg_mutex S = None then Some (at_pc t (Inside c) (S\<lparr>rg_mutex := Some t\<rparr>)) else None)"
| "check_step pf api os t (Inside c) S = do {
     (pos, dm) \<leftarrow> registerContext api os (s_pAppLogContext (rg_process S)) c (rg_daemon S);
     Some (at_pc t (Unlock c) (S\<lparr>rg_daemon := dm\<rparr>)) }"
| "check_step pf api os t (Unlock c) S = Some (at_pc t (Flag c) (S\<lparr>rg_mutex := None\<rparr>))"
| "check_step pf api os t (Flag c) S = Some (at_pc t Idle (S\<lparr>rg_registered := (rg_registered S)(c := True)\<rparr>))"

text \<open>A level request takes the mutex for its whole length.\<close>

definition request_step :: "int \<Rightarrow> int \<Rightarrow> registry \<Rightarrow> registry option" where
  "request_step pos level S = (if rg_mutex S = None then do {
     dm \<leftarrow> applyLogLevel pos level (rg_daemon S);
     Some (S\<lparr>rg_daemon := dm\<rparr>) } else None)"

inductive registry_step :: "nat \<Rightarrow> platform \<Rightarrow> dlt_api \<Rightarrow> registry \<Rightarrow> registry \<Rightarrow> bool" for n pf api where
  enters: "t < n \<Longrightarrow> rg_pc S t = Idle \<Longrightarrow> registry_step n pf api S (at_pc t (Check c) S)"
| runs: "t < n \<Longrightarrow> check_step pf api os t (rg_pc S t) S = Some S' \<Longrightarrow> registry_step n pf api S S'"
| requests: "request_step pos level S = Some S' \<Longrightarrow> registry_step n pf api S S'"

inductive registry_reachable :: "nat \<Rightarrow> platform \<Rightarrow> dlt_api \<Rightarrow> process \<Rightarrow> (nat \<Rightarrow> dlt_ctx) \<Rightarrow> registry \<Rightarrow> bool"
  for n pf api p st where
  at_start: "registry_reachable n pf api p st (registry_start p st)"
| steps: "registry_reachable n pf api p st S \<Longrightarrow> registry_step n pf api S S' \<Longrightarrow> registry_reachable n pf api p st S'"

section \<open>The table\<close>

lemma registerAll_table:
  "registerAll api os a cids dm = Some dm' \<Longrightarrow> m_contexts dm' = m_contexts dm \<and>
     (\<forall>k. log_level_pos (dm_store dm' k) = log_level_pos (dm_store dm k))"
proof (induction cids arbitrary: dm)
  case (Cons k cids)
  then obtain dm1 where r: "sendContextRegistration api os a k dm = Some dm1" "registerAll api os a cids dm1 = Some dm'"
    by (auto split: bind_splits)
  then obtain app where "a = Some app" by (auto simp: sendContextRegistration_def Let_def split: bind_splits)
  with sendContextRegistration_frame[of api os app k dm dm1] r(1) Cons.IH[OF r(2)] show ?case by simp
qed simp

lemma initDaemonConnection_table:
  "initDaemonConnection api os a dm = Some dm' \<Longrightarrow> m_contexts dm' = m_contexts dm \<and>
     (\<forall>k. log_level_pos (dm_store dm' k) = log_level_pos (dm_store dm k))"
  by (auto simp: initDaemonConnection_def Let_def send_frame dest!: registerAll_table split: bind_splits if_splits)

lemma registerContext_table:
  assumes "registerContext api os a c dm = Some (pos, dm')"
  shows "m_contexts dm' = m_contexts dm @ [c] \<and> (\<forall>k. log_level_pos (dm_store dm' k) =
    (if k = c then int (length (m_contexts dm)) else log_level_pos (dm_store dm k)))"
proof -
  let ?dm1 = "dm\<lparr>dm_store := (dm_store dm)(c := (dm_store dm c)\<lparr>log_level_pos := int (length (m_contexts dm))\<rparr>),
                 m_contexts := m_contexts dm @ [c]\<rparr>"
  from assms obtain dm2 where i: "initDaemonConnection api os a ?dm1 = Some dm2"
    and s: "dm' = dm2 \<or> sendContextRegistration api os a c dm2 = Some dm'"
    by (auto simp: registerContext_def Let_def split: bind_splits if_splits)
  have "registerAll api os a [c] dm2 = Some dm'" if "sendContextRegistration api os a c dm2 = Some dm'"
    using that by simp
  from registerAll_table[OF this] initDaemonConnection_table[OF i] s show ?thesis by auto
qed

section \<open>Invariant\<close>

text \<open>
  \<open>pending c\<close>: threads that have seen the context unregistered and have not registered it yet;
  \<open>leaving c\<close>: threads that have registered it and are on their way to set the flag.
\<close>

definition pending :: "nat \<Rightarrow> nat \<Rightarrow> registry \<Rightarrow> nat set" where
  "pending n c S = {t. t < n \<and> rg_pc S t \<in> {Ids c, Base c, Lock c, Inside c}}"

definition leaving :: "nat \<Rightarrow> nat \<Rightarrow> registry \<Rightarrow> nat set" where
  "leaving n c S = {t. t < n \<and> rg_pc S t \<in> {Unlock c, Flag c}}"

definition copies :: "nat \<Rightarrow> registry \<Rightarrow> nat" where
  "copies c S = count_list (m_contexts (rg_daemon S)) c"

definition table_ok :: "registry \<Rightarrow> bool" where
  "table_ok S \<longleftrightarrow> (let dm = rg_daemon S in \<forall>c \<in> set (m_contexts dm).
     \<exists>i < length (m_contexts dm). m_contexts dm ! i = c \<and> log_level_pos (dm_store dm c) = int i)"

definition mutex_ok :: "registry \<Rightarrow> bool" where
  "mutex_ok S \<longleftrightarrow> (\<forall>t c. rg_pc S t \<in> {Inside c, Unlock c} \<longrightarrow> rg_mutex S = Some t)"

definition copies_ok :: "nat \<Rightarrow> nat \<Rightarrow> registry \<Rightarrow> bool" where
  "copies_ok n c S \<longleftrightarrow> (leaving n c S \<noteq> {} \<or> rg_registered S c \<longrightarrow> 0 < copies c S) \<and>
     (if rg_registered S c then copies c S + card (pending n c S) \<le> n else copies c S \<le> card (leaving n c S))"

definition registry_inv :: "nat \<Rightarrow> registry \<Rightarrow> bool" where
  "registry_inv n S \<longleftrightarrow> table_ok S \<and> mutex_ok S \<and> (\<forall>c. copies_ok n c S)"

text \<open>How a step of thread \<open>t\<close> moves it between the sets.\<close>

lemma pending_at [simp]:
  "t < n \<Longrightarrow> pending n c (at_pc t pc S) =
     (if pc \<in> {Ids c, Base c, Lock c, Inside c} then insert t (pending n c S) else pending n c S - {t})"
  by (auto simp: pending_def at_pc_def)

lemma leaving_at [simp]:
  "t < n \<Longrightarrow> leaving n c (at_pc t pc S) =
     (if pc \<in> {Unlock c, Flag c} then insert t (leaving n c S) else leaving n c S - {t})"
  by (auto simp: leaving_def at_pc_def)

lemma sets_frame [simp]:
  "pending n c (S\<lparr>rg_process := p\<rparr>) = pending n c S" "leaving n c (S\<lparr>rg_process := p\<rparr>) = leaving n c S"
  "pending n c (S\<lparr>rg_daemon := dm\<rparr>) = pending n c S" "leaving n c (S\<lparr>rg_daemon := dm\<rparr>) = leaving n c S"
  "pending n c (S\<lparr>rg_mutex := m\<rparr>) = pending n c S" "leaving n c (S\<lparr>rg_mutex := m\<rparr>) = leaving n c S"
  "pending n c (S\<lparr>rg_registered := r\<rparr>) = pending n c S" "leaving n c (S\<lparr>rg_registered := r\<rparr>) = leaving n c S"
  by (simp_all add: pending_def leaving_def)

lemma at_pc_simps [simp]:
  "rg_process (at_pc t pc S) = rg_process S" "rg_daemon (at_pc t pc S) = rg_daemon S"
  "rg_registered (at_pc t pc S) = rg_registered S" "rg_mutex (at_pc t pc S) = rg_mutex S"
  "rg_pc (at_pc t pc S) = (rg_pc S)(t := pc)"
  by (simp_all add: at_pc_def)

lemma finite_sets [simp]: "finite (pending n c S)" "finite (leaving n c S)"
  by (simp_all add: pending_def leaving_def)

lemma in_sets:
  "t \<in> pending n c S \<longleftrightarrow> t < n \<and> rg_pc S t \<in> {Ids c, Base c, Lock c, Inside c}"
  "t \<in> leaving n c S \<longleftrightarrow> t < n \<and> rg_pc S t \<in> {Unlock c, Flag c}"
  by (simp_all add: pending_def leaving_def)

lemma sets_bound: "card (pending n c S) + card (leaving n c S) \<le> n"
proof -
  have "pending n c S \<inter> leaving n c S = {}" by (auto simp: in_sets)
  then have "card (pending n c S) + card (leaving n c S) = card (pending n c S \<union> leaving n c S)"
    by (simp add: card_Un_disjoint)
  also have "\<dots> \<le> card {..<n}" by (rule card_mono) (auto simp: in_sets)
  finally show ?thesis by simp
qed

lemma table_ok_cong:
  "rg_daemon S' = rg_daemon S \<Longrightarrow> table_ok S' = table_ok S"
  by (simp add: table_ok_def)

lemma copies_frame [simp]: "copies c (at_pc t pc S) = copies c S" "copies c (S\<lparr>rg_process := p\<rparr>) = copies c S"
  "copies c (S\<lparr>rg_mutex := m\<rparr>) = copies c S" "copies c (S\<lparr>rg_registered := r\<rparr>) = copies c S"
  by (simp_all add: copies_def)

lemma copies_same [simp]: "m_contexts dm = m_contexts (rg_daemon S) \<Longrightarrow> copies c (S\<lparr>rg_daemon := dm\<rparr>) = copies c S"
  by (simp add: copies_def)

lemma check_step_copies:
  assumes "check_step pf api os t (rg_pc S t) S = Some S'" and "t < n" and "copies_ok n c S"
  shows "copies_ok n c S'"
proof (cases "rg_pc S t")
  case (Inside d)
  with assms(1) obtain pos dm where r: "registerContext api os (s_pAppLogContext (rg_process S)) d (rg_daemon S) = Some (pos, dm)"
    and S': "S' = at_pc t (Unlock d) (S\<lparr>rg_daemon := dm\<rparr>)" by (auto split: bind_splits)
  have n: "copies c S' = copies c S + (if c = d then 1 else 0)"
    using registerContext_table[OF r] by (simp add: copies_def S')
  have "t \<in> pending n d S" "t \<notin> leaving n c S" "t \<notin> pending n c S \<or> c = d" using Inside assms(2) by (auto simp: in_sets)
  with n assms(2,3) card_Diff_singleton[of t "pending n c S"] card_gt_0_iff[of "pending n d S"] show ?thesis
    by (cases "c = d") (auto simp: copies_ok_def S' split: if_splits)
next
  case (Flag d)
  with assms(1) have S': "S' = at_pc t Idle (S\<lparr>rg_registered := (rg_registered S)(d := True)\<rparr>)" by simp
  have "t \<in> leaving n d S" "t \<notin> pending n c S" "t \<notin> leaving n c S \<or> c = d" using Flag assms(2) by (auto simp: in_sets)
  with assms(2,3) sets_bound[of n c S] show ?thesis
    by (cases "c = d") (auto simp: copies_ok_def S' split: if_splits)
next
  case (Check d)
  with assms show ?thesis
    by (auto simp: copies_ok_def in_sets split: if_splits)
next
  case (Ids d)
  with assms show ?thesis by (cases "c = d") (auto simp: copies_ok_def in_sets insert_absorb split: if_splits bind_splits)
next
  case (Base d)
  with assms show ?thesis by (cases "c = d") (auto simp: copies_ok_def in_sets insert_absorb split: if_splits)
next
  case (Lock d)
  with assms show ?thesis by (cases "c = d") (auto simp: copies_ok_def in_sets insert_absorb split: if_splits)
next
  case (Unlock d)
  with assms show ?thesis by (cases "c = d") (auto simp: copies_ok_def in_sets insert_absorb split: if_splits)
qed (use assms in simp)

lemma check_step_table:
  assumes "check_step pf api os t (rg_pc S t) S = Some S'" and "table_ok S"
  shows "table_ok S'"
proof (cases "rg_pc S t")
  case (Inside d)
  with assms(1) obtain pos dm where r: "registerContext api os (s_pAppLogContext (rg_process S)) d (rg_daemon S) = Some (pos, dm)"
    and S': "S' = at_pc t (Unlock d) (S\<lparr>rg_daemon := dm\<rparr>)" by (auto split: bind_splits)
  note f = registerContext_table[OF r]
  let ?cs = "m_contexts (rg_daemon S)"
  have "\<exists>i < length ?cs + 1. (?cs @ [d]) ! i = c \<and> log_level_pos (dm_store dm c) = int i" if "c \<in> set (?cs @ [d])" for c
  proof (cases "c = d")
    case True
    with f show ?thesis by (intro exI[of _ "length ?cs"]) simp
  next
    case False
    with that assms(2) obtain i where "i < length ?cs" "?cs ! i = c" "log_level_pos (dm_store (rg_daemon S) c) = int i"
      by (auto simp: table_ok_def Let_def)
    with f False show ?thesis by (intro exI[of _ i]) (simp add: nth_append)
  qed
  then show ?thesis using f by (simp add: table_ok_def S' Let_def)
qed (use assms in \<open>auto simp: table_ok_def split: bind_splits if_splits\<close>)

lemma mutex_okD: "mutex_ok S \<Longrightarrow> rg_pc S u \<in> {Inside c, Unlock c} \<Longrightarrow> rg_mutex S = Some u"
  unfolding mutex_ok_def by blast

lemma check_step_mutex:
  assumes run: "check_step pf api os t (rg_pc S t) S = Some S'" and ok: "mutex_ok S"
  shows "mutex_ok S'"
  unfolding mutex_ok_def
proof (intro allI impI)
  fix u c
  assume u: "rg_pc S' u \<in> {Inside c, Unlock c}"
  have other: "rg_mutex S = Some u" if "u \<noteq> t"
    using that run u mutex_okD[OF ok, of u c] by (cases "rg_pc S t") (auto split: bind_splits if_splits)
  show "rg_mutex S' = Some u"
  proof (cases "u = t")
    case True
    with run u mutex_okD[OF ok, of t] show ?thesis by (cases "rg_pc S t") (auto split: bind_splits if_splits)
  next
    case False
    with run other mutex_okD[OF ok, of t] show ?thesis by (cases "rg_pc S t") (auto split: bind_splits if_splits)
  qed
qed

lemma registry_step_inv:
  assumes "registry_step n pf api S S'" and "registry_inv n S"
  shows "registry_inv n S'"
  using assms(1)
proof (cases rule: registry_step.cases)
  case (enters t c)
  with assms(2) show ?thesis
    by (auto simp: registry_inv_def mutex_ok_def table_ok_def copies_ok_def in_sets)
next
  case (runs t os)
  with assms(2) check_step_copies check_step_table check_step_mutex show ?thesis by (metis registry_inv_def)
next
  case (requests pos level)
  then obtain dm where dm: "applyLogLevel pos level (rg_daemon S) = Some dm" "S' = S\<lparr>rg_daemon := dm\<rparr>"
    by (auto simp: request_step_def split: bind_splits if_splits)
  note f = applyLogLevel_frame[OF dm(1)]
  with assms(2) show ?thesis
    by (simp add: dm(2) registry_inv_def mutex_ok_def table_ok_def copies_ok_def Let_def)
qed

lemma registry_reachable_inv: "registry_reachable n pf api p st S \<Longrightarrow> registry_inv n S"
proof (induction rule: registry_reachable.induct)
  case at_start
  show ?case
    by (simp add: registry_inv_def table_ok_def mutex_ok_def copies_ok_def copies_def registry_start_def
        daemon_new_def leaving_def pending_def)
next
  case (steps S S')
  then show ?case by (blast intro: registry_step_inv)
qed

section \<open>A schedule\<close>

text \<open>The threads of a schedule take turns; each uses context \<open>c\<close>.\<close>

fun schedule_run :: "platform \<Rightarrow> dlt_api \<Rightarrow> dlt_os \<Rightarrow> nat \<Rightarrow> nat list \<Rightarrow> registry \<Rightarrow> registry option" where
  "schedule_run pf api os c [] S = Some S"
| "schedule_run pf api os c (t # ts) S = do {
     S \<leftarrow> (if rg_pc S t = Idle then Some (at_pc t (Check c) S) else check_step pf api os t (rg_pc S t) S);
     schedule_run pf api os c ts S }"

lemma schedule_reachable:
  "registry_reachable n pf api p st S \<Longrightarrow> \<forall>t \<in> set ts. t < n \<Longrightarrow> schedule_run pf api os c ts S = Some S' \<Longrightarrow>
     registry_reachable n pf api p st S'"
proof (induction ts arbitrary: S)
  case (Cons t ts)
  then obtain S1 where s: "(if rg_pc S t = Idle then Some (at_pc t (Check c) S) else check_step pf api os t (rg_pc S t) S) = Some S1"
    "schedule_run pf api os c ts S1 = Some S'" by (auto split: bind_splits)
  have "registry_step n pf api S S1"
    using s(1) Cons.prems(2) by (auto intro: registry_step.intros split: if_splits)
  with Cons.IH[OF registry_reachable.steps[OF Cons.prems(1) this] _ s(2)] Cons.prems(2) show ?case by simp
qed simp

definition sample_process :: process where
  "sample_process = process_init\<lparr>s_pAppLogContext := Some sample_app, s_initialized := True\<rparr>"

text \<open>Both threads find the context unregistered before either has registered it.\<close>

definition both_first :: "nat list" where
  "both_first = [0, 1, 0, 1, 0, 1, 0, 1, 0, 0, 0, 0, 1, 1, 1, 1]"

lemma both_first_run:
  "\<exists>S. schedule_run sample_platform dlt_documented os_down 3 both_first (registry_start sample_process (\<lambda>_. sample_ctx)) = Some S \<and>
     m_contexts (rg_daemon S) = [3, 3] \<and> rg_registered S 3 \<and> rg_mutex S = None \<and> rg_pc S 0 = Idle \<and> rg_pc S 1 = Idle"
  by (simp add: both_first_def registry_start_def sample_process_def setDefaultAPPIDSIfNeeded_def registerContextBase_def
      registerContext_def initDaemonConnection_def daemon_new_def isDaemonConnected_def disconnectedFromDaemonFd_def
      os_down_def at_pc_def Let_def)

section \<open>Properties\<close>

text \<open>
  C10. Contexts registered by any number of threads, under every interleaving with each other and with
  level requests: whenever the flag of a context is set it is in the table, the position it knows is
  one of its own, a level request for any position reaches the context at that position and no other,
  and there are never more copies of a context than threads.
\<close>

theorem concurrent_registration_consistent:
  assumes "registry_reachable n pf api p st S"
  shows "(\<forall>c. rg_registered S c \<longrightarrow> (\<exists>i < length (m_contexts (rg_daemon S)).
       m_contexts (rg_daemon S) ! i = c \<and> log_level_pos (dm_store (rg_daemon S) c) = int i)) \<and>
    (\<forall>c. count_list (m_contexts (rg_daemon S)) c \<le> n) \<and>
    (\<forall>pos level S' c. request_step pos level S = Some S' \<longrightarrow> 0 \<le> pos \<and> pos < int (length (m_contexts (rg_daemon S))) \<longrightarrow>
       length (m_contexts (rg_daemon S)) < 2 ^ 31 \<longrightarrow>
       m_activeLogLevel (dm_store (rg_daemon S') c) =
         (if c = m_contexts (rg_daemon S) ! nat pos then level else m_activeLogLevel (dm_store (rg_daemon S) c)))"
proof (intro conjI allI impI)
  note inv = registry_reachable_inv[OF assms]
  fix c
  have ok: "copies_ok n c S" using inv by (simp add: registry_inv_def)
  show "count_list (m_contexts (rg_daemon S)) c \<le> n"
    using ok sets_bound[of n c S] by (auto simp: copies_ok_def copies_def split: if_splits)
  assume "rg_registered S c"
  with ok have "c \<in> set (m_contexts (rg_daemon S))"
    by (auto simp: copies_ok_def copies_def) (metis count_notin less_numeral_extra(3))
  with inv show "\<exists>i < length (m_contexts (rg_daemon S)).
       m_contexts (rg_daemon S) ! i = c \<and> log_level_pos (dm_store (rg_daemon S) c) = int i"
    by (auto simp: registry_inv_def table_ok_def Let_def)
next
  fix pos level S' c
  assume r: "request_step pos level S = Some S'" and pos: "0 \<le> pos \<and> pos < int (length (m_contexts (rg_daemon S)))"
    and len: "length (m_contexts (rg_daemon S)) < 2 ^ 31"
  have "to_signed 32 (int (length (m_contexts (rg_daemon S)))) = int (length (m_contexts (rg_daemon S)))"
    using len by (intro to_signed_id) simp_all
  with r pos show "m_activeLogLevel (dm_store (rg_daemon S') c) =
      (if c = m_contexts (rg_daemon S) ! nat pos then level else m_activeLogLevel (dm_store (rg_daemon S) c))"
    by (auto simp: request_step_def applyLogLevel_def setActiveLogLevel_def Let_def split: bind_splits if_splits)
qed

theorem concurrent_registration_consistent_witness:
  "\<exists>S. registry_reachable 2 sample_platform dlt_documented sample_process (\<lambda>_. sample_ctx) S \<and> rg_registered S 3 \<and>
     (\<exists>i < 2. log_level_pos (dm_store (rg_daemon S) 3) = int i) \<and> count_list (m_contexts (rg_daemon S)) 3 \<le> 2"
proof -
  from both_first_run obtain S where S: "schedule_run sample_platform dlt_documented os_down 3 both_first
      (registry_start sample_process (\<lambda>_. sample_ctx)) = Some S" "m_contexts (rg_daemon S) = [3, 3]" "rg_registered S 3" by blast
  have r: "registry_reachable 2 sample_platform dlt_documented sample_process (\<lambda>_. sample_ctx) S"
    by (rule schedule_reachable[OF registry_reachable.at_start _ S(1)]) (simp add: both_first_def)
  from concurrent_registration_consistent[OF r] S(2,3) r show ?thesis by fastforce
qed

text \<open>
  The bound is reached: two threads whose first statements use the same context at the same time
  register it twice, and the daemon gets two positions for it.
\<close>

lemma context_registered_twice:
  "\<exists>S. registry_reachable 2 sample_platform dlt_documented sample_process (\<lambda>_. sample_ctx) S \<and>
     m_contexts (rg_daemon S) = [3, 3] \<and> rg_registered S 3 \<and> rg_mutex S = None"
proof -
  from both_first_run obtain S where S: "schedule_run sample_platform dlt_documented os_down 3 both_first
      (registry_start sample_process (\<lambda>_. sample_ctx)) = Some S" "m_contexts (rg_daemon S) = [3, 3]" "rg_registered S 3"
      "rg_mutex S = None" by blast
  have "registry_reachable 2 sample_platform dlt_documented sample_process (\<lambda>_. sample_ctx) S"
    by (rule schedule_reachable[OF registry_reachable.at_start _ S(1)]) (simp add: both_first_def)
  with S show ?thesis by blast
qed

end
