(* ===== verification/Text_Statement.thy ===== *)
theory Text_Statement
  imports Program
begin

text \<open>
  Statements over any tuple of text back ends, consoles and files: the statement returns, prints
  on the enabled consoles and appends to the log file. The example of \<open>examples/file\<close> is a program of
  this kind.
\<close>

section \<open>What reaches the log file\<close>

definition file_record :: "surroundings \<Rightarrow> (int \<times> string) option \<Rightarrow> LogInfo \<Rightarrow> string \<Rightarrow> stream_ctx \<Rightarrow> string" where
  "file_record sr thread li u c =
     prefix_text (sr_elapsed sr) (getShortID c) (m_level li) @ u @ suffix_text thread li"

fun file_records :: "surroundings \<Rightarrow> (int \<times> string) option \<Rightarrow> LogInfo \<Rightarrow> string \<Rightarrow> backend_ctx list \<Rightarrow> string" where
  "file_records sr thread li u [] = []"
| "file_records sr thread li u (FileCtx c # cs) =
     (if stream_isEnabled c (m_level li) then file_record sr thread li u c else []) @ file_records sr thread li u cs"
| "file_records sr thread li u (_ # cs) = file_records sr thread li u cs"

lemma file_records_Cons:
  "file_records sr th li u (c # cs) = file_records sr th li u [c] @ file_records sr th li u cs"
  by (cases c) simp_all

lemma file_write_append: "file_write (s @ t) st = file_write t (file_write s st)"
  by (auto simp: file_write_def)

lemma file_write_Nil [simp]: "file_write [] st = st"
  by (simp add: file_write_def)

text \<open>A file's suffix is used as a format.\<close>

fun text_only :: "backend_ctx \<Rightarrow> bool" where
  "text_only (DltCtx k) = False"
| "text_only _ = True"

lemma text_only_dlt: "\<forall>c \<in> set cs. text_only c \<Longrightarrow> dlt_addresses cs = []"
  by (induction cs rule: dlt_addresses.induct) simp_all

definition format_safe :: "(int \<times> string) option \<Rightarrow> LogInfo \<Rightarrow> bool" where
  "format_safe thread li \<longleftrightarrow> CHR ''%'' \<notin> set (suffix_text thread li)"

section \<open>The part of an entry that belongs to a text back end\<close>

fun shows_text :: "surroundings \<Rightarrow> world \<Rightarrow> LogInfo \<Rightarrow> string \<Rightarrow> backend_ctx \<Rightarrow> backend_data \<Rightarrow> bool" where
  "shows_text sr w li u (ConsoleCtx c) d = holds_text sr w li u (ConsoleCtx c) d"
| "shows_text sr w li u (FileCtx c) d = (\<exists>x. d = FileData x \<and> (stream_isEnabled c (m_level li) \<longrightarrow>
     sd_inv x \<and> default_formats x \<and> sd_text x = prefix_text (sr_elapsed sr) (getShortID c) (m_level li) @ u))"
| "shows_text sr w li u NullCtx d = (d = NullData)"
| "shows_text sr w li u (DltCtx k) d = False"

lemma shows_holds: "shows_text sr w li u c d \<Longrightarrow> holds_text sr w li u c d"
  by (cases c) auto

lemma same_shows:
  assumes "same_info li li'" and "same_world sr w w'"
  shows "shows_text sr w' li' u c d = shows_text sr w li u c d"
proof (cases c)
  case (ConsoleCtx cc)
  with same_holds[OF assms, of u c d] show ?thesis by simp
next
  case (FileCtx c')
  with assms show ?thesis by (simp add: same_info_def)
qed simp_all

lemma data_init_shows:
  assumes "text_only c" and "length (sr_junk sr) = STATIC_SIZE"
  shows "\<exists>d. data_init sr li c w = Some (d, w) \<and> shows_text sr w li [] c d"
proof (cases c)
  case (ConsoleCtx cc)
  from for_each_init_total[of "[c]" sr li w] ConsoleCtx assms(2) obtain d where
    "data_init sr li c w = Some (d, w)" by (auto split: bind_splits)
  with data_init_holds[OF this assms(2)] ConsoleCtx show ?thesis by auto
next
  case (FileCtx fc)
  from file_init_ok[OF assms(2), of fc "sr_elapsed sr" li] obtain d where
    "file_init True fc (sr_elapsed sr) li (file_data_new (sr_junk sr)) = Some d" "sd_inv d" "default_formats d"
    "sd_text d = prefix_text (sr_elapsed sr) (getShortID fc) (m_level li)" by blast
  with FileCtx show ?thesis
    by (cases "stream_isEnabled fc (m_level li)") (simp_all add: file_init_def sd_init_def)
qed (use assms in auto)

lemma for_each_init_shows:
  assumes "\<forall>c \<in> set cs. text_only c" and "length (sr_junk sr) = STATIC_SIZE"
  shows "\<exists>ds. for_each_init sr li cs w = Some (ds, w) \<and> list_all2 (shows_text sr w li []) cs ds"
  using assms(1)
proof (induction cs)
  case (Cons c cs)
  then obtain ds where "for_each_init sr li cs w = Some (ds, w)" "list_all2 (shows_text sr w li []) cs ds" by auto
  moreover from data_init_shows[OF _ assms(2), of c li w] Cons.prems obtain d where
    "data_init sr li c w = Some (d, w)" "shows_text sr w li [] c d" by auto
  ultimately show ?case by simp
qed simp

text \<open>Calls always succeed and extend the text.\<close>

lemma puts_stream_text:
  assumes "sd_inv d" and "op_texts ops = Some u"
  shows "\<exists>d'. puts (sd_do True) ops d = Some d' \<and> line_ext d u d'"
  using assms
proof (induction ops arbitrary: d u)
  case (Cons op ops)
  from Cons.prems(2) obtain v v' where v: "op_text op = Some v" "op_texts ops = Some v'" "u = v @ v'"
    by (auto split: bind_splits)
  from sd_do_ext[OF Cons.prems(1) v(1)] obtain d1 where d1: "sd_do True op d = Some d1" "line_ext d v d1" by blast
  from Cons.IH[OF line_ext_sel(4)[OF d1(2)] v(2)] obtain d' where
    "puts (sd_do True) ops d1 = Some d'" "line_ext d1 v' d'" by blast
  with d1 v(3) show ?case by (auto intro: line_ext_trans)
qed (auto simp: line_ext_refl)

lemma puts_off:
  assumes "\<not> data_isEnabled w level (c, d)"
  shows "puts (data_step sr w level c) ops d = Some d"
  using assms by (induction ops) (simp_all add: data_step_def)

lemma puts_shows:
  assumes "shows_text sr w li t c d" and "op_texts ops = Some u"
  shows "\<exists>d'. puts (data_step sr w (m_level li) c) ops d = Some d' \<and> shows_text sr w li (t @ u) c d'"
proof (cases "data_isEnabled w (m_level li) (c, d)")
  case False
  with assms puts_off[OF False, of sr ops] show ?thesis by (cases c) auto
next
  case True
  show ?thesis
  proof (cases c)
    case (ConsoleCtx cc)
    with True assms(1) obtain x where x: "d = ConsoleData x" "sd_inv x" by auto
    from puts_stream_text[OF x(2) assms(2)] obtain x' where "puts (sd_do True) ops x = Some x'" by blast
    with x(1) True ConsoleCtx have p: "puts (data_step sr w (m_level li) c) ops d = Some (ConsoleData x')"
      by (simp add: puts_console)
    with puts_holds_text[of sr w li t c d ops u] assms ConsoleCtx show ?thesis by auto
  next
    case (FileCtx fc)
    with True assms(1) obtain x where x: "d = FileData x" "sd_inv x" "default_formats x"
      "sd_text x = prefix_text (sr_elapsed sr) (getShortID fc) (m_level li) @ t" "stream_isEnabled fc (m_level li)" by auto
    from puts_stream_text[OF x(2) assms(2)] obtain x' where
      "puts (sd_do True) ops x = Some x'" "line_ext x u x'" by blast
    with x FileCtx line_ext_sel[of x u x'] line_ext_default_formats[of x u x'] show ?thesis
      by (simp add: puts_file)
  qed (use True assms in \<open>cases d; simp\<close>)+
qed

lemma stream_items_exist:
  assumes "length (lc_contexts ctx) = length (le_data e)"
    and "\<forall>i < length (le_data e). puts (data_step sr w (m_level (le_li e)) (lc_contexts ctx ! i))
      (calls_ops (m_hexEnabled (le_li e)) calls) (le_data e ! i) \<noteq> None"
  shows "\<exists>e'. stream_items sr ctx (pure_items calls) e w = Some (e', w)"
  using assms
proof (induction calls arbitrary: e)
  case (Cons call calls)
  show ?case
  proof (cases "\<exists>on. call = CallSetHex on")
    case True
    then obtain on where call: "call = CallSetHex on" by blast
    with Cons.IH[of "e\<lparr>le_li := (le_li e)\<lparr>m_hexEnabled := on\<rparr>\<rparr>"] Cons.prems show ?thesis by simp
  next
    case False
    let ?hex = "m_hexEnabled (le_li e)" and ?lvl = "m_level (le_li e)"
    from False obtain op where op: "calls_ops ?hex (call # calls) = op # calls_ops ?hex calls"
      "entry_do sr ctx w call e = map_option (\<lambda>ds. e\<lparr>le_data := ds\<rparr>)
         (for_each_do sr w ?lvl op (zip (lc_contexts ctx) (le_data e)))"
      by (cases call) (auto split: option.splits bind_splits)
    have "\<exists>d'. data_step sr w ?lvl (lc_contexts ctx ! i) op (le_data e ! i) = Some d' \<and>
        puts (data_step sr w ?lvl (lc_contexts ctx ! i)) (calls_ops ?hex calls) d' \<noteq> None"
      if "i < length (le_data e)" for i
      using Cons.prems(2) that op(1) by (auto split: bind_splits)
    then obtain f where f: "\<forall>i < length (le_data e).
        data_step sr w ?lvl (lc_contexts ctx ! i) op (le_data e ! i) = Some (f i) \<and>
        puts (data_step sr w ?lvl (lc_contexts ctx ! i)) (calls_ops ?hex calls) (f i) \<noteq> None" by metis
    define ds where "ds = map f [0..<length (le_data e)]"
    have each: "for_each_do sr w ?lvl op (zip (lc_contexts ctx) (le_data e)) = Some ds"
      unfolding for_each_do_nth[OF Cons.prems(1)] using f by (simp add: ds_def)
    from Cons.IH[of "e\<lparr>le_data := ds\<rparr>"] Cons.prems(1) f op(2) each show ?thesis by (auto simp: ds_def)
  qed
qed simp

section \<open>Destruction\<close>

lemma data_dtor_shows:
  assumes "shows_text sr w li u c d" and "short_enough sr (fst (ask_thread sr w)) li u"
    and "format_safe (fst (ask_thread sr w)) li"
  shows "\<exists>li' w'. data_dtor sr (c, d) li w = Some (li', w') \<and>
    w_file w' = file_write (file_records sr (fst (ask_thread sr w)) li u [c]) (w_file w)"
proof (cases c)
  case (ConsoleCtx cc)
  have "\<exists>li' w'. for_each_dtor sr (zip [c] [d]) li w = Some (li', w')"
    using ConsoleCtx shows_holds[OF assms(1)] assms(2) by (intro for_each_dtor_total[of _ _ sr w li u]) simp_all
  then obtain li' w' where r: "data_dtor sr (c, d) li w = Some (li', w')" by (auto split: bind_splits)
  from ConsoleCtx assms(1) obtain x where x: "d = ConsoleData x" by auto
  obtain th w1 where a: "(if console_isEnabled (w_console w) cc (m_level li) then ask_thread sr w else (None, w)) = (th, w1)"
    by force
  from ask_if_same[OF a] have "w_file w1 = w_file w" by blast
  with r a ConsoleCtx x have "w_file w' = w_file w"
    by (auto simp: Let_def split: bind_splits option.splits)
  with r ConsoleCtx show ?thesis by simp
next
  case (FileCtx fc)
  with assms(1) obtain x where x: "d = FileData x" "stream_isEnabled fc (m_level li) \<Longrightarrow> sd_inv x \<and> default_formats x \<and>
      sd_text x = prefix_text (sr_elapsed sr) (getShortID fc) (m_level li) @ u" by auto
  show ?thesis
  proof (cases "stream_isEnabled fc (m_level li)")
    case True
    obtain th w1 where a: "ask_thread sr w = (th, w1)" by force
    note same = ask_thread_same[OF a]
    have "length (sd_text x) + length (suffix_text th li) < SIZE_MAX"
      using x(2)[OF True] assms(2) a length_prefix_text[of "sr_elapsed sr" "getShortID fc" "m_level li"]
      by (simp add: short_enough_def SIZE_MAX_def)
    with file_flush_ok[of x "sr_junk sr" th li "w_file w1"] x(2)[OF True] assms(2,3) a
    have "file_flush True (sr_junk sr) th li x (w_file w1) =
        Some (file_write (sd_text x @ suffix_text th li) (w_file w1), snd (getFileName li))"
      by (simp add: short_enough_def format_safe_def)
    with True a x(1) x(2)[OF True] FileCtx same show ?thesis by (simp add: file_record_def)
  next
    case False
    with x(1) FileCtx show ?thesis by (simp add: file_flush_def sd_flushLog_def)
  qed
qed (use assms in auto)

lemma same_format_safe: "same_info li li' \<Longrightarrow> format_safe th li' = format_safe th li"
  by (simp add: format_safe_def same_info_suffix)

lemma same_records: "same_info li li' \<Longrightarrow> file_records sr th li' u cs = file_records sr th li u cs"
  by (induction cs rule: dlt_addresses.induct)
     (simp_all add: file_record_def same_info_suffix, simp_all add: same_info_def)

lemma for_each_dtor_shows:
  assumes "length cs = length ds" and "list_all2 (shows_text sr w li u) cs ds"
    and "short_enough sr (fst (ask_thread sr w)) li u" and "format_safe (fst (ask_thread sr w)) li"
  shows "\<exists>li' w'. for_each_dtor sr (zip cs ds) li w = Some (li', w') \<and>
    w_file w' = file_write (file_records sr (fst (ask_thread sr w)) li u cs) (w_file w)"
  using assms
proof (induction cs ds arbitrary: li w rule: list_induct2)
  case (Cons c cs d ds)
  let ?th = "fst (ask_thread sr w)"
  from data_dtor_shows[of sr w li u c d] Cons.prems obtain li1 w1 where
    s: "data_dtor sr (c, d) li w = Some (li1, w1)" "w_file w1 = file_write (file_records sr ?th li u [c]) (w_file w)"
    by auto
  have same: "same_info li li1" "same_world sr w w1"
    using data_dtor_prints[OF s(1), of u] Cons.prems shows_holds by auto
  have th: "fst (ask_thread sr w1) = ?th" using same(2) by (simp add: same_world_def)
  have "list_all2 (shows_text sr w1 li1 u) cs ds"
    using Cons.prems(1) by (simp add: same_shows[OF same] cong: list.rel_cong)
  moreover have "short_enough sr ?th li1 u" "format_safe ?th li1"
    using Cons.prems(2,3) by (simp_all add: same_short[OF same(1)] same_format_safe[OF same(1)])
  ultimately obtain li' w' where "for_each_dtor sr (zip cs ds) li1 w1 = Some (li', w')"
    "w_file w' = file_write (file_records sr ?th li u cs) (w_file w1)"
    using Cons.IH[of w1 li1] by (auto simp: th same_records[OF same(1)])
  with s show ?case
    by (simp add: file_write_append[symmetric] file_records_Cons[of sr ?th li u c cs])
qed simp

lemma text_statement_end_to_end_lemma:
  assumes "m_bRegistered ctx" and "\<exists>c \<in> set (lc_contexts ctx). ctx_isEnabled sr w level c"
    and "\<forall>c \<in> set (lc_contexts ctx). text_only c"
    and "op_texts (calls_ops False calls) = Some u"
    and "short_enough sr (fst (ask_thread sr w)) (LogInfo_ctor level path line function) u"
    and "format_safe (fst (ask_thread sr w)) (LogInfo_ctor level path line function)"
  shows "\<exists>w'. log_with_context sr level path line function (pure_items calls) ctx w = Some (ctx, w') \<and>
    w_printed w' = w_printed w @ console_outputs sr w (fst (ask_thread sr w))
      (LogInfo_ctor level path line function) u (lc_contexts ctx) @ fatal_message level \<and>
    w_file w' = file_write (file_records sr (fst (ask_thread sr w))
      (LogInfo_ctor level path line function) u (lc_contexts ctx)) (w_file w) \<and>
    (w_aborted w' \<longleftrightarrow> w_aborted w \<or> level = LvFatal)"
proof -
  let ?li = "LogInfo_ctor level path line function" and ?cs = "lc_contexts ctx" and ?th = "fst (ask_thread sr w)"
  have "length (sr_junk sr) = STATIC_SIZE" using assms(5) by (simp add: short_enough_def)
  from for_each_init_shows[OF assms(3) this, of ?li w] obtain ds where
    ds: "for_each_init sr ?li ?cs w = Some (ds, w)" "list_all2 (shows_text sr w ?li []) ?cs ds" by blast
  let ?e = "\<lparr>le_li = ?li, le_data = ds\<rparr>"
  have c: "createLog sr level path line function ctx w = Some (?e, w)"
    by (simp add: createLog_def LogEntry_ctor_def ds(1) Let_def)
  have len: "length ?cs = length (le_data ?e)" using list_all2_lengthD[OF ds(2)] by simp
  have puts: "\<exists>d'. puts (data_step sr w level (?cs ! i)) (calls_ops False calls) (ds ! i) = Some d' \<and>
      shows_text sr w ?li u (?cs ! i) d'" if "i < length ds" for i
    using puts_shows[OF list_all2_nthD2[OF ds(2) that] assms(4)] by simp
  have "\<exists>e'. stream_items sr ctx (pure_items calls) ?e w = Some (e', w)"
    using puts by (intro stream_items_exist[OF len]) fastforce
  then obtain e' where e': "stream_items sr ctx (pure_items calls) ?e w = Some (e', w)" by blast
  note s = stream_items_pure[OF len e']
  have li': "same_info ?li (le_li e')" using s by (metis same_info_hex log_entry.select_convs(1))
  have "list_all2 (shows_text sr w (le_li e') u) ?cs (le_data e')"
    unfolding same_shows[OF li' same_world_refl]
  proof (rule list_all2_all_nthI)
    show "length ?cs = length (le_data e')" using s len by simp
    fix j assume "j < length ?cs"
    with puts[of j] s len show "shows_text sr w ?li u (?cs ! j) (le_data e' ! j)" by auto
  qed
  from for_each_dtor_shows[OF _ this] s len assms(5,6) obtain li2 w2 where
    d: "for_each_dtor sr (zip ?cs (le_data e')) (le_li e') w = Some (li2, w2)"
    "w_file w2 = file_write (file_records sr ?th ?li u ?cs) (w_file w)"
    by (auto simp: same_short[OF li'] same_format_safe[OF li'] same_records[OF li'])
  then obtain w' where w': "entry_dtor sr ctx e' w = Some w'"
    "w_file w' = file_write (file_records sr ?th ?li u ?cs) (w_file w)"
    by (auto simp: entry_dtor_def split: option.splits)
  from statement_prints[OF c e' w'(1) assms(4,5) text_only_dlt[OF assms(3)]] enabled_statement[OF assms(1,2)] c e' w' show ?thesis by simp
qed

section \<open>Properties\<close>

text \<open>
  C8. What a statement does over any mixture of console, file and null back ends: it returns; every
  enabled console prints its line, in the order of the back ends; every enabled file back end appends
  one record to the log file if one is open, in order; and after a fatal statement the process ends.
  The texts are those of all calls. The name of the source file and of the thread must not hold a
  percent sign, because a file's suffix is used as a format.
\<close>

theorem text_statement_end_to_end:
  assumes "m_bRegistered ctx" and "\<exists>c \<in> set (lc_contexts ctx). ctx_isEnabled sr w level c"
    and "\<forall>c \<in> set (lc_contexts ctx). text_only c"
    and "op_texts (calls_ops False calls) = Some u"
    and "short_enough sr (fst (ask_thread sr w)) (LogInfo_ctor level path line function) u"
    and "format_safe (fst (ask_thread sr w)) (LogInfo_ctor level path line function)"
  shows "\<exists>w'. log_with_context sr level path line function (pure_items calls) ctx w = Some (ctx, w') \<and>
    w_printed w' = w_printed w @ console_outputs sr w (fst (ask_thread sr w))
      (LogInfo_ctor level path line function) u (lc_contexts ctx) @ fatal_message level \<and>
    w_file w' = file_write (file_records sr (fst (ask_thread sr w))
      (LogInfo_ctor level path line function) u (lc_contexts ctx)) (w_file w) \<and>
    (w_aborted w' \<longleftrightarrow> w_aborted w \<or> level = LvFatal)"
  using assms by (rule text_statement_end_to_end_lemma)

theorem text_statement_end_to_end_witness:
  "\<exists>w'. log_with_context sample_surroundings LvInfo ''a.c'' 7 ''f'' (pure_items [CallWrite (VBool True)])
      (sample_log_ctx [FileCtx (stream_ctx_new no_parent), ConsoleCtx plain_ctx] True)
      (sample_world\<lparr>w_file := \<lparr>fs_file = Some ''log'', fs_text = []\<rparr>\<rparr>) =
    Some (sample_log_ctx [FileCtx (stream_ctx_new no_parent), ConsoleCtx plain_ctx] True, w') \<and>
    length (w_printed w') = 1 \<and> (\<exists>s. fs_text (w_file w') = s @ ''true | a.c:7 '')"
proof -
  let ?w = "sample_world\<lparr>w_file := \<lparr>fs_file = Some ''log'', fs_text = []\<rparr>\<rparr>"
  let ?ctx = "sample_log_ctx [FileCtx (stream_ctx_new no_parent), ConsoleCtx plain_ctx] True"
  let ?li = "LogInfo_ctor LvInfo ''a.c'' 7 ''f''"
  have th: "fst (ask_thread sample_surroundings ?w) = None" "fst (ask_thread sample_surroundings sample_world) = None"
    by (simp_all add: ask_thread_def sample_world_def process_init_def)
  have suffix: "suffix_text None ?li = '' | a.c:7 ''"
    by (simp add: suffix_text_def location_text_def LogInfo_ctor_def getFileName_def Let_def dec_text_def printf_eval)
  have fl: "stream_isEnabled (stream_ctx_new no_parent) LvInfo"
    by (simp add: stream_isEnabled_def stream_ctx_new_def getLogLevel_def less_eq_LogLevel_def)
  have console: "console_isEnabled (w_console ?w) plain_ctx LvInfo"
    using plain_isEnabled by (simp add: sample_world_def)
  have safe: "format_safe None ?li" by (simp add: format_safe_def suffix)
  have short: "short_enough sample_surroundings None ?li ''true''" using sample_info_short[of LvInfo] th(2) by simp
  have "\<exists>c \<in> set (lc_contexts ?ctx). ctx_isEnabled sample_surroundings ?w LvInfo c"
    using fl by (simp add: sample_log_ctx_def)
  from text_statement_end_to_end[OF _ this _ _ short[folded th(1)] safe[folded th(1)], of "[CallWrite (VBool True)]"]
  obtain w' where w': "log_with_context sample_surroundings LvInfo ''a.c'' 7 ''f'' (pure_items [CallWrite (VBool True)])
      ?ctx ?w = Some (?ctx, w')"
    "w_printed w' = console_outputs sample_surroundings ?w None ?li ''true'' (lc_contexts ?ctx)"
    "w_file w' = file_write (file_records sample_surroundings None ?li ''true'' (lc_contexts ?ctx)) (w_file ?w)"
    unfolding th(1) by (auto simp: sample_log_ctx_def fatal_message_def sample_world_def)
  have "length (w_printed w') = 1" using w'(2) console by (simp add: sample_log_ctx_def)
  moreover have "fs_text (w_file w') = prefix_text (sr_elapsed sample_surroundings)
      (getShortID (stream_ctx_new no_parent)) LvInfo @ ''true | a.c:7 ''"
    using w'(3) fl by (simp add: sample_log_ctx_def file_record_def suffix file_write_def)
  ultimately show ?thesis using w'(1) by blast
qed

section \<open>The file example\<close>

text \<open>
  \<open>examples/file\<close>: the configured context type with the file back end added. \<open>opened\<close> is whether the
  file can be opened, \<open>path\<close> what the compiler puts into \<open>__FILE__\<close>.
\<close>

definition file_example_context :: "context_type \<Rightarrow> context_type" where
  "file_example_context types = Extension types FileLogContext"

definition file_example_macros :: "context_macro list" where
  "file_example_macros =
     [LOG_DEFINE_APP_IDS ''MyAp'' ''This is a small application showing how to use ivi-logging to log to a file'',
      LOG_DECLARE_DEFAULT_CONTEXT ''mainContext'' ''MAIN'' ''This is a description of that logging context'']"

definition FILE_PATH :: string where
  "FILE_PATH = ''/tmp/ivi-logging-test.txt''"

definition file_example_parts :: "part list" where
  "file_example_parts = [Put (Value TCharArray (SCharArray (''This log should be written to a file as well : '' @ [NUL]))),
     Put (Value TValue (SValue (VCStr (Some (FILE_PATH @ [NUL])))))]"

definition file_example_main :: "surroundings \<Rightarrow> (int \<Rightarrow> string) \<Rightarrow> context_type \<Rightarrow> bool \<Rightarrow> string \<Rightarrow>
    program \<Rightarrow> program option" where
  "file_example_main sr tm types opened path p = do {
     st \<leftarrow> setFilePath opened FILE_PATH (w_file (pr_world p));
     let p = p\<lparr>pr_world := (pr_world p)\<lparr>w_file := st\<rparr>\<rparr>;
     run_action sr tm types (Statement (DefaultContext [(''exampleLoggingFile.cpp'', file_example_macros)]) log_info
       path 13 ''int main(int, const char**)'' file_example_parts) p }"

definition file_example :: "surroundings \<Rightarrow> (int \<Rightarrow> string) \<Rightarrow> context_type \<Rightarrow> bool \<Rightarrow> string \<Rightarrow> world \<Rightarrow> program option" where
  "file_example sr tm types opened path w =
     file_example_main sr tm (file_example_context types) opened path
       (static_init sr (file_example_context types) file_example_macros (program_start w))"

definition file_example_text :: string where
  "file_example_text = ''This log should be written to a file as well : /tmp/ivi-logging-test.txt''"

lemma file_example_items:
  "chain_items tm file_example_parts =
   Some (pure_items [CallWrite (VView ''This log should be written to a file as well : ''),
     CallWrite (VCStr (Some (FILE_PATH @ [NUL])))])"
proof -
  have "c_string (''This log should be written to a file as well : '' @ [NUL]) =
      Some ''This log should be written to a file as well : ''"
    by (rule c_string_append_NUL) (simp add: nul_free_def)
  then show ?thesis by (simp add: chain_items_def file_example_parts_def stream_typed_def stream_chars_def del: append.simps)
qed

lemma file_example_default:
  "getDefaultContext [(''exampleLoggingFile.cpp'', file_example_macros)] = Some (GlobalContext ''mainContext'')"
  by (simp add: scope_default_def file_example_macros_def)

lemma file_example_calls:
  "op_texts (calls_ops False [CallWrite (VView ''This log should be written to a file as well : ''),
     CallWrite (VCStr (Some (FILE_PATH @ [NUL])))]) = Some file_example_text"
proof -
  have "nul_free FILE_PATH" "nul_free ''This log should be written to a file as well : ''"
    by (simp_all add: FILE_PATH_def nul_free_def)
  then show ?thesis by (simp add: file_example_text_def FILE_PATH_def nul_free_def cstr_def)
qed

text \<open>The program after static initialisation.\<close>

definition example_common :: LogContextCommon where
  "example_common = \<lparr>ctx_id = ''MAIN'', ctx_description = ''This is a description of that logging context''\<rparr>"

definition example_ctx :: "surroundings \<Rightarrow> world \<Rightarrow> bool \<Rightarrow> log_ctx" where
  "example_ctx sr w registered = \<lparr>lc_common = example_common,
     lc_contexts = [ConsoleCtx \<lparr>sc_context = example_common,
         sc_level = s_defaultLogLevel (console_env_check (sr_platform sr) (w_console w)),
         m_colorSupport = (getConsoleWidth (sr_winsize sr) \<noteq> 0)\<rparr>,
       FileCtx (stream_ctx_new example_common)], m_bRegistered = registered\<rparr>"

definition example_process :: "process \<Rightarrow> process" where
  "example_process p = AppLogContext_ctor ''MyAp''
     ''This is a small application showing how to use ivi-logging to log to a file'' p"

lemma file_example_init:
  "static_init sr (file_example_context (DefaultLogContext False True)) file_example_macros (program_start w) =
     \<lparr>pr_world = w\<lparr>w_process := example_process (w_process w),
        w_console := console_env_check (sr_platform sr) (w_console w)\<rparr>,
      pr_store = [''mainContext'' \<mapsto> example_ctx sr w False], pr_next = 0\<rparr>"
  by (simp add: static_init_def file_example_macros_def file_example_context_def Extension_def DefaultLogContext_def
      program_start_def new_context_def LogContextT_ctor_def LogContextCommon_ctor_def ConsoleLogContext_ctor_def
      example_ctx_def example_common_def stream_ctx_new_def Let_def flip: example_process_def)

text \<open>The first statement registers the context; with the names of threads off, only the flags change.\<close>

lemma example_check:
  "checkContext sr (example_ctx sr w False) (v\<lparr>w_process := example_process p\<rparr>) =
     Some (example_ctx sr w True, v\<lparr>w_process := registerContextBase (sr_platform sr) (example_process p)\<rparr>)"
proof -
  have "s_pAppLogContext (example_process p) \<noteq> None" by (simp add: example_process_def AppLogContext_ctor_def Let_def)
  then have "setDefaultAPPIDSIfNeeded (sr_platform sr) (example_process p) = Some (example_process p)"
    by (auto simp: setDefaultAPPIDSIfNeeded_def)
  then show ?thesis by (simp add: checkContext_def example_ctx_def registerContextBase_def)
qed

text \<open>
  The file example, built with the console back end, when \<open>/tmp/ivi-logging-test.txt\<close> can be
  opened: the file then holds exactly the one record, and the console shows the line too unless
  its level is below info; when the file cannot be opened, the assertion in \<open>setFilePath\<close> fails.
\<close>

lemma file_example_writes:
  assumes "no_threads sr (w_process w)" and "fs_file (w_file w) = None" and "length (sr_junk sr) = STATIC_SIZE"
    and "line_fits path 13 file_example_text" and "format_safe None (LogInfo_ctor LvInfo path 13 function)"
    and "function = ''int main(int, const char**)''"
  shows "file_example sr tm (DefaultLogContext False True) False path w = None \<and>
    (\<exists>p. file_example sr tm (DefaultLogContext False True) True path w = Some p \<and>
      w_file (pr_world p) = \<lparr>fs_file = Some FILE_PATH, fs_text = prefix_text (sr_elapsed sr) ''MAIN'' LvInfo @
        file_example_text @ suffix_text None (LogInfo_ctor LvInfo path 13 function)\<rparr> \<and>
      (\<exists>line. w_printed (pr_world p) = w_printed w @
        (if LvInfo \<le> s_defaultLogLevel (console_env_check (sr_platform sr) (w_console w)) then [(Stdout, line)] else [])))"
proof -
  let ?g = "console_env_check (sr_platform sr) (w_console w)" and ?li = "LogInfo_ctor LvInfo path 13 function"
  let ?v = "w\<lparr>w_console := ?g, w_file := \<lparr>fs_file = Some FILE_PATH, fs_text = []\<rparr>\<rparr>"
  let ?w = "?v\<lparr>w_process := registerContextBase (sr_platform sr) (example_process (w_process w))\<rparr>"
  let ?ctx = "example_ctx sr w True"
  let ?calls = "[CallWrite (VView ''This log should be written to a file as well : ''),
     CallWrite (VCStr (Some (FILE_PATH @ [NUL])))]"
  have th: "fst (ask_thread sr ?w) = None"
    using assms(1) by (simp add: ask_thread_def no_threads_def registerContextBase_def example_process_def
        AppLogContext_ctor_def Let_def)
  have short: "short_enough sr (fst (ask_thread sr ?w)) ?li file_example_text"
    using assms(3,4) unfolding th same_short_name by simp
  have safe: "format_safe (fst (ask_thread sr ?w)) ?li" using assms(5) by (simp add: th)
  have fl: "stream_isEnabled (stream_ctx_new example_common) LvInfo"
    by (simp add: stream_isEnabled_def stream_ctx_new_def getLogLevel_def less_eq_LogLevel_def)
  have "\<exists>c \<in> set (lc_contexts ?ctx). ctx_isEnabled sr ?w LvInfo c" "\<forall>c \<in> set (lc_contexts ?ctx). text_only c"
    "m_bRegistered ?ctx"
    using fl by (simp_all add: example_ctx_def)
  from text_statement_end_to_end_lemma[OF this(3,1,2) file_example_calls short safe] obtain w' where
    w': "log_with_context sr LvInfo path 13 function (pure_items ?calls) ?ctx ?w = Some (?ctx, w')"
    "w_printed w' = w_printed ?w @ console_outputs sr ?w None ?li file_example_text (lc_contexts ?ctx) @ fatal_message LvInfo"
    "w_file w' = file_write (file_records sr None ?li file_example_text (lc_contexts ?ctx)) (w_file ?w)"
    unfolding th by blast
  have "log_with_context sr LvInfo path 13 function (pure_items ?calls) (example_ctx sr w False)
      (?v\<lparr>w_process := example_process (w_process w)\<rparr>) = Some (?ctx, w')"
    using check_first[OF example_check[where v = ?v and p = "w_process w"]] w'(1) by simp
  moreover have "?v\<lparr>w_process := example_process (w_process w)\<rparr> = w\<lparr>w_process := example_process (w_process w),
      w_console := ?g, w_file := (w_file w)\<lparr>fs_file := Some FILE_PATH, fs_text := []\<rparr>\<rparr>"
    by (cases w; cases "w_file w") simp
  ultimately have "file_example sr tm (DefaultLogContext False True) True path w = Some
      \<lparr>pr_world = w', pr_store = [''mainContext'' \<mapsto> ?ctx], pr_next = 0\<rparr>"
    using assms(2,6)
    by (simp add: file_example_def file_example_main_def file_example_init setFilePath_def file_example_default
        run_statement_def file_example_items get_context_def log_macro_def del: getDefaultContext.simps list.map)
  moreover have "file_example sr tm (DefaultLogContext False True) False path w = None"
    using assms(2) by (simp add: file_example_def file_example_main_def file_example_init setFilePath_def)
  moreover have "w_file w' = \<lparr>fs_file = Some FILE_PATH, fs_text = prefix_text (sr_elapsed sr) ''MAIN'' LvInfo @
      file_example_text @ suffix_text None ?li\<rparr>"
    using w'(3) fl
    by (simp add: example_ctx_def file_write_def file_record_def stream_ctx_new_def getShortID_def example_common_def)
  ultimately show ?thesis
    using w'(2)
    by (auto simp: example_ctx_def fatal_message_def console_isEnabled_def stream_isEnabled_def getLogLevel_def
        console_output_def console_getFile_def)
qed

end
