(* ===== verification/Spec2Isabelle.thy ===== *)
theory Spec2Isabelle
  imports Example_Basic No_Logging Concurrency Thread_Storage Dlt_Race Byte_Store
    Backtrace Dlt_Lib Dlt_Reader Dlt_Statement Hex_Dump
    Dlt_Wire Registration Text_Statement
begin

text \<open>
  Verification of ivi-logging, a C++ logging library with several back ends (console, file, DLT).

  Structure of the program. A program logs with \<open>log_info() << a << b\<close>. The macro
  \<open>log_with_context\<close> (\<open>include/ivi-logging.h\<close>) asks the context whether a back end wants the level
  and, if so, creates a \<open>LogEntry\<close>; every streamed value goes to every enabled back end of the tuple,
  and the destructor of the entry flushes them and, for level fatal, ends the process. The text back
  ends (\<open>include/ivi-logging-console.h\<close>, \<open>include/ivi-logging-file.h\<close>) build a line in a \<open>ByteArray\<close>
  (\<open>include/ivi-logging-utils.h\<close>); the DLT back end (\<open>include/ivi-logging-dltcpp.h\<close>,
  \<open>src/ivi-logging-dltcpp.cpp\<close>) builds a binary message and sends it to a daemon over a FIFO on which
  it also receives log levels. What all share is in \<open>include/ivi-logging-common.h\<close> and
  \<open>src/ivi-logging.cpp\<close>.

  Theories, in the order they build on each other.
  \<^item> Prelude: bytes, C strings, little-endian encodings, C integer conversions, collections of facts.
  \<^item> Printf: the conversions of \<open>printf\<close> that the sources use (C standard library), as a function
    from format and arguments to text.
  \<^item> Byte\_Array: \<open>ByteArray\<close>; the locale \<open>char_buffer\<close> is the interface its client relies on.
  \<^item> Byte\_Store: the same class as objects in memory whose vectors live on a heap, with copies,
    assignments and the destructor; the specification (\<open>list_run\<close>) is a store of byte lists.
  \<^item> Hex\_Dump: \<open>byteArrayToString\<close> and \<open>binaryToHex\<close> with their static buffers.
  \<^item> Common: levels, process identifiers, environment flags, thread identifiers, \<open>LogInfo\<close>, time.
  \<^item> Stream\_Log, Console\_Log, File\_Log: the text back ends, operation by operation.
  \<^item> Line\_Backend: the contract of a text back end (locale \<open>line_backend\<close>) and its two instances.
  \<^item> Dlt\_Data: the payload of a DLT message, its specification as a list of typed arguments
    (\<open>spec_run\<close>), the refinement \<open>dlt_rel\<close> between the two, and a reader (\<open>dec_args\<close>).
  \<^item> Dlt\_Daemon, Dlt\_Session: the daemon connection; its events as a step relation with an
    invariant, and the locale \<open>level_table\<close> for the table of levels the daemon writes to. A context may be
    in the table twice: its flag is not protected, and a registration that opens the connection repeats it.
  \<^item> Dlt\_Wire: the other end of the FIFO, a daemon that takes the stream of bytes apart and follows the
    protocol (\<open>parse_stream\<close>, \<open>receive\<close>), as the specification of what the client writes. In its
    sessions every context registers once.
  \<^item> Registration: \<open>checkContext\<close> in several threads at once, access by access, with level requests
    in between.
  \<^item> Dlt\_Reader: the receiving side of the connection: creation of the application's FIFO, the reader
    thread and the destructor as interleaved steps, with the invariant and the measure that show that
    shutting down ends.
  \<^item> Dlt\_Lib: the alternative back end over the DLT client library (\<open>include/ivi-logging-dlt.h\<close>), as the
    sequence of calls it makes; the library itself is an argument. The locale \<open>argument_backend\<close> is the
    contract both DLT back ends fulfil; that the library encodes what it is called with is a hypothesis
    (\<open>documented_library\<close>), limited to the size of its buffer, which is 1390 bytes by default.
  \<^item> Log\_Context: \<open>LogContextT\<close>, \<open>LogEntry\<close> and the logging macro over any tuple of back ends.
  \<^item> Dlt\_Statement: a whole log statement over the DLT back end, from the macro to the wire. What the
    process prints joins \<open>w_printed\<close>: the lines of consoles, the warning of a DLT message that was
    truncated (when its data is destroyed) and the message of a fatal level; the diagnostics of the
    connection itself are in \<open>dm_out\<close>.
  \<^item> Text\_Statement: a whole log statement over consoles and files, and the program of
    \<open>examples/file\<close>.
  \<^item> Log\_Macros: construction of contexts, the severity macros, the null context.
  \<^item> Streaming: what can be streamed besides native values: containers, tuples, optionals, variants,
    durations, manipulators, \<open>StringBuilder\<close>, the no-fail mode (\<open>include/ivi-logging-stl.h\<close>,
    \<open>include/ivi-logging-types.h\<close>). Operands have static types (\<open>cpp_type\<close>), and these alone decide
    whether an operand compiles (\<open>compiles\<close>, \<open>stream_typed\<close>), whatever the value holds: an empty
    \<open>std::unordered_map\<close> has no overload, nor has a \<open>std::vector<bool>\<close>.
  \<^item> Backtrace: \<open>getStackTrace\<close> of \<open>src/backtrace.cpp\<close>.
  \<^item> Expressions: chains of calls after \<open>log_info()\<close> whose expressions have effects of their own
    (functions that print or change variables, nested statements), and the order of those effects. The
    order in which the values of one \<open>write(a, b, ...)\<close> are written is unspecified in C++; it is an
    argument of the statement (\<open>WriteArgs\<close>, \<open>in_order\<close>), and the theorems hold for every order.
  \<^item> Program: the macros that declare contexts and select one for a scope, the construction of
    contexts over the configured back ends, runs of several statements, and a specification of what
    the terminal shows (\<open>spec_run\<close> over the record \<open>terminal\<close>), which runs on consoles refine.
  \<^item> Example\_Basic: \<open>examples/basic\<close>, statement by statement, and its transcript, for every order of the
    four writes of line 145.
  \<^item> No\_Logging: \<open>ivi-no-logging.h\<close>, which removes the logging at compile time; which chains compile
    depends on their shape and on the types of their operands (\<open>removable\<close>).
  \<^item> Concurrency: threads that log at the same time, with the output mutex, as interleaved steps; the
    threads of \<open>examples/multithreaded\<close> and of \<open>test/test_multithreaded.cpp\<close>.
  \<^item> Thread\_Storage: the variant of \<open>getThreadInformation\<close> for compilers without \<open>thread_local\<close>.
  \<^item> Dlt\_Race: the accesses of concurrent \<open>sendLog\<close> calls to the descriptor of the daemon's FIFO.

  What the theorems show. Buffers: any program over \<open>ByteArray\<close> objects behaves like one over byte
  lists and neither loses nor frees a vector twice. Text back ends: every call extends the line by the text of its value, and a
  statement prints exactly one line per enabled console and appends one record per file back end. DLT messages: any
  sequence of calls refines a list of typed arguments within 16384 bytes, which a reader decodes; a
  message holds all that was logged or is marked as truncated, but for formatted texts that are one
  character too long; the two DLT back ends agree on arguments that fit both buffers, empty texts
  excepted, which the built-in one leaves out. Daemon connection: a reconnection replays all registrations, a level
  request reaches the context it names, every message carries its identifiers, a failed write loses one
  message, a daemon that reads the FIFO always understands it and receives what was sent, contexts
  registered by several threads keep their table consistent, and the reader always stops. Front end: fan-out is independent per back end, contexts
  register once, disabled statements evaluate nothing and do nothing beyond registering their context. Streaming: typed values always stream and show their
  text. Programs: a run on consoles prints what the specification says, statement after statement, and
  stops at a fatal one; the basic example prints its transcript; without logging, exactly the effects
  of the expressions remain. Threads: lines are never mixed, nobody waits for ever, both thread storages
  agree, and senders to the daemon that do not overlap own exactly one descriptor. Some theorems state what goes wrong: argument counts that wrap, colliding identifiers, texts
  cut without a mark, an overflowing trace buffer, errors of the library that count as enabled,
  a descriptor that overlapping senders lose, values of one \<open>write\<close> in reverse.

  Conventions. A result \<open>None\<close> is undefined behaviour of the source (a read outside an array, a
  format without its argument), a failed assertion, or a call that does not compile. Memory that the
  source leaves uninitialised is an argument (\<open>junk\<close>). System calls, clock, environment and process
  id are arguments (\<open>platform\<close>, \<open>dlt_os\<close>, \<open>surroundings\<close>). The constants of the DLT library, which is
  not part of the repository, are the record \<open>dlt_api\<close>; \<open>dlt_documented\<close> holds their documented
  values. Tuple elements are destroyed in the order of libstdc++, first to last. A 64-bit
  little-endian host is assumed. The bounds in hypotheses (texts below 2^29 characters, suffixes
  below 2^27) keep the \<open>int\<close> arithmetic of the console's alignment from wrapping.

  No definition uses fuel; the loops that are not structural (\<open>incoming_loop\<close>, \<open>dec_args\<close>) have
  termination proofs.

  Concurrency. Outside Concurrency, Registration, Dlt\_Reader and Dlt\_Race every operation is one atomic step. In
  Concurrency a thread composes a line in one step, since only its own \<open>LogEntry\<close> is involved, and the
  characters it prints under the mutex are single steps; contexts are registered beforehand, and the
  names of threads are off. Registration has the accesses of \<open>checkContext\<close> as steps and a registration
  under the connection's mutex as one.

  Not modelled. The other data races that the source has where it does not take a mutex (a message
  sent while the vector of contexts grows, the level of a context, the flags read from the
  environment), the 32-bit overloads, the trace macros of debug builds apart from their hexadecimal
  dump, the library back end as an element of the tuple of a context, the build rules, and of the
  tests the naming of a thread and the end of the process.
\<close>

end
